(* ===== verification/Ice_Prelude.thy ===== *)
theory Ice_Prelude
  imports Main "HOL-Library.Word" "HOL-Library.AList" "HOL-Library.Char_ord"
    "HOL-Library.List_Lexorder" "HOL-Library.Sublist"
begin

text \<open>
  Shared vocabulary of the development: the widths of Go's integers, Go maps as association
  lists, error-checked sequencing in the style of \<^verbatim>\<open>x, err := f(); if err != nil\<close>, and the list
  lemmas the components share.

  Conventions. \<open>uint64\<close> is a 64-bit word. The signed Go types \<^verbatim>\<open>int\<close>, \<^verbatim>\<open>int64\<close> and
  \<^verbatim>\<open>int32\<close> are mathematical integers; where the source adds or converts and the result can leave
  the range, the wrap-around is written with \<open>int64_of\<close> or \<open>int32_of\<close>. Strings are byte lists.
\<close>

named_theorems go_defs \<open>definitions that the component proofs unfold together\<close>

subsection \<open>Machine integers\<close>

type_synonym uint64 = "64 word"
type_synonym int64 = int
type_synonym int32 = int

definition int64_of :: "int \<Rightarrow> int64" where
  "int64_of x = signed_take_bit 63 x"

definition int32_of :: "int \<Rightarrow> int32" where
  "int32_of x = signed_take_bit 31 x"

definition in_int64 :: "int \<Rightarrow> bool" where
  "in_int64 x \<longleftrightarrow> - (2 ^ 63) \<le> x \<and> x < 2 ^ 63"

definition in_int32 :: "int \<Rightarrow> bool" where
  "in_int32 x \<longleftrightarrow> - (2 ^ 31) \<le> x \<and> x < 2 ^ 31"

text \<open>The conversions \<^verbatim>\<open>int64(u)\<close> and \<^verbatim>\<open>uint64(i)\<close> keep the bits.\<close>

definition int64_of_uint64 :: "uint64 \<Rightarrow> int64" where
  "int64_of_uint64 u = sint u"

definition uint64_of_int64 :: "int64 \<Rightarrow> uint64" where
  "uint64_of_int64 i = word_of_int i"

lemma int64_of_id [simp]: "in_int64 x \<Longrightarrow> int64_of x = x"
  unfolding in_int64_def int64_of_def by (rule signed_take_bit_int_eq_self) simp_all

lemma int32_of_id [simp]: "in_int32 x \<Longrightarrow> int32_of x = x"
  unfolding in_int32_def int32_of_def by (rule signed_take_bit_int_eq_self) simp_all

lemma int64_of_range [simp]: "in_int64 (int64_of x)"
  unfolding in_int64_def int64_of_def
  using signed_take_bit_int_greater_eq_minus_exp[of 63 x] signed_take_bit_int_less_exp[of 63 x]
  by simp

lemma int32_of_range [simp]: "in_int32 (int32_of x)"
  unfolding in_int32_def int32_of_def
  using signed_take_bit_int_greater_eq_minus_exp[of 31 x] signed_take_bit_int_less_exp[of 31 x]
  by simp

lemma int64_of_uint64_of_int64 [simp]:
  "in_int64 i \<Longrightarrow> int64_of_uint64 (uint64_of_int64 i) = i"
  unfolding int64_of_uint64_def uint64_of_int64_def in_int64_def
  by (simp add: sint_sbintrunc' signed_take_bit_int_eq_self)

lemma uint64_of_int64_of_uint64 [simp]: "uint64_of_int64 (int64_of_uint64 u) = u"
  by (simp add: int64_of_uint64_def uint64_of_int64_def)

lemma int64_of_uint64_range [simp]: "in_int64 (int64_of_uint64 u)"
  unfolding in_int64_def int64_of_uint64_def
  using sint_greater_eq[of u] sint_less[of u] by simp

lemma int64_of_uint64_0 [simp]: "int64_of_uint64 0 = 0"
  by (simp add: int64_of_uint64_def)

lemma uint64_of_int64_eq_0 [simp]: "in_int64 i \<Longrightarrow> uint64_of_int64 i = 0 \<longleftrightarrow> i = 0"
  by (metis int64_of_uint64_0 int64_of_uint64_of_int64 uint64_of_int64_of_uint64)

lemma uint64_of_int64_inject:
  "in_int64 i \<Longrightarrow> in_int64 j \<Longrightarrow> uint64_of_int64 i = uint64_of_int64 j \<longleftrightarrow> i = j"
  by (metis int64_of_uint64_of_int64)

subsection \<open>Go maps\<close>

text \<open>
  A Go map is an association list with distinct keys; \<open>map_of\<close> reads it, \<open>AList.update\<close> writes it
  and \<open>AList.delete\<close> removes a key. The order of the list stands for one iteration order of
  \<^verbatim>\<open>range\<close>; loops over a map take the order as an argument.
\<close>

type_synonym ('k, 'v) gomap = "('k \<times> 'v) list"

abbreviation gomap_ok :: "('k, 'v) gomap \<Rightarrow> bool" where
  "gomap_ok m \<equiv> distinct (map fst m)"

definition gomap_get :: "'v \<Rightarrow> ('k, 'v) gomap \<Rightarrow> 'k \<Rightarrow> 'v" where
  "gomap_get zero m k = (case map_of m k of None \<Rightarrow> zero | Some v \<Rightarrow> v)"

lemma map_of_update [simp]: "map_of (AList.update k v m) = (map_of m)(k \<mapsto> v)"
  by (rule update_conv')

lemma map_of_delete_fun [simp]: "map_of (AList.delete k m) = (map_of m)(k := None)"
  by (rule delete_conv')

lemma gomap_ok_update [simp]: "gomap_ok m \<Longrightarrow> gomap_ok (AList.update k v m)"
  by (rule distinct_update)

lemma gomap_ok_delete [simp]: "gomap_ok m \<Longrightarrow> gomap_ok (AList.delete k m)"
  by (rule distinct_delete)

lemma set_delete [simp]: "set (AList.delete k m) = {p \<in> set m. fst p \<noteq> k}"
  by (auto simp: AList.delete_eq)

lemma delete_filter: "AList.delete k xs = filter (\<lambda>p. fst p \<noteq> k) xs"
  by (auto simp: AList.delete_eq intro: filter_cong)

lemma gomap_mem: "gomap_ok m \<Longrightarrow> map_of m k = Some v \<longleftrightarrow> (k, v) \<in> set m"
  by (rule map_of_eq_Some_iff)

lemma set_update_gomap:
  "gomap_ok m \<Longrightarrow> set (AList.update k v m) = insert (k, v) {p \<in> set m. fst p \<noteq> k}"
  by (induction m) (auto simp: image_iff)

lemma update_new: "map_of m k = None \<Longrightarrow> AList.update k v m = m @ [(k, v)]"
  by (induction m) (auto split: if_splits)

subsection \<open>Checked calls\<close>

text \<open>
  \<open>on_err m h k\<close> is \<^verbatim>\<open>x, err := m(); if err != nil { return h(err) }; k(x)\<close> over an
  explicit state.
\<close>

definition on_err ::
    "('w \<Rightarrow> ('e + 'a) \<times> 'w) \<Rightarrow> ('e \<Rightarrow> 'w \<Rightarrow> 'r \<times> 'w) \<Rightarrow> ('a \<Rightarrow> 'w \<Rightarrow> 'r \<times> 'w) \<Rightarrow> 'w \<Rightarrow> 'r \<times> 'w" where
  "on_err m h k w = (case m w of (Inl e, w') \<Rightarrow> h e w' | (Inr x, w') \<Rightarrow> k x w')"

lemma on_err_Inl [simp]: "m w = (Inl e, w') \<Longrightarrow> on_err m h k w = h e w'"
  by (simp add: on_err_def)

lemma on_err_Inr [simp]: "m w = (Inr x, w') \<Longrightarrow> on_err m h k w = k x w'"
  by (simp add: on_err_def)

lemma on_err_cases [consumes 1, case_names err ok]:
  assumes "on_err m h k w = (r, w')"
  obtains e w1 where "m w = (Inl e, w1)" and "h e w1 = (r, w')"
    | x w1 where "m w = (Inr x, w1)" and "k x w1 = (r, w')"
proof -
  obtain y w1 where m: "m w = (y, w1)" by (cases "m w") auto
  show thesis
  proof (cases y)
    case (Inl e)
    with m assms show ?thesis by (auto intro: that(1))
  next
    case (Inr x)
    with m assms show ?thesis by (auto intro: that(2))
  qed
qed

text \<open>A property of both branches of a checked call.\<close>

lemma on_err_rule:
  assumes "\<And>e w'. m w = (Inl e, w') \<Longrightarrow> P (h e w')"
    and "\<And>x w'. m w = (Inr x, w') \<Longrightarrow> P (k x w')"
  shows "P (on_err m h k w)"
  using assms by (auto simp: on_err_def split: prod.splits sum.splits)

end
