(* ===== verification/Go_Strconv.thy ===== *)
theory Go_Strconv
  imports Ice_Prelude
begin

text \<open>
  The part of Go's \<^verbatim>\<open>strconv\<close> (and of the \<^verbatim>\<open>%d\<close> verb) that IceCore uses: decimal
  output of integers and the parsers \<^verbatim>\<open>ParseInt(s, 10, 64)\<close> and \<^verbatim>\<open>Atoi\<close>. The
  parsers return \<open>None\<close> where Go returns an error (empty input, a byte that is not a digit, a value
  out of range). The locale \<open>codec\<close> states what a client of an encoder/decoder pair relies on; page
  tokens and cache keys are interpretations of it.
\<close>

locale codec =
  fixes enc :: "'a \<Rightarrow> 'b"
    and dec :: "'b \<Rightarrow> 'a option"
    and ok :: "'a \<Rightarrow> bool"
  assumes dec_enc: "ok x \<Longrightarrow> dec (enc x) = Some x"
begin

lemma enc_inj: "ok x \<Longrightarrow> ok y \<Longrightarrow> enc x = enc y \<Longrightarrow> x = y"
  by (metis dec_enc option.inject)

lemma enc_inj_on: "inj_on enc {x. ok x}"
  by (rule inj_onI) (auto intro: enc_inj)

end

subsection \<open>Decimal output\<close>

definition digit_char :: "nat \<Rightarrow> char" where
  "digit_char d = char_of (48 + d)"

fun dec_nat :: "nat \<Rightarrow> string" where
  "dec_nat n = (if n < 10 then [digit_char n] else dec_nat (n div 10) @ [digit_char (n mod 10)])"

declare dec_nat.simps [simp del]

definition FormatUint :: "uint64 \<Rightarrow> string" where
  "FormatUint u = dec_nat (unat u)"

definition FormatInt :: "int \<Rightarrow> string" where
  "FormatInt i = (if i < 0 then CHR ''-'' # dec_nat (nat (- i)) else dec_nat (nat i))"

subsection \<open>Decimal input\<close>

definition is_digit :: "char \<Rightarrow> bool" where
  "is_digit c \<longleftrightarrow> 48 \<le> (of_char c :: nat) \<and> of_char c \<le> (57 :: nat)"

definition digit_val :: "char \<Rightarrow> nat" where
  "digit_val c = of_char c - 48"

fun parse_digits :: "nat \<Rightarrow> string \<Rightarrow> nat option" where
  "parse_digits acc [] = Some acc"
| "parse_digits acc (c # cs) =
     (if is_digit c then parse_digits (10 * acc + digit_val c) cs else None)"

definition parse_nat :: "string \<Rightarrow> nat option" where
  "parse_nat s = (if s = [] then None else parse_digits 0 s)"

text \<open>A leading sign is optional; the magnitude is checked against the cutoff of its sign.\<close>

definition ParseInt :: "string \<Rightarrow> int64 option" where
  "ParseInt s =
     (case s of
        [] \<Rightarrow> None
      | c # cs \<Rightarrow>
          (let neg = (c = CHR ''-''); body = (if neg \<or> c = CHR ''+'' then cs else s) in
           case parse_nat body of
             None \<Rightarrow> None
           | Some n \<Rightarrow>
               (if \<not> neg \<and> 2 ^ 63 \<le> int n then None
                else if neg \<and> 2 ^ 63 < int n then None
                else Some (if neg then - int n else int n))))"

definition Atoi :: "string \<Rightarrow> int64 option" where
  "Atoi = ParseInt"

subsection \<open>Round trips\<close>

lemma of_digit_char [simp]: "d < 10 \<Longrightarrow> of_char (digit_char d) = 48 + d"
  by (simp add: digit_char_def)

lemma is_digit_digit_char [simp]: "d < 10 \<Longrightarrow> is_digit (digit_char d)"
  by (simp add: is_digit_def)

lemma digit_val_digit_char [simp]: "d < 10 \<Longrightarrow> digit_val (digit_char d) = d"
  by (simp add: digit_val_def)

lemma parse_digits_append:
  "parse_digits acc (xs @ ys) =
     (case parse_digits acc xs of None \<Rightarrow> None | Some a \<Rightarrow> parse_digits a ys)"
  by (induction xs arbitrary: acc) auto

lemma dec_nat_nonempty [simp]: "dec_nat n \<noteq> []"
  by (subst dec_nat.simps) simp

lemma parse_digits_dec_nat [simp]: "parse_digits 0 (dec_nat n) = Some n"
proof (induction n rule: dec_nat.induct)
  case (1 n)
  show ?case
  proof (cases "n < 10")
    case True
    then show ?thesis by (simp add: dec_nat.simps [of n])
  next
    case False
    with "1.IH" show ?thesis by (simp add: dec_nat.simps [of n] parse_digits_append)
  qed
qed

lemma dec_nat_digits: "c \<in> set (dec_nat n) \<Longrightarrow> is_digit c"
proof (induction n rule: dec_nat.induct)
  case (1 n)
  then show ?case
    by (cases "n < 10") (auto simp: dec_nat.simps [of n])
qed

lemma parse_nat_dec_nat [simp]: "parse_nat (dec_nat n) = Some n"
  by (simp add: parse_nat_def)

lemma dec_nat_inject [simp]: "dec_nat m = dec_nat n \<longleftrightarrow> m = n"
  by (metis option.inject parse_nat_dec_nat)

lemma not_digit_signs [simp]: "\<not> is_digit CHR ''-''" "\<not> is_digit CHR ''+''" "\<not> is_digit CHR '':''"
  by (simp_all add: is_digit_def)

lemma dec_nat_no_sign:
  assumes "dec_nat n = c # cs"
  shows "c \<noteq> CHR ''-''" "c \<noteq> CHR ''+''"
  using dec_nat_digits [of c n] assms by auto

lemma ParseInt_dec_nat: "n < 2 ^ 63 \<Longrightarrow> ParseInt (dec_nat n) = Some (int n)"
proof -
  assume n: "n < 2 ^ 63"
  obtain c cs where eq: "dec_nat n = c # cs" by (cases "dec_nat n") auto
  have "ParseInt (c # cs) = Some (int n)"
    using dec_nat_no_sign [OF eq] parse_nat_dec_nat [of n] n
    by (simp add: ParseInt_def eq)
  then show ?thesis by (simp add: eq)
qed

lemma ParseInt_FormatInt [simp]: "in_int64 i \<Longrightarrow> ParseInt (FormatInt i) = Some i"
proof (cases "i < 0")
  case True
  moreover assume "in_int64 i"
  ultimately show ?thesis
    by (auto simp: FormatInt_def ParseInt_def in_int64_def)
next
  case False
  moreover assume "in_int64 i"
  ultimately have "nat i < 2 ^ 63" by (auto simp: in_int64_def)
  with False show ?thesis by (simp add: FormatInt_def ParseInt_dec_nat)
qed

lemma FormatInt_nonempty [simp]: "FormatInt i \<noteq> []"
  by (simp add: FormatInt_def)

lemma FormatUint_inject [simp]: "FormatUint u = FormatUint v \<longleftrightarrow> u = v"
  by (simp add: FormatUint_def word_unat_eq_iff)

lemma FormatUint_no_colon: "CHR '':'' \<notin> set (FormatUint u)"
  by (auto simp: FormatUint_def dest: dec_nat_digits)

interpretation token: codec FormatInt ParseInt in_int64
  by unfold_locales simp

lemma ParseInt_range: "ParseInt s = Some i \<Longrightarrow> in_int64 i"
  by (auto simp: ParseInt_def in_int64_def Let_def split: list.splits option.splits if_splits)

end
