(* ===== verification/LRU_Cache.thy ===== *)
theory LRU_Cache
  imports Ice_Prelude
begin

text \<open>
  \<^verbatim>\<open>internal/cache/lru.go\<close>: the generic LRU cache. The state keeps what the Go struct keeps: a
  map from keys to list elements and a doubly linked list of elements, front first. A list element
  is identified by an address (a \<open>nat\<close>), so the map holds addresses and not values, as the Go map
  holds \<^verbatim>\<open>*list.Element\<close>. The mutex makes every method atomic, so a method is a function on the
  state. The invariant \<open>lru_inv\<close> ties the map to the list; \<open>recency\<close> abstracts a cache to its
  entries in order of use, on which \<open>spec_get\<close>, \<open>spec_put\<close> and \<open>spec_drop\<close> say what an LRU cache
  promises. The locale \<open>read_cache\<close> is what the partition registry relies on.
\<close>

subsection \<open>container/list\<close>

type_synonym 'e dlist = "(nat \<times> 'e) list"

definition list_Remove :: "nat \<Rightarrow> 'e dlist \<Rightarrow> 'e dlist" where
  "list_Remove e xs = filter (\<lambda>p. fst p \<noteq> e) xs"

definition list_MoveToFront :: "nat \<Rightarrow> 'e dlist \<Rightarrow> 'e dlist" where
  "list_MoveToFront e xs = filter (\<lambda>p. fst p = e) xs @ list_Remove e xs"

definition list_SetValue :: "nat \<Rightarrow> 'e \<Rightarrow> 'e dlist \<Rightarrow> 'e dlist" where
  "list_SetValue e x xs = map (\<lambda>p. if fst p = e then (e, x) else p) xs"

definition list_Back :: "'e dlist \<Rightarrow> (nat \<times> 'e) option" where
  "list_Back xs = (if xs = [] then None else Some (last xs))"

subsection \<open>The cache\<close>

type_synonym ('k, 'v) lru_entry = "'k \<times> 'v"

record ('k, 'v) lru =
  lru_capacity :: int
  lru_items :: "('k, nat) gomap"
  lru_list :: "('k, 'v) lru_entry dlist"
  lru_fresh :: nat
  lru_hits :: uint64
  lru_misses :: uint64
  lru_evictions :: uint64

definition NewLRU :: "int \<Rightarrow> ('k, 'v) lru" where
  "NewLRU capacity =
     \<lparr>lru_capacity = (if capacity \<le> 0 then 1 else capacity), lru_items = [], lru_list = [],
      lru_fresh = 0, lru_hits = 0, lru_misses = 0, lru_evictions = 0\<rparr>"

definition lru_Get :: "'k \<Rightarrow> ('k, 'v) lru \<Rightarrow> 'v option \<times> ('k, 'v) lru" where
  "lru_Get key l =
     (case map_of (lru_items l) key of
        Some elem \<Rightarrow>
          (map_option snd (map_of (lru_list l) elem),
           l\<lparr>lru_list := list_MoveToFront elem (lru_list l), lru_hits := lru_hits l + 1\<rparr>)
      | None \<Rightarrow> (None, l\<lparr>lru_misses := lru_misses l + 1\<rparr>))"

definition lru_evict :: "('k, 'v) lru \<Rightarrow> ('k, 'v) lru" where
  "lru_evict l =
     (if lru_capacity l \<le> int (length (lru_list l))
      then (case list_Back (lru_list l) of
              None \<Rightarrow> l
            | Some (e, ent) \<Rightarrow>
                l\<lparr>lru_items := AList.delete (fst ent) (lru_items l),
                  lru_list := list_Remove e (lru_list l),
                  lru_evictions := lru_evictions l + 1\<rparr>)
      else l)"

definition lru_push :: "'k \<Rightarrow> 'v \<Rightarrow> ('k, 'v) lru \<Rightarrow> ('k, 'v) lru" where
  "lru_push key v l =
     l\<lparr>lru_list := (lru_fresh l, (key, v)) # lru_list l,
       lru_items := AList.update key (lru_fresh l) (lru_items l),
       lru_fresh := Suc (lru_fresh l)\<rparr>"

definition lru_Put :: "'k \<Rightarrow> 'v \<Rightarrow> ('k, 'v) lru \<Rightarrow> ('k, 'v) lru" where
  "lru_Put key v l =
     (case map_of (lru_items l) key of
        Some elem \<Rightarrow>
          l\<lparr>lru_list := list_MoveToFront elem (list_SetValue elem (key, v) (lru_list l))\<rparr>
      | None \<Rightarrow> lru_push key v (lru_evict l))"

definition lru_Invalidate :: "'k \<Rightarrow> ('k, 'v) lru \<Rightarrow> ('k, 'v) lru" where
  "lru_Invalidate key l =
     (case map_of (lru_items l) key of
        Some elem \<Rightarrow>
          l\<lparr>lru_items := AList.delete key (lru_items l), lru_list := list_Remove elem (lru_list l)\<rparr>
      | None \<Rightarrow> l)"

text \<open>
  The loop of \<^verbatim>\<open>InvalidateIf\<close> ranges over the map in an unspecified order, here the list of pairs
  \<open>ps\<close>. Go allows deleting the current key of a \<^verbatim>\<open>range\<close>.
\<close>

fun InvalidateIf_loop ::
    "('k \<Rightarrow> bool) \<Rightarrow> ('k \<times> nat) list \<Rightarrow> int \<Rightarrow> ('k, 'v) lru \<Rightarrow> int \<times> ('k, 'v) lru" where
  "InvalidateIf_loop pred [] removed l = (removed, l)"
| "InvalidateIf_loop pred ((key, elem) # ps) removed l =
     (if pred key
      then InvalidateIf_loop pred ps (removed + 1)
             (l\<lparr>lru_items := AList.delete key (lru_items l),
                lru_list := list_Remove elem (lru_list l)\<rparr>)
      else InvalidateIf_loop pred ps removed l)"

definition lru_InvalidateIf :: "('k \<Rightarrow> bool) \<Rightarrow> ('k, 'v) lru \<Rightarrow> int \<times> ('k, 'v) lru" where
  "lru_InvalidateIf pred l = InvalidateIf_loop pred (lru_items l) 0 l"

definition lru_Clear :: "('k, 'v) lru \<Rightarrow> ('k, 'v) lru" where
  "lru_Clear l = l\<lparr>lru_items := [], lru_list := []\<rparr>"

definition lru_Size :: "('k, 'v) lru \<Rightarrow> int" where
  "lru_Size l = int (length (lru_items l))"

text \<open>The accessors, and the counters they read.\<close>

definition lru_Capacity :: "('k, 'v) lru \<Rightarrow> int" where
  "lru_Capacity l = lru_capacity l"

definition lru_Hits :: "('k, 'v) lru \<Rightarrow> uint64" where
  "lru_Hits l = lru_hits l"

definition lru_Misses :: "('k, 'v) lru \<Rightarrow> uint64" where
  "lru_Misses l = lru_misses l"

definition lru_Evictions :: "('k, 'v) lru \<Rightarrow> uint64" where
  "lru_Evictions l = lru_evictions l"

subsection \<open>Invariant\<close>

text \<open>The map and the list hold the same elements under the same keys, and never too many.\<close>

definition lru_linked :: "('k, nat) gomap \<Rightarrow> ('k, 'v) lru_entry dlist \<Rightarrow> bool" where
  "lru_linked items xs \<longleftrightarrow>
     gomap_ok items \<and> distinct (map fst xs) \<and> distinct (map (fst \<circ> snd) xs) \<and>
     set items = (\<lambda>p. (fst (snd p), fst p)) ` set xs"

definition lru_inv :: "('k, 'v) lru \<Rightarrow> bool" where
  "lru_inv l \<longleftrightarrow>
     lru_linked (lru_items l) (lru_list l) \<and> (\<forall>p \<in> set (lru_list l). fst p < lru_fresh l) \<and>
     1 \<le> lru_capacity l \<and> int (length (lru_list l)) \<le> lru_capacity l"

lemma lru_linked_Nil [simp]: "lru_linked [] []"
  by (simp add: lru_linked_def)

lemma lru_linked_mem:
  "lru_linked items xs \<Longrightarrow> map_of items k = Some e \<longleftrightarrow> (\<exists>v. (e, (k, v)) \<in> set xs)"
  by (force simp: lru_linked_def map_of_eq_Some_iff)

lemma lru_linked_key:
  assumes "lru_linked items xs" "(e, (k, v)) \<in> set xs" "(e', (k, v')) \<in> set xs"
  shows "e' = e \<and> v' = v"
proof -
  have "distinct (map (fst \<circ> snd) xs)" using assms(1) by (simp add: lru_linked_def)
  then have "inj_on (fst \<circ> snd) (set xs)" by (simp add: distinct_map)
  from inj_onD [OF this, of "(e', (k, v'))" "(e, (k, v))"] assms(2,3) show ?thesis by simp
qed

lemma lru_linked_length: "lru_linked items xs \<Longrightarrow> length items = length xs"
proof -
  assume l: "lru_linked items xs"
  then have "card (set items) = card (set xs)"
    unfolding lru_linked_def
    by (auto intro!: card_image inj_onI simp: distinct_map dest: inj_onD)
  moreover have "distinct items" "distinct xs"
    using l by (auto simp: lru_linked_def distinct_map)
  ultimately show ?thesis by (simp add: distinct_card)
qed

lemma distinct_map_filter_gen: "distinct (map f xs) \<Longrightarrow> distinct (map f (filter Q xs))"
  by (induction xs) auto

lemma lru_linked_filter:
  assumes "lru_linked items xs"
  shows "lru_linked (filter (\<lambda>p. Q (fst p)) items) (filter (\<lambda>p. Q (fst (snd p))) xs)"
proof -
  have "set (filter (\<lambda>p. Q (fst p)) items) =
      (\<lambda>p. (fst (snd p), fst p)) ` set (filter (\<lambda>p. Q (fst (snd p))) xs)"
    using assms by (auto simp: lru_linked_def)
  with assms show ?thesis unfolding lru_linked_def by (simp add: distinct_map_filter_gen)
qed

lemma lru_linked_addr:
  assumes "lru_linked items xs" "(e, x) \<in> set xs" "(e, y) \<in> set xs"
  shows "y = x"
  using assms eq_key_imp_eq_value [of xs e x y] by (simp add: lru_linked_def)

lemma lru_linked_remove:
  assumes "lru_linked items xs" "(e, (k, v)) \<in> set xs"
  shows "list_Remove e xs = filter (\<lambda>p. fst (snd p) \<noteq> k) xs"
  unfolding list_Remove_def
proof (rule filter_cong [OF refl])
  fix p assume p: "p \<in> set xs"
  obtain a k' v' where [simp]: "p = (a, (k', v'))" by (cases p) auto
  show "(fst p \<noteq> e) = (fst (snd p) \<noteq> k)"
    using p lru_linked_addr [OF assms, of "(k', v')"] lru_linked_key [OF assms, of a v'] by auto
qed

lemma filter_unique: "distinct xs \<Longrightarrow> x \<in> set xs \<Longrightarrow> filter (\<lambda>y. y = x) xs = [x]"
  by (induction xs) (auto simp: filter_empty_conv)

lemma lru_linked_find:
  assumes "lru_linked items xs" "(e, (k, v)) \<in> set xs"
  shows "filter (\<lambda>p. fst p = e) xs = [(e, (k, v))]"
proof -
  have "filter (\<lambda>p. fst p = e) xs = filter (\<lambda>p. p = (e, (k, v))) xs"
  proof (rule filter_cong [OF refl])
    fix p assume p: "p \<in> set xs"
    obtain a x where [simp]: "p = (a, x)" by (cases p)
    show "(fst p = e) = (p = (e, (k, v)))"
      using p lru_linked_addr [OF assms, of x] by auto
  qed
  also have "\<dots> = [(e, (k, v))]"
    using assms by (intro filter_unique) (simp_all add: lru_linked_def distinct_map)
  finally show ?thesis .
qed

subsection \<open>Abstraction to recency order\<close>

definition recency :: "('k, 'v) lru \<Rightarrow> ('k \<times> 'v) list" where
  "recency l = map snd (lru_list l)"

definition lru_peek :: "('k, 'v) lru \<Rightarrow> 'k \<Rightarrow> 'v option" where
  "lru_peek l k = map_of (recency l) k"

definition spec_get :: "'k \<Rightarrow> ('k \<times> 'v) list \<Rightarrow> 'v option \<times> ('k \<times> 'v) list" where
  "spec_get k xs =
     (case map_of xs k of
        None \<Rightarrow> (None, xs)
      | Some v \<Rightarrow> (Some v, (k, v) # AList.delete k xs))"

definition spec_put :: "int \<Rightarrow> 'k \<Rightarrow> 'v \<Rightarrow> ('k \<times> 'v) list \<Rightarrow> ('k \<times> 'v) list" where
  "spec_put cap k v xs =
     (k, v) # (if map_of xs k = None \<and> cap \<le> int (length xs) then butlast xs
               else AList.delete k xs)"

definition spec_drop :: "('k \<Rightarrow> bool) \<Rightarrow> ('k \<times> 'v) list \<Rightarrow> ('k \<times> 'v) list" where
  "spec_drop P xs = filter (\<lambda>p. \<not> P (fst p)) xs"

lemma recency_distinct: "lru_inv l \<Longrightarrow> distinct (map fst (recency l))"
  by (simp add: lru_inv_def lru_linked_def recency_def comp_def)

lemma map_snd_filter: "map snd (filter (\<lambda>p. Q (fst (snd p))) xs) = filter (\<lambda>q. Q (fst q)) (map snd xs)"
  by (induction xs) auto

lemma map_snd_filter_key:
  "map snd (filter (\<lambda>p. fst (snd p) \<noteq> k) xs) = AList.delete k (map snd xs)"
  by (induction xs) auto

lemma lru_peek_items:
  assumes "lru_inv l"
  shows "lru_peek l k = Some v \<longleftrightarrow> (\<exists>e. map_of (lru_items l) k = Some e \<and> (e, (k, v)) \<in> set (lru_list l))"
proof -
  have "lru_peek l k = Some v \<longleftrightarrow> (k, v) \<in> set (recency l)"
    unfolding lru_peek_def by (rule map_of_eq_Some_iff [OF recency_distinct [OF assms]])
  also have "\<dots> \<longleftrightarrow> (\<exists>e. (e, (k, v)) \<in> set (lru_list l))"
    by (force simp: recency_def)
  finally show ?thesis
    using lru_linked_mem [of "lru_items l" "lru_list l" k] assms by (auto simp: lru_inv_def)
qed

lemma lru_peek_None:
  assumes "lru_inv l"
  shows "lru_peek l k = None \<longleftrightarrow> map_of (lru_items l) k = None"
proof -
  have "(\<exists>v. lru_peek l k = Some v) \<longleftrightarrow> (\<exists>e. map_of (lru_items l) k = Some e)"
    using lru_peek_items [OF assms, of k] lru_linked_mem [of "lru_items l" "lru_list l" k] assms
    by (auto simp: lru_inv_def)
  then show ?thesis by (metis option.exhaust option.distinct(1))
qed

text \<open>A hit: the element the map points at is the entry of the key.\<close>

lemma lru_hitE:
  assumes "lru_inv l" "map_of (lru_items l) k = Some e"
  obtains v where "(e, (k, v)) \<in> set (lru_list l)" "lru_peek l k = Some v"
    "map_of (lru_list l) e = Some (k, v)"
    "list_Remove e (lru_list l) = filter (\<lambda>p. fst (snd p) \<noteq> k) (lru_list l)"
    "filter (\<lambda>p. fst p = e) (lru_list l) = [(e, (k, v))]"
proof -
  from assms have l: "lru_linked (lru_items l) (lru_list l)" by (simp add: lru_inv_def)
  with assms(2) obtain v where v: "(e, (k, v)) \<in> set (lru_list l)" by (auto simp: lru_linked_mem)
  have "lru_peek l k = Some v" using lru_peek_items [OF assms(1)] assms(2) v by blast
  moreover have "map_of (lru_list l) e = Some (k, v)"
    using v l by (simp add: lru_linked_def)
  ultimately show thesis using that v lru_linked_remove [OF l v] lru_linked_find [OF l v] by blast
qed

subsection \<open>Refinement of the abstract operations\<close>

lemma lru_Get_refines:
  assumes "lru_inv l"
  shows "fst (lru_Get k l) = fst (spec_get k (recency l))"
    and "recency (snd (lru_Get k l)) = snd (spec_get k (recency l))"
proof -
  have "fst (lru_Get k l) = fst (spec_get k (recency l)) \<and>
      recency (snd (lru_Get k l)) = snd (spec_get k (recency l))"
  proof (cases "map_of (lru_items l) k")
    case None
    then have "map_of (recency l) k = None" using lru_peek_None [OF assms, of k] by (simp add: lru_peek_def)
    with None show ?thesis by (simp add: lru_Get_def spec_get_def recency_def)
  next
    case (Some e)
    from lru_hitE [OF assms Some] obtain v where
      v: "map_of (recency l) k = Some v" "map_of (lru_list l) e = Some (k, v)"
        "list_Remove e (lru_list l) = filter (\<lambda>p. fst (snd p) \<noteq> k) (lru_list l)"
        "filter (\<lambda>p. fst p = e) (lru_list l) = [(e, (k, v))]"
      by (auto simp: lru_peek_def)
    then show ?thesis using Some
      by (simp add: lru_Get_def spec_get_def recency_def list_MoveToFront_def map_snd_filter_key)
  qed
  then show "fst (lru_Get k l) = fst (spec_get k (recency l))"
    and "recency (snd (lru_Get k l)) = snd (spec_get k (recency l))" by auto
qed

lemma lru_linked_move:
  assumes l: "lru_linked items xs" and e: "(e, (k, v)) \<in> set xs"
  shows "lru_linked items ((e, (k, w)) # filter (\<lambda>p. fst (snd p) \<noteq> k) xs)"
proof -
  let ?ys = "filter (\<lambda>p. fst (snd p) \<noteq> k) xs"
  have "e \<notin> fst ` set ?ys" by (auto dest: lru_linked_addr [OF l e])
  moreover have "set items = (\<lambda>p. (fst (snd p), fst p)) ` set ((e, (k, w)) # ?ys)"
  proof -
    have "set xs = insert (e, (k, v)) (set ?ys)"
      using e by (auto dest: lru_linked_key [OF l e])
    then have "(\<lambda>p. (fst (snd p), fst p)) ` set xs =
        (\<lambda>p. (fst (snd p), fst p)) ` insert (e, (k, v)) (set ?ys)" by (rule arg_cong)
    then show ?thesis using l by (simp add: lru_linked_def)
  qed
  moreover have "distinct (map fst ?ys)" "distinct (map (fst \<circ> snd) ?ys)"
    using l by (simp_all add: lru_linked_def distinct_map_filter_gen del: map_map)
  ultimately show ?thesis
    using l by (auto simp: lru_linked_def)
qed

lemma length_filter_key:
  assumes "lru_linked items xs" "(e, (k, v)) \<in> set xs"
  shows "Suc (length (filter (\<lambda>p. fst (snd p) \<noteq> k) xs)) = length xs"
  using lru_linked_length [OF assms(1)] lru_linked_length [OF lru_linked_move [OF assms]] by simp

text \<open>Moving an element to the front, with a new value or its old one, keeps the invariant.\<close>

lemma lru_inv_move:
  assumes inv: "lru_inv l" and e: "(e, (k, v)) \<in> set (lru_list l)"
  shows "lru_inv (l\<lparr>lru_list := (e, (k, w)) # filter (\<lambda>p. fst (snd p) \<noteq> k) (lru_list l),
    lru_hits := h\<rparr>)"
    and "lru_inv (l\<lparr>lru_list := (e, (k, w)) # filter (\<lambda>p. fst (snd p) \<noteq> k) (lru_list l)\<rparr>)"
proof -
  from inv have l: "lru_linked (lru_items l) (lru_list l)" by (simp add: lru_inv_def)
  have "e < lru_fresh l" using inv e by (force simp: lru_inv_def)
  then show "lru_inv (l\<lparr>lru_list := (e, (k, w)) # filter (\<lambda>p. fst (snd p) \<noteq> k) (lru_list l),
      lru_hits := h\<rparr>)"
    and "lru_inv (l\<lparr>lru_list := (e, (k, w)) # filter (\<lambda>p. fst (snd p) \<noteq> k) (lru_list l)\<rparr>)"
    using inv lru_linked_move [OF l e, of w] length_filter_key [OF l e]
    by (simp_all add: lru_inv_def)
qed

lemma list_SetValue_remove:
  "list_Remove e (list_SetValue e x xs) = list_Remove e xs"
  "filter (\<lambda>p. fst p = e) (list_SetValue e x xs) = map (\<lambda>_. (e, x)) (filter (\<lambda>p. fst p = e) xs)"
  by (induction xs) (auto simp: list_Remove_def list_SetValue_def)

lemma lru_Get_inv: "lru_inv l \<Longrightarrow> lru_inv (snd (lru_Get k l))"
proof (cases "map_of (lru_items l) k")
  case None
  moreover assume "lru_inv l"
  ultimately show ?thesis by (simp add: lru_Get_def lru_inv_def)
next
  case (Some e)
  assume inv: "lru_inv l"
  then have l: "lru_linked (lru_items l) (lru_list l)" by (simp add: lru_inv_def)
  obtain v where v: "(e, (k, v)) \<in> set (lru_list l)"
    and eqs: "list_Remove e (lru_list l) = filter (\<lambda>p. fst (snd p) \<noteq> k) (lru_list l)"
      "filter (\<lambda>p. fst p = e) (lru_list l) = [(e, (k, v))]"
    by (rule lru_hitE [OF inv Some])
  have "list_MoveToFront e (lru_list l) = (e, (k, v)) # filter (\<lambda>p. fst (snd p) \<noteq> k) (lru_list l)"
    by (simp add: list_MoveToFront_def eqs)
  then show ?thesis
    using inv Some by (simp add: lru_Get_def lru_inv_move [OF inv v])
qed

lemma lru_evict_cases:
  assumes "lru_inv l"
  shows "lru_linked (lru_items (lru_evict l)) (lru_list (lru_evict l))"
    and "lru_list (lru_evict l) =
      (if lru_capacity l \<le> int (length (lru_list l)) then butlast (lru_list l) else lru_list l)"
    and "lru_fresh (lru_evict l) = lru_fresh l" "lru_capacity (lru_evict l) = lru_capacity l"
    and "map_of (lru_items l) k = None \<Longrightarrow> map_of (lru_items (lru_evict l)) k = None"
proof -
  have l: "lru_linked (lru_items l) (lru_list l)" using assms by (simp add: lru_inv_def)
  have "lru_linked (lru_items (lru_evict l)) (lru_list (lru_evict l)) \<and>
    lru_list (lru_evict l) =
      (if lru_capacity l \<le> int (length (lru_list l)) then butlast (lru_list l) else lru_list l) \<and>
    lru_fresh (lru_evict l) = lru_fresh l \<and> lru_capacity (lru_evict l) = lru_capacity l \<and>
    (map_of (lru_items l) k = None \<longrightarrow> map_of (lru_items (lru_evict l)) k = None)"
  proof (cases "lru_capacity l \<le> int (length (lru_list l))")
    case False
    with l show ?thesis by (simp add: lru_evict_def)
  next
    case True
    with assms have "lru_list l \<noteq> []" by (auto simp: lru_inv_def)
    then obtain ys e k' v where ys: "lru_list l = ys @ [(e, (k', v))]"
      by (metis prod.exhaust rev_exhaust)
    have mem: "(e, (k', v)) \<in> set (lru_list l)" by (simp add: ys)
    have "list_Remove e (lru_list l) = ys"
      using l unfolding lru_linked_def list_Remove_def
      by (auto simp: ys filter_id_conv)
    moreover have "lru_linked (AList.delete k' (lru_items l)) (list_Remove e (lru_list l))"
      using lru_linked_filter [OF l, of "\<lambda>x. x \<noteq> k'"]
      by (simp add: lru_linked_remove [OF l mem] delete_filter)
    ultimately show ?thesis using True by (auto simp: lru_evict_def list_Back_def ys)
  qed
  then show "lru_linked (lru_items (lru_evict l)) (lru_list (lru_evict l))"
    and "lru_list (lru_evict l) =
      (if lru_capacity l \<le> int (length (lru_list l)) then butlast (lru_list l) else lru_list l)"
    and "lru_fresh (lru_evict l) = lru_fresh l" "lru_capacity (lru_evict l) = lru_capacity l"
    and "map_of (lru_items l) k = None \<Longrightarrow> map_of (lru_items (lru_evict l)) k = None"
    by blast+
qed

lemma lru_push_inv:
  assumes "lru_linked (lru_items l) (lru_list l)" "\<forall>p \<in> set (lru_list l). fst p < lru_fresh l"
    and "1 \<le> lru_capacity l" "int (length (lru_list l)) < lru_capacity l"
    and "map_of (lru_items l) k = None"
  shows "lru_inv (lru_push k v l)"
proof -
  have k: "k \<notin> fst ` set (lru_items l)" using assms(5) by (simp add: map_of_eq_None_iff)
  then have "k \<notin> fst ` snd ` set (lru_list l)" using assms(1)
    by (auto simp: lru_linked_def image_iff)
  moreover have "set (AList.update k (lru_fresh l) (lru_items l)) =
      insert (k, lru_fresh l) (set (lru_items l))"
    using k assms(1) by (subst set_update_gomap) (auto simp: lru_linked_def)
  moreover have "lru_fresh l \<notin> fst ` set (lru_list l)" using assms(2) by auto
  ultimately have "lru_linked (AList.update k (lru_fresh l) (lru_items l))
      ((lru_fresh l, (k, v)) # lru_list l)"
    using assms(1) by (simp add: lru_linked_def image_comp)
  then show ?thesis using assms by (auto simp: lru_inv_def lru_push_def less_Suc_eq)
qed

lemma lru_Put_inv:
  assumes "lru_inv l"
  shows "lru_inv (lru_Put k v l)"
proof (cases "map_of (lru_items l) k")
  case None
  note ev = lru_evict_cases [OF assms]
  have "\<forall>p \<in> set (lru_list (lru_evict l)). fst p < lru_fresh (lru_evict l)"
    using assms by (auto simp: ev lru_inv_def dest: in_set_butlastD)
  moreover have "int (length (lru_list (lru_evict l))) < lru_capacity (lru_evict l)"
    using assms by (auto simp: ev lru_inv_def)
  moreover have "1 \<le> lru_capacity (lru_evict l)" using assms by (simp add: ev lru_inv_def)
  ultimately have "lru_inv (lru_push k v (lru_evict l))"
    by (intro lru_push_inv ev(1) ev(5) [OF None])
  then show ?thesis using None by (simp add: lru_Put_def)
next
  case (Some e)
  obtain w where w: "(e, (k, w)) \<in> set (lru_list l)"
    and eqs: "list_Remove e (lru_list l) = filter (\<lambda>p. fst (snd p) \<noteq> k) (lru_list l)"
      "filter (\<lambda>p. fst p = e) (lru_list l) = [(e, (k, w))]"
    by (rule lru_hitE [OF assms Some])
  have "list_MoveToFront e (list_SetValue e (k, v) (lru_list l)) =
      (e, (k, v)) # filter (\<lambda>p. fst (snd p) \<noteq> k) (lru_list l)"
    by (simp add: list_MoveToFront_def list_SetValue_remove eqs)
  then show ?thesis using Some by (simp add: lru_Put_def lru_inv_move [OF assms w])
qed

lemma lru_Put_refines:
  assumes "lru_inv l"
  shows "recency (lru_Put k v l) = spec_put (lru_capacity l) k v (recency l)"
proof (cases "map_of (lru_items l) k")
  case None
  then have "map_of (recency l) k = None"
    using lru_peek_None [OF assms, of k] by (simp add: lru_peek_def)
  then have "AList.delete k (recency l) = recency l"
    by (simp add: map_of_eq_None_iff delete_id)
  with None \<open>map_of (recency l) k = None\<close> show ?thesis
    by (auto simp: lru_Put_def spec_put_def lru_push_def recency_def lru_evict_cases [OF assms]
        map_butlast)
next
  case (Some e)
  obtain w where w: "lru_peek l k = Some w"
    and eqs: "list_Remove e (lru_list l) = filter (\<lambda>p. fst (snd p) \<noteq> k) (lru_list l)"
      "filter (\<lambda>p. fst p = e) (lru_list l) = [(e, (k, w))]"
    by (rule lru_hitE [OF assms Some])
  then have "map_of (recency l) k = Some w" by (simp add: lru_peek_def)
  with Some show ?thesis
    by (simp add: lru_Put_def spec_put_def recency_def list_MoveToFront_def list_SetValue_remove
        eqs map_snd_filter_key)
qed

text \<open>One round of the invalidation loop drops one key.\<close>

lemma lru_drop_key:
  assumes "lru_inv l" "map_of (lru_items l) k = Some e"
  shows "lru_inv (l\<lparr>lru_items := AList.delete k (lru_items l), lru_list := list_Remove e (lru_list l)\<rparr>)"
    and "recency (l\<lparr>lru_items := AList.delete k (lru_items l), lru_list := list_Remove e (lru_list l)\<rparr>)
      = AList.delete k (recency l)"
proof -
  from assms(1) have l: "lru_linked (lru_items l) (lru_list l)" by (simp add: lru_inv_def)
  have eq: "list_Remove e (lru_list l) = filter (\<lambda>p. fst (snd p) \<noteq> k) (lru_list l)"
    by (rule lru_hitE [OF assms])
  have len: "int (length (filter (\<lambda>p. fst (snd p) \<noteq> k) (lru_list l))) \<le> lru_capacity l"
    using assms(1) by (auto simp: lru_inv_def intro: order_trans [rotated] length_filter_le)
  have "lru_linked (AList.delete k (lru_items l)) (filter (\<lambda>p. fst (snd p) \<noteq> k) (lru_list l))"
    using lru_linked_filter [OF l, of "\<lambda>x. x \<noteq> k"] by (simp add: delete_filter)
  with assms(1) len show "lru_inv (l\<lparr>lru_items := AList.delete k (lru_items l),
      lru_list := list_Remove e (lru_list l)\<rparr>)"
    by (auto simp: lru_inv_def eq)
  show "recency (l\<lparr>lru_items := AList.delete k (lru_items l), lru_list := list_Remove e (lru_list l)\<rparr>)
      = AList.delete k (recency l)"
    by (simp add: recency_def eq map_snd_filter_key)
qed

lemma lru_Invalidate_refines:
  assumes "lru_inv l"
  shows "lru_inv (lru_Invalidate k l)" "recency (lru_Invalidate k l) = AList.delete k (recency l)"
proof -
  have "lru_inv (lru_Invalidate k l) \<and> recency (lru_Invalidate k l) = AList.delete k (recency l)"
  proof (cases "map_of (lru_items l) k")
    case None
    with assms have "k \<notin> fst ` set (recency l)"
      using lru_peek_None [OF assms, of k] by (simp add: lru_peek_def map_of_eq_None_iff)
    with None assms show ?thesis by (simp add: lru_Invalidate_def delete_id)
  next
    case (Some e)
    with lru_drop_key [OF assms Some] show ?thesis by (simp add: lru_Invalidate_def)
  qed
  then show "lru_inv (lru_Invalidate k l)"
    "recency (lru_Invalidate k l) = AList.delete k (recency l)" by auto
qed

text \<open>
  The loop, for any duplicate-free enumeration \<open>ps\<close> of part of the map: the keys of \<open>ps\<close> that
  satisfy the predicate go, and the count is theirs.
\<close>

lemma InvalidateIf_loop_spec:
  assumes "lru_inv l" "gomap_ok ps" "set ps \<subseteq> set (lru_items l)"
  shows "lru_inv (snd (InvalidateIf_loop pred ps n l)) \<and>
    recency (snd (InvalidateIf_loop pred ps n l)) =
      spec_drop (\<lambda>k. pred k \<and> k \<in> fst ` set ps) (recency l) \<and>
    fst (InvalidateIf_loop pred ps n l) = n + int (length (filter (\<lambda>p. pred (fst p)) ps))"
  using assms
proof (induction pred ps n l rule: InvalidateIf_loop.induct)
  case (1 pred n l)
  then show ?case by (simp add: spec_drop_def)
next
  case (2 pred k e ps n l)
  let ?l = "l\<lparr>lru_items := AList.delete k (lru_items l), lru_list := list_Remove e (lru_list l)\<rparr>"
  have ke: "map_of (lru_items l) k = Some e"
    using 2 by (simp add: lru_inv_def lru_linked_def)
  show ?case
  proof (cases "pred k")
    case True
    have "set ps \<subseteq> set (lru_items ?l)" using "2.prems" by (force simp: image_iff)
    with "2.IH"(1) [OF True] "2.prems" lru_drop_key [OF "2.prems"(1) ke]
    show ?thesis using True
      by (auto simp: spec_drop_def delete_filter intro!: filter_cong)
  next
    case False
    with "2.IH"(2) [OF False] "2.prems" show ?thesis
      by (auto simp: spec_drop_def intro!: filter_cong)
  qed
qed

lemma InvalidateIf_any_order:
  assumes "lru_inv l" "gomap_ok ps" "set ps = set (lru_items l)"
  shows "lru_inv (snd (InvalidateIf_loop pred ps 0 l))"
    and "recency (snd (InvalidateIf_loop pred ps 0 l)) = spec_drop pred (recency l)"
    and "fst (InvalidateIf_loop pred ps 0 l) =
      int (length (recency l)) - int (length (spec_drop pred (recency l)))"
proof -
  note spec = InvalidateIf_loop_spec [OF assms(1,2) equalityD1 [OF assms(3)], of pred 0]
  from assms(1) have l: "lru_linked (lru_items l) (lru_list l)" by (simp add: lru_inv_def)
  show "lru_inv (snd (InvalidateIf_loop pred ps 0 l))" using spec by simp
  have keys: "fst ` set ps = fst ` set (recency l)"
    using l unfolding assms(3) by (simp add: lru_linked_def recency_def image_image)
  show "recency (snd (InvalidateIf_loop pred ps 0 l)) = spec_drop pred (recency l)"
    using spec by (auto simp: spec_drop_def keys intro!: filter_cong)
  let ?P = "\<lambda>p. pred (fst p)"
  have dist: "distinct ps" "distinct (lru_items l)"
    using assms(2) l by (auto simp: distinct_map lru_linked_def)
  have "length (filter ?P ps) = card (set (filter ?P ps))"
    using dist by (intro distinct_card [symmetric]) simp
  also have "set (filter ?P ps) = set (filter ?P (lru_items l))" by (simp add: assms(3))
  also have "card \<dots> = length (filter ?P (lru_items l))"
    using dist by (intro distinct_card) simp
  also have "\<dots> = length (filter (\<lambda>p. pred (fst (snd p))) (lru_list l))"
    by (rule lru_linked_length [OF lru_linked_filter [OF l, of pred]])
  also have "\<dots> = length (filter ?P (recency l))"
    by (simp add: recency_def filter_map comp_def)
  finally have "length (filter ?P ps) = length (filter ?P (recency l))" .
  moreover have "length (filter ?P (recency l)) + length (spec_drop pred (recency l)) =
      length (recency l)"
    unfolding spec_drop_def by (rule sum_length_filter_compl)
  ultimately show "fst (InvalidateIf_loop pred ps 0 l) =
      int (length (recency l)) - int (length (spec_drop pred (recency l)))"
    using spec by simp
qed

lemma lru_InvalidateIf_refines:
  assumes "lru_inv l"
  shows "lru_inv (snd (lru_InvalidateIf pred l))"
    and "recency (snd (lru_InvalidateIf pred l)) = spec_drop pred (recency l)"
    and "fst (lru_InvalidateIf pred l) =
      int (length (recency l)) - int (length (spec_drop pred (recency l)))"
proof -
  have "gomap_ok (lru_items l)" using assms by (simp add: lru_inv_def lru_linked_def)
  note spec = InvalidateIf_any_order [OF assms this refl, of pred, folded lru_InvalidateIf_def]
  show "lru_inv (snd (lru_InvalidateIf pred l))"
    and "recency (snd (lru_InvalidateIf pred l)) = spec_drop pred (recency l)"
    and "fst (lru_InvalidateIf pred l) =
      int (length (recency l)) - int (length (spec_drop pred (recency l)))"
    by (rule spec)+
qed

lemma NewLRU_inv [simp]: "lru_inv (NewLRU n)"
  by (simp add: lru_inv_def NewLRU_def)

lemma recency_NewLRU [simp]: "recency (NewLRU n) = []"
  by (simp add: recency_def NewLRU_def)

lemma lru_Clear_inv: "lru_inv l \<Longrightarrow> lru_inv (lru_Clear l)" "recency (lru_Clear l) = []"
  by (simp_all add: lru_inv_def lru_Clear_def recency_def)

lemma lru_Size_recency: "lru_inv l \<Longrightarrow> lru_Size l = int (length (recency l))"
  by (simp add: lru_inv_def lru_Size_def recency_def lru_linked_length)

subsection \<open>What a client of the cache relies on\<close>

text \<open>
  A read cache may forget entries at any time, but what it returns was put there and not
  invalidated since. \<open>agrees load c\<close>: every entry is what \<open>load\<close> gives for its key now.
\<close>

locale read_cache =
  fixes peek :: "'c \<Rightarrow> 'k \<Rightarrow> 'v option"
    and get :: "'k \<Rightarrow> 'c \<Rightarrow> 'v option \<times> 'c"
    and put :: "'k \<Rightarrow> 'v \<Rightarrow> 'c \<Rightarrow> 'c"
    and drop_if :: "('k \<Rightarrow> bool) \<Rightarrow> 'c \<Rightarrow> int \<times> 'c"
    and inv :: "'c \<Rightarrow> bool"
  assumes get_peek: "inv c \<Longrightarrow> fst (get k c) = peek c k"
    and get_inv: "inv c \<Longrightarrow> inv (snd (get k c))"
    and get_keeps: "inv c \<Longrightarrow> peek (snd (get k c)) k' = peek c k'"
    and put_inv: "inv c \<Longrightarrow> inv (put k v c)"
    and put_same: "inv c \<Longrightarrow> peek (put k v c) k = Some v"
    and put_other: "inv c \<Longrightarrow> k' \<noteq> k \<Longrightarrow> peek (put k v c) k' = Some w \<Longrightarrow> peek c k' = Some w"
    and drop_inv: "inv c \<Longrightarrow> inv (snd (drop_if P c))"
    and drop_peek: "inv c \<Longrightarrow> peek (snd (drop_if P c)) k = (if P k then None else peek c k)"
begin

definition agrees :: "('k \<Rightarrow> 'v option) \<Rightarrow> 'c \<Rightarrow> bool" where
  "agrees load c \<longleftrightarrow> (\<forall>k v. peek c k = Some v \<longrightarrow> load k = Some v)"

lemma agrees_get: "inv c \<Longrightarrow> agrees load c \<Longrightarrow> agrees load (snd (get k c))"
  by (simp add: agrees_def get_keeps)

lemma agrees_hit: "inv c \<Longrightarrow> agrees load c \<Longrightarrow> fst (get k c) = Some v \<Longrightarrow> load k = Some v"
  by (simp add: agrees_def get_peek)

lemma agrees_put: "inv c \<Longrightarrow> agrees load c \<Longrightarrow> load k = Some v \<Longrightarrow> agrees load (put k v c)"
  unfolding agrees_def by (metis put_other put_same option.inject)

lemma agrees_drop:
  "inv c \<Longrightarrow> agrees load c \<Longrightarrow> (\<And>k. \<not> P k \<Longrightarrow> peek c k \<noteq> None \<Longrightarrow> load' k = load k) \<Longrightarrow>
   agrees load' (snd (drop_if P c))"
  by (auto simp: agrees_def drop_peek split: if_splits)

lemma agrees_change:
  "agrees load c \<Longrightarrow> (\<And>k. peek c k \<noteq> None \<Longrightarrow> load' k = load k) \<Longrightarrow> agrees load' c"
  by (auto simp: agrees_def)

text \<open>The same while the entries that satisfy \<open>Q\<close> may be stale; dropping them restores agreement.\<close>

definition agrees_but :: "('k \<Rightarrow> bool) \<Rightarrow> ('k \<Rightarrow> 'v option) \<Rightarrow> 'c \<Rightarrow> bool" where
  "agrees_but Q load c \<longleftrightarrow> (\<forall>k v. peek c k = Some v \<longrightarrow> Q k \<or> load k = Some v)"

lemma agrees_but_False: "agrees_but (\<lambda>_. False) load c \<longleftrightarrow> agrees load c"
  by (simp add: agrees_but_def agrees_def)

lemma agrees_but_drop:
  "inv c \<Longrightarrow> agrees_but (\<lambda>k. P k \<or> Q k) load c \<Longrightarrow> agrees_but Q load (snd (drop_if P c))"
  by (auto simp: agrees_but_def drop_peek)

end

lemma map_of_filter_key:
  "map_of (filter (\<lambda>p. \<not> P (fst p)) xs) k = (if P k then None else map_of xs k)"
  by (induction xs) auto

lemma peek_spec_get: "map_of (snd (spec_get k xs)) k' = map_of xs k'"
  by (auto simp: spec_get_def split: option.splits)

lemma map_of_butlast_Some:
  "distinct (map fst xs) \<Longrightarrow> map_of (butlast xs) k = Some w \<Longrightarrow> map_of xs k = Some w"
  by (metis append_butlast_last_id butlast.simps(1) map_add_Some_iff map_of_append map_of_SomeD
      map_of_eq_Some_iff in_set_butlastD)

interpretation lru: read_cache lru_peek lru_Get lru_Put lru_InvalidateIf lru_inv
proof unfold_locales
  fix c :: "('k, 'v) lru" and k k' v w and P :: "'k \<Rightarrow> bool"
  assume inv: "lru_inv c"
  show "fst (lru_Get k c) = lru_peek c k"
    by (simp add: lru_Get_refines [OF inv] lru_peek_def spec_get_def split: option.splits)
  show "lru_inv (snd (lru_Get k c))" by (rule lru_Get_inv [OF inv])
  show "lru_peek (snd (lru_Get k c)) k' = lru_peek c k'"
    by (simp add: lru_Get_refines [OF inv] lru_peek_def peek_spec_get)
  show "lru_inv (lru_Put k v c)" by (rule lru_Put_inv [OF inv])
  show "lru_peek (lru_Put k v c) k = Some v"
    by (simp add: lru_peek_def lru_Put_refines [OF inv] spec_put_def)
  show "lru_inv (snd (lru_InvalidateIf P c))" by (rule lru_InvalidateIf_refines [OF inv])
  show "lru_peek (snd (lru_InvalidateIf P c)) k = (if P k then None else lru_peek c k)"
    by (simp add: lru_peek_def lru_InvalidateIf_refines [OF inv] spec_drop_def map_of_filter_key)
  assume "k' \<noteq> k" "lru_peek (lru_Put k v c) k' = Some w"
  then show "lru_peek c k' = Some w"
    using map_of_butlast_Some [OF recency_distinct [OF inv], of k' w]
    by (auto simp: lru_peek_def lru_Put_refines [OF inv] spec_put_def split: if_splits)
qed

subsection \<open>Runs of the cache\<close>

text \<open>
  The exported operations as events, their observable results, and the same events on the plain
  recency list.
\<close>

datatype ('k, 'v) lru_op =
  Op_Get 'k
| Op_Put 'k 'v
| Op_Invalidate 'k
| Op_InvalidateIf "'k \<Rightarrow> bool"
| Op_Clear
| Op_Size

datatype 'v lru_result = Res_Value "'v option" | Res_Count int | Res_None

fun lru_step :: "('k, 'v) lru_op \<Rightarrow> ('k, 'v) lru \<Rightarrow> 'v lru_result \<times> ('k, 'v) lru" where
  "lru_step (Op_Get k) l = (Res_Value (fst (lru_Get k l)), snd (lru_Get k l))"
| "lru_step (Op_Put k v) l = (Res_None, lru_Put k v l)"
| "lru_step (Op_Invalidate k) l = (Res_None, lru_Invalidate k l)"
| "lru_step (Op_InvalidateIf P) l =
     (Res_Count (fst (lru_InvalidateIf P l)), snd (lru_InvalidateIf P l))"
| "lru_step Op_Clear l = (Res_None, lru_Clear l)"
| "lru_step Op_Size l = (Res_Count (lru_Size l), l)"

fun spec_step :: "int \<Rightarrow> ('k, 'v) lru_op \<Rightarrow> ('k \<times> 'v) list \<Rightarrow> 'v lru_result \<times> ('k \<times> 'v) list" where
  "spec_step cap (Op_Get k) xs = (Res_Value (map_of xs k), snd (spec_get k xs))"
| "spec_step cap (Op_Put k v) xs = (Res_None, spec_put cap k v xs)"
| "spec_step cap (Op_Invalidate k) xs = (Res_None, AList.delete k xs)"
| "spec_step cap (Op_InvalidateIf P) xs =
     (Res_Count (int (length xs) - int (length (spec_drop P xs))), spec_drop P xs)"
| "spec_step cap Op_Clear xs = (Res_None, [])"
| "spec_step cap Op_Size xs = (Res_Count (int (length xs)), xs)"

fun run_ops :: "('op \<Rightarrow> 's \<Rightarrow> 'r \<times> 's) \<Rightarrow> 'op list \<Rightarrow> 's \<Rightarrow> 'r list \<times> 's" where
  "run_ops step [] s = ([], s)"
| "run_ops step (op # ops) s =
     (case step op s of (r, s') \<Rightarrow> (case run_ops step ops s' of (rs, s'') \<Rightarrow> (r # rs, s'')))"

lemma lru_capacity_Get: "lru_capacity (snd (lru_Get k l)) = lru_capacity l"
  by (simp add: lru_Get_def split: option.split)

lemma lru_capacity_Put: "lru_capacity (lru_Put k v l) = lru_capacity l"
  by (simp add: lru_Put_def lru_push_def lru_evict_def split: option.split)

lemma lru_capacity_Invalidate: "lru_capacity (lru_Invalidate k l) = lru_capacity l"
  by (simp add: lru_Invalidate_def split: option.split)

lemma lru_capacity_loop: "lru_capacity (snd (InvalidateIf_loop P ps n l)) = lru_capacity l"
  by (induction P ps n l rule: InvalidateIf_loop.induct) simp_all

lemma lru_capacity_InvalidateIf: "lru_capacity (snd (lru_InvalidateIf P l)) = lru_capacity l"
  by (simp add: lru_InvalidateIf_def lru_capacity_loop)

lemma fst_spec_get: "fst (spec_get k xs) = map_of xs k"
  by (simp add: spec_get_def split: option.split)

lemma lru_step_refines:
  assumes "lru_inv l"
  shows "lru_inv (snd (lru_step op l))"
    and "lru_capacity (snd (lru_step op l)) = lru_capacity l"
    and "spec_step (lru_capacity l) op (recency l) =
      (fst (lru_step op l), recency (snd (lru_step op l)))"
proof -
  show "lru_inv (snd (lru_step op l))"
    using assms by (cases op) (simp_all add: lru_Get_inv lru_Put_inv lru_Invalidate_refines
        lru_InvalidateIf_refines lru_Clear_inv)
  show "lru_capacity (snd (lru_step op l)) = lru_capacity l"
    by (cases op) (simp_all add: lru_capacity_Get lru_capacity_Put lru_capacity_Invalidate
        lru_capacity_InvalidateIf lru_Clear_def)
  show "spec_step (lru_capacity l) op (recency l) =
      (fst (lru_step op l), recency (snd (lru_step op l)))"
    using assms by (cases op) (simp_all add: lru_Get_refines lru_Put_refines
        lru_Invalidate_refines lru_InvalidateIf_refines lru_Clear_inv lru_Size_recency fst_spec_get)
qed

lemma lru_run_refines:
  assumes "lru_inv l"
  shows "lru_inv (snd (run_ops lru_step ops l)) \<and>
    lru_capacity (snd (run_ops lru_step ops l)) = lru_capacity l \<and>
    run_ops (spec_step (lru_capacity l)) ops (recency l) =
      (fst (run_ops lru_step ops l), recency (snd (run_ops lru_step ops l)))"
  using assms
proof (induction ops arbitrary: l)
  case Nil
  then show ?case by simp
next
  case (Cons op ops)
  note st = lru_step_refines [OF Cons.prems, of op]
  obtain r l' where step: "lru_step op l = (r, l')" by (cases "lru_step op l")
  obtain rs l'' where rest: "run_ops lru_step ops l' = (rs, l'')" by (cases "run_ops lru_step ops l'")
  from Cons.IH [of l'] st show ?case by (simp add: step rest)
qed

text \<open>The value that the last operation on a key left behind.\<close>

fun last_write :: "'k \<Rightarrow> ('k, 'v) lru_op list \<Rightarrow> 'v option \<Rightarrow> 'v option" where
  "last_write k [] w = w"
| "last_write k (Op_Put k' v # ops) w = last_write k ops (if k' = k then Some v else w)"
| "last_write k (Op_Invalidate k' # ops) w = last_write k ops (if k' = k then None else w)"
| "last_write k (Op_InvalidateIf P # ops) w = last_write k ops (if P k then None else w)"
| "last_write k (Op_Clear # ops) w = last_write k ops None"
| "last_write k (Op_Get k' # ops) w = last_write k ops w"
| "last_write k (Op_Size # ops) w = last_write k ops w"

lemma lru_peek_step:
  assumes inv: "lru_inv l" and pk: "lru_peek (snd (lru_step op l)) k = Some v"
  shows "last_write k [op] (lru_peek l k) = Some v"
proof (cases op)
  case (Op_Put k' v')
  with pk show ?thesis
    using lru.put_other [OF inv, of k k' v' v] lru.put_same [OF inv, of k v'] by auto
next
  case (Op_Invalidate k')
  with pk inv show ?thesis by (auto simp: lru_peek_def lru_Invalidate_refines split: if_splits)
qed (use pk inv in \<open>auto simp: lru.get_keeps lru.drop_peek lru_peek_def [of "lru_Clear l"] lru_Clear_inv
    split: if_splits\<close>)

lemma lru_peek_run:
  assumes "lru_inv l" "\<And>v. lru_peek l k = Some v \<Longrightarrow> w = Some v"
    and "lru_peek (snd (run_ops lru_step ops l)) k = Some v"
  shows "last_write k ops w = Some v"
  using assms
proof (induction ops arbitrary: l w)
  case Nil
  then show ?case by simp
next
  case (Cons op ops)
  let ?l = "snd (lru_step op l)"
  have inv: "lru_inv ?l" by (rule lru_step_refines [OF Cons.prems(1)])
  have run: "lru_peek (snd (run_ops lru_step ops ?l)) k = Some v"
    using Cons.prems(3)
    by (cases "lru_step op l"; cases "run_ops lru_step ops ?l") auto
  let ?w = "last_write k [op] w"
  have "?w = Some v'" if "lru_peek ?l k = Some v'" for v'
    using lru_peek_step [OF Cons.prems(1) that] Cons.prems(2) by (cases op) (auto split: if_splits)
  from Cons.IH [OF inv this run] show ?case by (cases op) simp_all
qed

subsection \<open>Properties\<close>

text \<open>
  C26: Whatever sequence of operations a client runs on a fresh cache, the results are those of a
  plain list ordered by recency of use, which is bounded by the capacity (at least one) and evicts
  its last element; the element map and the linked list stay in step.
\<close>

theorem lru_refines_recency:
  assumes "run_ops lru_step ops (NewLRU n) = (rs, l)"
  shows "run_ops (spec_step (max 1 n)) ops [] = (rs, recency l) \<and> lru_inv l \<and>
    lru_Size l = int (length (recency l)) \<and> lru_Size l \<le> max 1 n"
proof -
  have cap: "lru_capacity (NewLRU n) = max 1 n" by (simp add: NewLRU_def)
  have "lru_inv l" "lru_capacity l = max 1 n"
    "run_ops (spec_step (max 1 n)) ops [] = (rs, recency l)"
    using lru_run_refines [OF NewLRU_inv, of ops n] assms by (simp_all add: cap)
  moreover from this have "lru_Size l \<le> max 1 n"
    by (simp add: lru_Size_recency) (simp add: lru_inv_def recency_def)
  ultimately show ?thesis by (simp add: lru_Size_recency)
qed

definition example_ops :: "(nat, nat) lru_op list" where
  "example_ops = [Op_Put 1 10, Op_Put 2 20, Op_Get 1, Op_Get 2, Op_Size]"

theorem lru_refines_recency_witness:
  "fst (run_ops lru_step example_ops (NewLRU 0)) =
     [Res_None, Res_None, Res_Value None, Res_Value (Some 20), Res_Count 1] \<and>
   recency (snd (run_ops lru_step example_ops (NewLRU 0))) = [(2, 20)]"
proof -
  have "run_ops (spec_step (max 1 0)) example_ops [] =
      ([Res_None, Res_None, Res_Value None, Res_Value (Some 20), Res_Count 1], [(2, 20)])"
    by (simp add: example_ops_def spec_put_def spec_get_def)
  with lru_refines_recency [of example_ops 0 "fst (run_ops lru_step example_ops (NewLRU 0))"
      "snd (run_ops lru_step example_ops (NewLRU 0))"]
  show ?thesis by simp
qed

text \<open>
  C27: A cache never returns a stale value: what it holds under a key is the value of the last
  \<^verbatim>\<open>Put\<close> of that key, with no later invalidation or \<^verbatim>\<open>Clear\<close> that covers it.
\<close>

theorem lru_never_stale:
  assumes "fst (lru_Get k (snd (run_ops lru_step ops (NewLRU n)))) = Some v"
  shows "last_write k ops None = Some v"
proof -
  let ?l = "snd (run_ops lru_step ops (NewLRU n))"
  have inv: "lru_inv ?l" using lru_run_refines [OF NewLRU_inv] by blast
  have "lru_peek ?l k = Some v" using assms by (simp add: lru.get_peek [OF inv])
  then show ?thesis by (rule lru_peek_run [OF NewLRU_inv, rotated]) (simp add: lru_peek_def)
qed

theorem lru_never_stale_witness:
  "last_write (1::nat) [Op_Put 1 (10::nat), Op_Put 2 20, Op_Put 1 11] None = Some 11"
  by (rule lru_never_stale [where n = 2])
    (simp add: NewLRU_def lru_Get_def lru_Put_def lru_evict_def lru_push_def list_MoveToFront_def
      list_SetValue_def list_Remove_def)

text \<open>
  C28: \<^verbatim>\<open>InvalidateIf\<close> ranges over a Go map, whose order is unspecified, and deletes while it
  ranges: in every order it drops the same entries, keeps the recency order of the others and
  returns the number of dropped entries.
\<close>

theorem InvalidateIf_order_irrelevant:
  assumes "lru_inv l" "gomap_ok ps" "set ps = set (lru_items l)"
  shows "recency (snd (InvalidateIf_loop pred ps 0 l)) = recency (snd (lru_InvalidateIf pred l)) \<and>
    fst (InvalidateIf_loop pred ps 0 l) = fst (lru_InvalidateIf pred l) \<and>
    recency (snd (lru_InvalidateIf pred l)) = filter (\<lambda>p. \<not> pred (fst p)) (recency l)"
  using InvalidateIf_any_order [OF assms] lru_InvalidateIf_refines [OF assms(1)]
  by (simp add: spec_drop_def)

definition two_entries :: "(nat, nat) lru" where
  "two_entries = lru_Put 2 20 (lru_Put 1 10 (NewLRU 5))"

theorem InvalidateIf_order_irrelevant_witness:
  "recency (snd (InvalidateIf_loop (\<lambda>k. k = 1) (rev (lru_items two_entries)) 0 two_entries)) =
     [(2, 20)]"
proof -
  have "lru_inv two_entries" by (simp add: two_entries_def lru_Put_inv)
  moreover have "gomap_ok (rev (lru_items two_entries))" "recency two_entries = [(2, 20), (1, 10)]"
    by (simp_all add: two_entries_def NewLRU_def lru_Put_def lru_evict_def lru_push_def recency_def)
  ultimately show ?thesis
    using InvalidateIf_order_irrelevant [of two_entries "rev (lru_items two_entries)" "\<lambda>k. k = 1"]
    by simp
qed

end
