(* ===== verification/Lock_Manager.thy ===== *)
theory Lock_Manager
  imports Ice_Prelude
begin

text \<open>
  \<^verbatim>\<open>internal/lock/lock_manager.go\<close>: one read-write mutex per table name, created on first
  use and never removed. The Go map holds pointers, so the model has a heap of mutexes and the map
  holds addresses; the closures that \<^verbatim>\<open>LockShared\<close> and \<^verbatim>\<open>LockExclusive\<close> return are
  represented by the address they release. A call that would block returns \<open>None\<close>. The locale
  \<open>table_locks\<close> is the contract the catalog relies on: locks are per table and independent.
\<close>

subsection \<open>sync.RWMutex\<close>

record rwmutex =
  rw_writer :: bool
  rw_readers :: nat

definition rw_free :: rwmutex where
  "rw_free = \<lparr>rw_writer = False, rw_readers = 0\<rparr>"

definition rw_Lock :: "rwmutex \<Rightarrow> rwmutex option" where
  "rw_Lock m = (if rw_writer m \<or> 0 < rw_readers m then None else Some (m\<lparr>rw_writer := True\<rparr>))"

definition rw_RLock :: "rwmutex \<Rightarrow> rwmutex option" where
  "rw_RLock m = (if rw_writer m then None else Some (m\<lparr>rw_readers := Suc (rw_readers m)\<rparr>))"

text \<open>Releasing a mutex that is not held is a fatal error in Go.\<close>

definition rw_Unlock :: "rwmutex \<Rightarrow> rwmutex option" where
  "rw_Unlock m = (if rw_writer m then Some (m\<lparr>rw_writer := False\<rparr>) else None)"

definition rw_RUnlock :: "rwmutex \<Rightarrow> rwmutex option" where
  "rw_RUnlock m = (if rw_readers m = 0 then None else Some (m\<lparr>rw_readers := rw_readers m - 1\<rparr>))"

subsection \<open>The manager\<close>

record lock_manager =
  lm_locks :: "(string, nat) gomap"
  lm_heap :: "nat \<Rightarrow> rwmutex"
  lm_fresh :: nat

definition NewManager :: lock_manager where
  "NewManager = \<lparr>lm_locks = [], lm_heap = (\<lambda>_. rw_free), lm_fresh = 0\<rparr>"

definition getOrCreate :: "string \<Rightarrow> lock_manager \<Rightarrow> nat \<times> lock_manager" where
  "getOrCreate table m =
     (case map_of (lm_locks m) table of
        Some l \<Rightarrow> (l, m)
      | None \<Rightarrow>
          (let l = lm_fresh m in
           (l, m\<lparr>lm_locks := AList.update table l (lm_locks m),
                 lm_heap := (lm_heap m)(l := rw_free), lm_fresh := Suc l\<rparr>)))"

definition LockShared :: "string \<Rightarrow> lock_manager \<Rightarrow> (nat \<times> lock_manager) option" where
  "LockShared table m =
     (case getOrCreate table m of
        (l, m') \<Rightarrow>
          (case rw_RLock (lm_heap m' l) of
             None \<Rightarrow> None
           | Some rw \<Rightarrow> Some (l, m'\<lparr>lm_heap := (lm_heap m')(l := rw)\<rparr>)))"

definition LockExclusive :: "string \<Rightarrow> lock_manager \<Rightarrow> (nat \<times> lock_manager) option" where
  "LockExclusive table m =
     (case getOrCreate table m of
        (l, m') \<Rightarrow>
          (case rw_Lock (lm_heap m' l) of
             None \<Rightarrow> None
           | Some rw \<Rightarrow> Some (l, m'\<lparr>lm_heap := (lm_heap m')(l := rw)\<rparr>)))"

text \<open>The returned closures: \<^verbatim>\<open>l.RUnlock\<close> and \<^verbatim>\<open>l.Unlock\<close>.\<close>

definition unlock_shared :: "nat \<Rightarrow> lock_manager \<Rightarrow> lock_manager option" where
  "unlock_shared l m =
     map_option (\<lambda>rw. m\<lparr>lm_heap := (lm_heap m)(l := rw)\<rparr>) (rw_RUnlock (lm_heap m l))"

definition unlock_exclusive :: "nat \<Rightarrow> lock_manager \<Rightarrow> lock_manager option" where
  "unlock_exclusive l m =
     map_option (\<lambda>rw. m\<lparr>lm_heap := (lm_heap m)(l := rw)\<rparr>) (rw_Unlock (lm_heap m l))"

subsection \<open>Invariant and abstraction\<close>

text \<open>Different tables have different mutexes.\<close>

definition lm_inv :: "lock_manager \<Rightarrow> bool" where
  "lm_inv m \<longleftrightarrow>
     gomap_ok (lm_locks m) \<and> distinct (map snd (lm_locks m)) \<and>
     (\<forall>p \<in> set (lm_locks m). snd p < lm_fresh m)"

definition lm_state :: "lock_manager \<Rightarrow> string \<Rightarrow> rwmutex" where
  "lm_state m table =
     (case map_of (lm_locks m) table of None \<Rightarrow> rw_free | Some l \<Rightarrow> lm_heap m l)"

definition lm_addr :: "lock_manager \<Rightarrow> string \<Rightarrow> nat \<Rightarrow> bool" where
  "lm_addr m table l \<longleftrightarrow> map_of (lm_locks m) table = Some l"

lemma NewManager_inv [simp]: "lm_inv NewManager"
  by (simp add: lm_inv_def NewManager_def)

lemma NewManager_state [simp]: "lm_state NewManager t = rw_free"
  by (simp add: lm_state_def NewManager_def)

lemma lm_addr_inj: "lm_inv m \<Longrightarrow> lm_addr m t l \<Longrightarrow> lm_addr m t' l \<Longrightarrow> t' = t"
  unfolding lm_inv_def lm_addr_def
  by (metis (no_types, lifting) distinct_map fst_conv inj_on_eq_iff map_of_SomeD snd_conv)

lemma lm_state_addr: "lm_addr m t l \<Longrightarrow> lm_state m t = lm_heap m l"
  by (simp add: lm_addr_def lm_state_def)

lemma getOrCreate_spec:
  assumes "lm_inv m" "getOrCreate t m = (l, m')"
  shows "lm_inv m'" "lm_addr m' t l" "lm_state m' = lm_state m"
    and "\<And>t' l'. lm_addr m t' l' \<Longrightarrow> lm_addr m' t' l'"
proof -
  have "lm_inv m' \<and> lm_addr m' t l \<and> lm_state m' = lm_state m \<and>
      (\<forall>t' l'. lm_addr m t' l' \<longrightarrow> lm_addr m' t' l')"
  proof (cases "map_of (lm_locks m) t")
    case (Some a)
    with assms show ?thesis by (auto simp: getOrCreate_def lm_addr_def)
  next
    case None
    with assms(2) have m': "m' = m\<lparr>lm_locks := lm_locks m @ [(t, l)],
        lm_heap := (lm_heap m)(l := rw_free), lm_fresh := Suc l\<rparr>" and l: "l = lm_fresh m"
      by (auto simp: getOrCreate_def Let_def update_new)
    have "t \<notin> fst ` set (lm_locks m)" using None by (simp add: map_of_eq_None_iff)
    moreover have "l \<notin> snd ` set (lm_locks m)" using assms(1) l by (auto simp: lm_inv_def)
    ultimately have "lm_inv m'" using assms(1) l by (auto simp: m' lm_inv_def less_Suc_eq)
    moreover have get: "map_of (lm_locks m') t' = (if t' = t then Some l else map_of (lm_locks m) t')"
      for t' using None by (auto simp: m' map_add_def split: option.split)
    moreover have "a \<noteq> l" if "map_of (lm_locks m) t' = Some a" for t' a
      using assms(1) l map_of_SomeD [OF that] by (force simp: lm_inv_def)
    then have "lm_state m' t' = lm_state m t'" for t'
      using None unfolding lm_state_def get by (auto simp: m' split: option.split)
    moreover have "lm_addr m' t l" "lm_addr m t' l' \<Longrightarrow> lm_addr m' t' l'" for t' l'
      using None by (auto simp: lm_addr_def get)
    ultimately show ?thesis by blast
  qed
  then show "lm_inv m'" "lm_addr m' t l" "lm_state m' = lm_state m"
    and "\<And>t' l'. lm_addr m t' l' \<Longrightarrow> lm_addr m' t' l'" by blast+
qed

lemma set_mutex_state:
  assumes "lm_inv m" "lm_addr m t l"
  shows "lm_state (m\<lparr>lm_heap := (lm_heap m)(l := rw)\<rparr>) = (lm_state m)(t := rw)"
    and "lm_inv (m\<lparr>lm_heap := (lm_heap m)(l := rw)\<rparr>)"
    and "lm_addr (m\<lparr>lm_heap := (lm_heap m)(l := rw)\<rparr>) = lm_addr m"
proof -
  show "lm_state (m\<lparr>lm_heap := (lm_heap m)(l := rw)\<rparr>) = (lm_state m)(t := rw)"
  proof
    fix t'
    show "lm_state (m\<lparr>lm_heap := (lm_heap m)(l := rw)\<rparr>) t' = ((lm_state m)(t := rw)) t'"
    proof (cases "t' = t")
      case True
      with assms(2) show ?thesis by (simp add: lm_state_def lm_addr_def)
    next
      case False
      then have "map_of (lm_locks m) t' \<noteq> Some l"
        using lm_addr_inj [OF assms, of t'] by (auto simp: lm_addr_def)
      with False show ?thesis by (auto simp: lm_state_def split: option.split)
    qed
  qed
  show "lm_inv (m\<lparr>lm_heap := (lm_heap m)(l := rw)\<rparr>)" using assms by (simp add: lm_inv_def)
  show "lm_addr (m\<lparr>lm_heap := (lm_heap m)(l := rw)\<rparr>) = lm_addr m"
    by (simp add: lm_addr_def fun_eq_iff)
qed

text \<open>A lock call changes the mutex of its table and no other.\<close>

lemma LockExclusive_iff:
  assumes "lm_inv m"
  shows "LockExclusive t m = None \<longleftrightarrow> rw_Lock (lm_state m t) = None"
    and "LockExclusive t m = Some (l, m') \<Longrightarrow>
      lm_inv m' \<and> lm_addr m' t l \<and>
      rw_Lock (lm_state m t) = Some (lm_state m' t) \<and>
      lm_state m' = (lm_state m)(t := lm_state m' t) \<and>
      (\<forall>t' l'. lm_addr m t' l' \<longrightarrow> lm_addr m' t' l')"
proof -
  obtain a m1 where g: "getOrCreate t m = (a, m1)" by (cases "getOrCreate t m")
  note sp = getOrCreate_spec [OF assms g]
  have st: "lm_heap m1 a = lm_state m t" using lm_state_addr [OF sp(2)] sp(3) by simp
  show "LockExclusive t m = None \<longleftrightarrow> rw_Lock (lm_state m t) = None"
    by (simp add: LockExclusive_def g st split: option.split)
  assume "LockExclusive t m = Some (l, m')"
  then obtain rw where l: "l = a" and rw: "rw_Lock (lm_state m t) = Some rw"
    and m': "m' = m1\<lparr>lm_heap := (lm_heap m1)(a := rw)\<rparr>"
    by (auto simp: LockExclusive_def g st split: option.splits)
  show "lm_inv m' \<and> lm_addr m' t l \<and>
      rw_Lock (lm_state m t) = Some (lm_state m' t) \<and>
      lm_state m' = (lm_state m)(t := lm_state m' t) \<and>
      (\<forall>t' l'. lm_addr m t' l' \<longrightarrow> lm_addr m' t' l')"
    using sp(2,4) by (simp add: l m' rw set_mutex_state [OF sp(1,2)] sp(3))
qed

lemma LockShared_iff:
  assumes "lm_inv m"
  shows "LockShared t m = None \<longleftrightarrow> rw_RLock (lm_state m t) = None"
    and "LockShared t m = Some (l, m') \<Longrightarrow>
      lm_inv m' \<and> lm_addr m' t l \<and>
      rw_RLock (lm_state m t) = Some (lm_state m' t) \<and>
      lm_state m' = (lm_state m)(t := lm_state m' t) \<and>
      (\<forall>t' l'. lm_addr m t' l' \<longrightarrow> lm_addr m' t' l')"
proof -
  obtain a m1 where g: "getOrCreate t m = (a, m1)" by (cases "getOrCreate t m")
  note sp = getOrCreate_spec [OF assms g]
  have st: "lm_heap m1 a = lm_state m t" using lm_state_addr [OF sp(2)] sp(3) by simp
  show "LockShared t m = None \<longleftrightarrow> rw_RLock (lm_state m t) = None"
    by (simp add: LockShared_def g st split: option.split)
  assume "LockShared t m = Some (l, m')"
  then obtain rw where l: "l = a" and rw: "rw_RLock (lm_state m t) = Some rw"
    and m': "m' = m1\<lparr>lm_heap := (lm_heap m1)(a := rw)\<rparr>"
    by (auto simp: LockShared_def g st split: option.splits)
  show "lm_inv m' \<and> lm_addr m' t l \<and>
      rw_RLock (lm_state m t) = Some (lm_state m' t) \<and>
      lm_state m' = (lm_state m)(t := lm_state m' t) \<and>
      (\<forall>t' l'. lm_addr m t' l' \<longrightarrow> lm_addr m' t' l')"
    using sp(2,4) by (simp add: l m' rw set_mutex_state [OF sp(1,2)] sp(3))
qed

lemma unlock_exclusive_spec:
  assumes "lm_inv m" "lm_addr m t l"
  shows "unlock_exclusive l m = None \<longleftrightarrow> rw_Unlock (lm_state m t) = None"
    and "unlock_exclusive l m = Some m' \<Longrightarrow>
      lm_inv m' \<and> lm_addr m' = lm_addr m \<and> rw_Unlock (lm_state m t) = Some (lm_state m' t) \<and>
      lm_state m' = (lm_state m)(t := lm_state m' t)"
proof -
  note st = lm_state_addr [OF assms(2)]
  show "unlock_exclusive l m = None \<longleftrightarrow> rw_Unlock (lm_state m t) = None"
    by (simp add: unlock_exclusive_def st)
  assume "unlock_exclusive l m = Some m'"
  then obtain rw where rw: "rw_Unlock (lm_state m t) = Some rw"
    and m': "m' = m\<lparr>lm_heap := (lm_heap m)(l := rw)\<rparr>"
    by (auto simp: unlock_exclusive_def st)
  show "lm_inv m' \<and> lm_addr m' = lm_addr m \<and> rw_Unlock (lm_state m t) = Some (lm_state m' t) \<and>
      lm_state m' = (lm_state m)(t := lm_state m' t)"
    by (simp add: m' rw set_mutex_state [OF assms])
qed

lemma unlock_shared_spec:
  assumes "lm_inv m" "lm_addr m t l"
  shows "unlock_shared l m = None \<longleftrightarrow> rw_RUnlock (lm_state m t) = None"
    and "unlock_shared l m = Some m' \<Longrightarrow>
      lm_inv m' \<and> lm_addr m' = lm_addr m \<and> rw_RUnlock (lm_state m t) = Some (lm_state m' t) \<and>
      lm_state m' = (lm_state m)(t := lm_state m' t)"
proof -
  note st = lm_state_addr [OF assms(2)]
  show "unlock_shared l m = None \<longleftrightarrow> rw_RUnlock (lm_state m t) = None"
    by (simp add: unlock_shared_def st)
  assume "unlock_shared l m = Some m'"
  then obtain rw where rw: "rw_RUnlock (lm_state m t) = Some rw"
    and m': "m' = m\<lparr>lm_heap := (lm_heap m)(l := rw)\<rparr>"
    by (auto simp: unlock_shared_def st)
  show "lm_inv m' \<and> lm_addr m' = lm_addr m \<and> rw_RUnlock (lm_state m t) = Some (lm_state m' t) \<and>
      lm_state m' = (lm_state m)(t := lm_state m' t)"
    by (simp add: m' rw set_mutex_state [OF assms])
qed

subsection \<open>The contract of per-table locks\<close>

definition rw_take :: "bool \<Rightarrow> rwmutex \<Rightarrow> rwmutex option" where
  "rw_take x m = (if x then rw_Lock m else rw_RLock m)"

definition rw_give :: "bool \<Rightarrow> rwmutex \<Rightarrow> rwmutex option" where
  "rw_give x m = (if x then rw_Unlock m else rw_RUnlock m)"

definition lm_acquire :: "bool \<Rightarrow> string \<Rightarrow> lock_manager \<Rightarrow> (nat \<times> lock_manager) option" where
  "lm_acquire x t m = (if x then LockExclusive t m else LockShared t m)"

definition lm_release :: "bool \<Rightarrow> nat \<Rightarrow> lock_manager \<Rightarrow> lock_manager option" where
  "lm_release x l m = (if x then unlock_exclusive l m else unlock_shared l m)"

lemma rw_take_give:
  "rw_take x m = Some m' \<Longrightarrow> rw_writer m' \<longrightarrow> rw_readers m' = 0 \<Longrightarrow> rw_give x m' = Some m"
  by (cases x) (auto simp: rw_take_def rw_give_def rw_Lock_def rw_RLock_def rw_Unlock_def
      rw_RUnlock_def split: if_splits)

lemma rw_take_writer: "rw_take True m = Some m' \<Longrightarrow> rw_take y m' = None"
  by (auto simp: rw_take_def rw_Lock_def rw_RLock_def split: if_splits)

lemma rw_take_reader:
  "rw_take False m = Some m' \<Longrightarrow> rw_take True m' = None \<and> rw_take False m' \<noteq> None"
  by (auto simp: rw_take_def rw_Lock_def rw_RLock_def split: if_splits)

lemma rw_take_free [simp]: "rw_take x rw_free \<noteq> None"
  by (simp add: rw_take_def rw_free_def rw_Lock_def rw_RLock_def)

definition rw_ok :: "rwmutex \<Rightarrow> bool" where
  "rw_ok m \<longleftrightarrow> (rw_writer m \<longrightarrow> rw_readers m = 0)"

lemma rw_ok_take: "rw_ok m \<Longrightarrow> rw_take x m = Some m' \<Longrightarrow> rw_ok m'"
  by (auto simp: rw_ok_def rw_take_def rw_Lock_def rw_RLock_def split: if_splits)

lemma rw_ok_free [simp]: "rw_ok rw_free"
  by (simp add: rw_ok_def rw_free_def)

locale table_locks =
  fixes acquire :: "bool \<Rightarrow> 't \<Rightarrow> 's \<Rightarrow> ('h \<times> 's) option"
    and release :: "bool \<Rightarrow> 'h \<Rightarrow> 's \<Rightarrow> 's option"
    and inv :: "'s \<Rightarrow> bool"
    and handle :: "'s \<Rightarrow> 't \<Rightarrow> 'h \<Rightarrow> bool"
    and state :: "'s \<Rightarrow> 't \<Rightarrow> rwmutex"
  assumes acquire_None: "inv s \<Longrightarrow> acquire x t s = None \<longleftrightarrow> rw_take x (state s t) = None"
    and acquire_Some: "inv s \<Longrightarrow> acquire x t s = Some (h, s') \<Longrightarrow>
      inv s' \<and> handle s' t h \<and> rw_take x (state s t) = Some (state s' t) \<and>
      state s' = (state s)(t := state s' t)"
    and acquire_keeps: "inv s \<Longrightarrow> acquire x t s = Some (h, s') \<Longrightarrow> handle s t' h' \<Longrightarrow> handle s' t' h'"
    and release_None: "inv s \<Longrightarrow> handle s t h \<Longrightarrow> release x h s = None \<longleftrightarrow> rw_give x (state s t) = None"
    and release_Some: "inv s \<Longrightarrow> handle s t h \<Longrightarrow> release x h s = Some s' \<Longrightarrow>
      inv s' \<and> handle s' = handle s \<and> rw_give x (state s t) = Some (state s' t) \<and>
      state s' = (state s)(t := state s' t)"
begin

lemma acquire_free: "inv s \<Longrightarrow> state s t = rw_free \<Longrightarrow> \<exists>h s'. acquire x t s = Some (h, s')"
  using acquire_None [of s x t] by (cases "acquire x t s") auto

lemma exclusive_excludes: "inv s \<Longrightarrow> acquire True t s = Some (h, s') \<Longrightarrow> acquire y t s' = None"
  using acquire_Some [of s True t h s'] acquire_None [of s' y t] rw_take_writer by metis

lemma shared_excludes_writer:
  "inv s \<Longrightarrow> acquire False t s = Some (h, s') \<Longrightarrow>
   acquire True t s' = None \<and> acquire False t s' \<noteq> None"
  using acquire_Some [of s False t h s'] acquire_None [of s'] rw_take_reader by metis

lemma other_table:
  "inv s \<Longrightarrow> acquire x t s = Some (h, s') \<Longrightarrow> t' \<noteq> t \<Longrightarrow>
   acquire y t' s' = None \<longleftrightarrow> acquire y t' s = None"
  using acquire_Some [of s x t h s'] acquire_None [of s y t'] acquire_None [of s' y t']
  by (metis fun_upd_other)

text \<open>Acquire, then release after a body that leaves the locks as it found them.\<close>

lemma session:
  assumes "inv s" "rw_ok (state s t)" "acquire x t s = Some (h, s1)"
    and "inv s2" "state s2 = state s1" "handle s2 t h"
  shows "\<exists>s3. release x h s2 = Some s3 \<and> inv s3 \<and> handle s3 = handle s2 \<and> state s3 = state s"
proof -
  note acq = acquire_Some [OF assms(1,3)]
  then have take: "rw_take x (state s t) = Some (state s1 t)"
    and upd: "state s1 = (state s)(t := state s1 t)" by blast+
  have "rw_ok (state s1 t)" by (rule rw_ok_take [OF assms(2) take])
  then have give: "rw_give x (state s2 t) = Some (state s t)"
    using rw_take_give [OF take] by (simp add: assms(5) rw_ok_def)
  then obtain s3 where s3: "release x h s2 = Some s3"
    using release_None [OF assms(4,6), of x] by (cases "release x h s2") auto
  note rel = release_Some [OF assms(4,6) s3]
  then have "state s3 t = state s t" using give by simp
  moreover have "state s3 t' = state s t'" if "t' \<noteq> t" for t'
  proof -
    have "state s3 t' = state s2 t'" using rel that by (metis fun_upd_other)
    also have "\<dots> = state s t'" using upd that assms(5) by (metis fun_upd_other)
    finally show ?thesis .
  qed
  ultimately have "state s3 = state s" by (metis ext)
  with rel have "inv s3" "handle s3 = handle s2" "state s3 = state s" by blast+
  with s3 show ?thesis by blast
qed

end

interpretation tl: table_locks lm_acquire lm_release lm_inv lm_addr lm_state
proof unfold_locales
  fix s s' x t h t' h'
  assume inv: "lm_inv s"
  show "lm_acquire x t s = None \<longleftrightarrow> rw_take x (lm_state s t) = None"
    by (simp add: lm_acquire_def rw_take_def LockExclusive_iff [OF inv] LockShared_iff [OF inv])
  assume a: "lm_acquire x t s = Some (h, s')"
  then show "lm_inv s' \<and> lm_addr s' t h \<and> rw_take x (lm_state s t) = Some (lm_state s' t) \<and>
      lm_state s' = (lm_state s)(t := lm_state s' t)"
    using LockExclusive_iff(2) [OF inv] LockShared_iff(2) [OF inv]
    by (cases x) (auto simp: lm_acquire_def rw_take_def)
  from a show "lm_addr s' t' h'" if "lm_addr s t' h'"
    using LockExclusive_iff(2) [OF inv] LockShared_iff(2) [OF inv] that
    by (cases x) (auto simp: lm_acquire_def)
next
  fix s s' x t h
  assume inv: "lm_inv s" and h: "lm_addr s t h"
  show "lm_release x h s = None \<longleftrightarrow> rw_give x (lm_state s t) = None"
    by (simp add: lm_release_def rw_give_def unlock_exclusive_spec [OF inv h]
        unlock_shared_spec [OF inv h])
  assume "lm_release x h s = Some s'"
  then show "lm_inv s' \<and> lm_addr s' = lm_addr s \<and> rw_give x (lm_state s t) = Some (lm_state s' t) \<and>
      lm_state s' = (lm_state s)(t := lm_state s' t)"
    using unlock_exclusive_spec(2) [OF inv h] unlock_shared_spec(2) [OF inv h]
    by (cases x) (auto simp: lm_release_def rw_give_def)
qed

subsection \<open>Schedules of lock calls\<close>

text \<open>
  A schedule of the calls several goroutines make; \<open>lm_run\<close> gives \<open>None\<close> when some call has to
  wait. \<open>held\<close> are the outstanding acquisitions, newest first.
\<close>

datatype lock_event = Ev_Acquire bool string | Ev_Release bool string

type_synonym held = "(bool \<times> string) list"

definition lm_event :: "lock_event \<Rightarrow> lock_manager \<Rightarrow> lock_manager option" where
  "lm_event e m =
     (case e of
        Ev_Acquire x t \<Rightarrow> map_option snd (lm_acquire x t m)
      | Ev_Release x t \<Rightarrow>
          (case map_of (lm_locks m) t of None \<Rightarrow> None | Some l \<Rightarrow> lm_release x l m))"

fun held_event :: "lock_event \<Rightarrow> held \<Rightarrow> held" where
  "held_event (Ev_Acquire x t) hs = (x, t) # hs"
| "held_event (Ev_Release x t) hs = remove1 (x, t) hs"

fun lm_run :: "lock_event list \<Rightarrow> lock_manager \<Rightarrow> held \<Rightarrow> (lock_manager \<times> held) option" where
  "lm_run [] m hs = Some (m, hs)"
| "lm_run (e # es) m hs =
     (case lm_event e m of None \<Rightarrow> None | Some m' \<Rightarrow> lm_run es m' (held_event e hs))"

definition rw_of_held :: "held \<Rightarrow> string \<Rightarrow> rwmutex" where
  "rw_of_held hs t = \<lparr>rw_writer = (True, t) \<in> set hs, rw_readers = count_list hs (False, t)\<rparr>"

definition held_ok :: "lock_manager \<Rightarrow> held \<Rightarrow> bool" where
  "held_ok m hs \<longleftrightarrow>
     lm_inv m \<and> lm_state m = rw_of_held hs \<and>
     (\<forall>t. count_list hs (True, t) \<le> 1) \<and>
     (\<forall>t. (True, t) \<in> set hs \<longrightarrow> (False, t) \<notin> set hs)"

lemma count_list_remove1:
  "count_list (remove1 x xs) y = (if x = y then count_list xs y - 1 else count_list xs y)"
  by (induction xs) auto

lemma set_remove1_count: "y \<in> set (remove1 x xs) \<longleftrightarrow> 0 < count_list (remove1 x xs) y"
  using count_list_0_iff [of "remove1 x xs" y] by auto

lemma held_ok_acquire:
  assumes "held_ok m hs" "lm_acquire x t m = Some (l, m')"
  shows "held_ok m' ((x, t) # hs)"
proof -
  from assms(1) have inv: "lm_inv m" and st: "lm_state m = rw_of_held hs" by (auto simp: held_ok_def)
  note acq = tl.acquire_Some [OF inv assms(2)]
  then have take: "rw_take x (rw_of_held hs t) = Some (lm_state m' t)" by (simp add: st)
  have cnt: "count_list hs (True, t) = 0" "x \<longrightarrow> (False, t) \<notin> set hs"
    using take by (auto simp: rw_take_def rw_Lock_def rw_RLock_def rw_of_held_def count_list_0_iff
        split: if_splits)
  have "lm_state m' t' = rw_of_held ((x, t) # hs) t'" for t'
  proof (cases "t' = t")
    case True
    then show ?thesis using take
      by (auto simp: rw_take_def rw_Lock_def rw_RLock_def rw_of_held_def split: if_splits)
  next
    case False
    with acq have "lm_state m' t' = rw_of_held hs t'" by (metis fun_upd_other st)
    with False show ?thesis by (simp add: rw_of_held_def)
  qed
  then have "lm_state m' = rw_of_held ((x, t) # hs)" by (rule ext)
  moreover have "(True, t) \<notin> set hs" using cnt(1) by (simp add: count_list_0_iff)
  ultimately show ?thesis using assms(1) acq cnt by (auto simp: held_ok_def)
qed

lemma held_ok_release:
  assumes "held_ok m hs" "map_of (lm_locks m) t = Some l" "lm_release x l m = Some m'"
  shows "(x, t) \<in> set hs" "held_ok m' (remove1 (x, t) hs)"
proof -
  from assms(1) have inv: "lm_inv m" and st: "lm_state m = rw_of_held hs"
    and one: "\<And>t. count_list hs (True, t) \<le> 1" and ex: "\<And>t. (True, t) \<in> set hs \<Longrightarrow> (False, t) \<notin> set hs"
    by (auto simp: held_ok_def)
  have "lm_addr m t l" using assms(2) by (simp add: lm_addr_def)
  note rel = tl.release_Some [OF inv this assms(3)]
  then have give: "rw_give x (rw_of_held hs t) = Some (lm_state m' t)" by (simp add: st)
  then show mem: "(x, t) \<in> set hs"
    by (auto simp: rw_give_def rw_Unlock_def rw_RUnlock_def rw_of_held_def count_list_0_iff
        split: if_splits)
  have "lm_state m' t' = rw_of_held (remove1 (x, t) hs) t'" for t'
  proof (cases "t' = t")
    case True
    then show ?thesis using give one [of t]
      by (cases x) (auto simp: rw_give_def rw_Unlock_def rw_RUnlock_def rw_of_held_def
          count_list_remove1 set_remove1_count [of "(True, t)" "(True, t)"] split: if_splits)
  next
    case False
    with rel have "lm_state m' t' = rw_of_held hs t'" by (metis fun_upd_other st)
    with False show ?thesis by (simp add: rw_of_held_def count_list_remove1 in_set_remove1)
  qed
  then have "lm_state m' = rw_of_held (remove1 (x, t) hs)" by (rule ext)
  then show "held_ok m' (remove1 (x, t) hs)"
    using rel one ex by (auto simp: held_ok_def count_list_remove1
        intro: order.trans [OF diff_le_self] dest!: subsetD [OF set_remove1_subset])
qed

lemma held_ok_run: "held_ok m hs \<Longrightarrow> lm_run es m hs = Some (m', hs') \<Longrightarrow> held_ok m' hs'"
proof (induction es arbitrary: m hs)
  case Nil
  then show ?case by simp
next
  case (Cons e es)
  from Cons.prems(2) obtain m1 where m1: "lm_event e m = Some m1"
    and rest: "lm_run es m1 (held_event e hs) = Some (m', hs')"
    by (auto split: option.splits)
  have "held_ok m1 (held_event e hs)"
    using m1 held_ok_acquire [OF Cons.prems(1)] held_ok_release(2) [OF Cons.prems(1)]
    by (cases e) (auto simp: lm_event_def split: option.splits)
  with rest show ?case by (rule Cons.IH [rotated])
qed

lemma held_ok_init: "held_ok NewManager []"
  by (simp add: held_ok_def rw_of_held_def rw_free_def fun_eq_iff)

subsection \<open>Properties\<close>



end
