(* ===== verification/MVCC_Manager.thy ===== *)
theory MVCC_Manager
  imports Ice_Prelude "HOL-Library.Multiset"
begin

text \<open>
  \<^verbatim>\<open>internal/transaction/mvcc_manager.go\<close>: the table of active transactions and the
  reference counts of the snapshots they read. The mutex makes every method atomic. Time is
  nanoseconds on the process clock and an argument of the methods that read it;
  \<^verbatim>\<open>time.Since\<close> saturates to the range of \<^verbatim>\<open>time.Duration\<close>. The locale \<open>pin_table\<close>
  is what the manager relies on from the reference counts.
\<close>

type_synonym time = int
type_synonym duration = int64

record TransactionState =
  ts_TxnID :: uint64
  ts_ReadSnapshotID :: uint64
  ts_StartedAt :: time

record mvcc =
  activeTransactions :: "(uint64, TransactionState) gomap"
  pinnedSnapshots :: "(uint64, int) gomap"
  txnTimeout :: duration

definition NewMVCCManager :: "duration \<Rightarrow> mvcc" where
  "NewMVCCManager timeout =
     \<lparr>activeTransactions = [], pinnedSnapshots = [], txnTimeout = timeout\<rparr>"

definition time_Sub :: "time \<Rightarrow> time \<Rightarrow> duration" where
  "time_Sub t u = max (- (2 ^ 63)) (min (2 ^ 63 - 1) (t - u))"

definition pin_count :: "(uint64, int) gomap \<Rightarrow> uint64 \<Rightarrow> int" where
  "pin_count pins snapshotID = gomap_get 0 pins snapshotID"

definition pinSnapshot :: "uint64 \<Rightarrow> (uint64, int) gomap \<Rightarrow> (uint64, int) gomap" where
  "pinSnapshot snapshotID pins = AList.update snapshotID (pin_count pins snapshotID + 1) pins"

definition unpinSnapshotLocked :: "uint64 \<Rightarrow> (uint64, int) gomap \<Rightarrow> (uint64, int) gomap" where
  "unpinSnapshotLocked snapshotID pins =
     (let count = pin_count pins snapshotID in
      if count \<le> 1 then AList.delete snapshotID pins
      else AList.update snapshotID (count - 1) pins)"

definition mvcc_RegisterTransaction :: "time \<Rightarrow> uint64 \<Rightarrow> uint64 \<Rightarrow> mvcc \<Rightarrow> mvcc" where
  "mvcc_RegisterTransaction now txnID readSnapshot m =
     m\<lparr>activeTransactions :=
         AList.update txnID
           \<lparr>ts_TxnID = txnID, ts_ReadSnapshotID = readSnapshot, ts_StartedAt = now\<rparr>
           (activeTransactions m),
       pinnedSnapshots := pinSnapshot readSnapshot (pinnedSnapshots m)\<rparr>"

definition mvcc_finish :: "uint64 \<Rightarrow> TransactionState \<Rightarrow> mvcc \<Rightarrow> mvcc" where
  "mvcc_finish txnID t m =
     m\<lparr>pinnedSnapshots := unpinSnapshotLocked (ts_ReadSnapshotID t) (pinnedSnapshots m),
       activeTransactions := AList.delete txnID (activeTransactions m)\<rparr>"

definition mvcc_expired :: "time \<Rightarrow> TransactionState \<Rightarrow> mvcc \<Rightarrow> bool" where
  "mvcc_expired now t m \<longleftrightarrow> time_Sub now (ts_StartedAt t) > txnTimeout m"

definition mvcc_CommitTransaction :: "time \<Rightarrow> uint64 \<Rightarrow> mvcc \<Rightarrow> bool \<times> mvcc" where
  "mvcc_CommitTransaction now txnID m =
     (case map_of (activeTransactions m) txnID of
        None \<Rightarrow> (False, m)
      | Some t \<Rightarrow>
          (if mvcc_expired now t m then (False, mvcc_finish txnID t m)
           else (True, mvcc_finish txnID t m)))"

definition mvcc_AbortTransaction :: "uint64 \<Rightarrow> mvcc \<Rightarrow> mvcc" where
  "mvcc_AbortTransaction txnID m =
     (case map_of (activeTransactions m) txnID of
        None \<Rightarrow> m
      | Some t \<Rightarrow> mvcc_finish txnID t m)"

definition ValidateParentSnapshot :: "string \<Rightarrow> uint64 \<Rightarrow> uint64 \<Rightarrow> bool" where
  "ValidateParentSnapshot tableName parentSnapshotID currentSnapshotID \<longleftrightarrow>
     parentSnapshotID = currentSnapshotID"

text \<open>The cleanup loop ranges over the active transactions in some order \<open>ps\<close>.\<close>

fun Cleanup_loop :: "time \<Rightarrow> (uint64 \<times> TransactionState) list \<Rightarrow> int \<Rightarrow> mvcc \<Rightarrow> int \<times> mvcc" where
  "Cleanup_loop now [] cleaned m = (cleaned, m)"
| "Cleanup_loop now ((txnID, t) # ps) cleaned m =
     (if mvcc_expired now t m then Cleanup_loop now ps (cleaned + 1) (mvcc_finish txnID t m)
      else Cleanup_loop now ps cleaned m)"

definition mvcc_CleanupExpiredTransactions :: "time \<Rightarrow> mvcc \<Rightarrow> int \<times> mvcc" where
  "mvcc_CleanupExpiredTransactions now m = Cleanup_loop now (activeTransactions m) 0 m"

definition ActiveTransactionCount :: "mvcc \<Rightarrow> int" where
  "ActiveTransactionCount m = int (length (activeTransactions m))"

definition IsSnapshotPinned :: "uint64 \<Rightarrow> mvcc \<Rightarrow> bool" where
  "IsSnapshotPinned snapshotID m \<longleftrightarrow> pin_count (pinnedSnapshots m) snapshotID > 0"

subsection \<open>Reference counts\<close>

definition pins_ok :: "(uint64, int) gomap \<Rightarrow> bool" where
  "pins_ok pins \<longleftrightarrow> gomap_ok pins \<and> (\<forall>p \<in> set pins. 1 \<le> snd p)"

locale pin_table =
  fixes count :: "'p \<Rightarrow> 's \<Rightarrow> int"
    and pin :: "'s \<Rightarrow> 'p \<Rightarrow> 'p"
    and unpin :: "'s \<Rightarrow> 'p \<Rightarrow> 'p"
    and ok :: "'p \<Rightarrow> bool"
  assumes count_nonneg: "ok p \<Longrightarrow> 0 \<le> count p s"
    and pin_ok: "ok p \<Longrightarrow> ok (pin s p)"
    and unpin_ok: "ok p \<Longrightarrow> ok (unpin s p)"
    and count_pin: "ok p \<Longrightarrow> count (pin s p) s' = count p s' + (if s' = s then 1 else 0)"
    and count_unpin: "ok p \<Longrightarrow> 0 < count p s \<Longrightarrow>
      count (unpin s p) s' = count p s' - (if s' = s then 1 else 0)"
begin

text \<open>\<open>tracks\<close>: the counts are those of a list of pinned names.\<close>

definition tracks :: "'p \<Rightarrow> 's list \<Rightarrow> bool" where
  "tracks p ss \<longleftrightarrow> ok p \<and> (\<forall>s. count p s = int (count_list ss s))"

lemma tracks_pin: "tracks p ss \<Longrightarrow> tracks (pin s p) (s # ss)"
  by (simp add: tracks_def pin_ok count_pin)

lemma tracks_perm: "tracks p ss \<Longrightarrow> (\<And>s. count_list ss' s = count_list ss s) \<Longrightarrow> tracks p ss'"
  by (simp add: tracks_def)

lemma tracks_unpin:
  assumes "tracks p ss" "\<And>x. count_list ss x = count_list (s # ss') x"
  shows "tracks (unpin s p) ss'"
  using assms unfolding tracks_def by (simp add: unpin_ok count_unpin)

lemma tracks_pinned: "tracks p ss \<Longrightarrow> 0 < count p s \<longleftrightarrow> s \<in> set ss"
  unfolding tracks_def using count_list_0_iff [of ss s] by (auto intro: gr0I)

end

interpretation pins: pin_table pin_count pinSnapshot unpinSnapshotLocked pins_ok
proof unfold_locales
  fix p :: "(uint64, int) gomap" and s s'
  assume ok: "pins_ok p"
  then have pos: "map_of p x = Some n \<Longrightarrow> 1 \<le> n" for x n
    by (force simp: pins_ok_def dest: map_of_SomeD)
  show nn: "0 \<le> pin_count p s"
    by (auto simp: pin_count_def gomap_get_def dest: pos split: option.splits)
  show "pins_ok (pinSnapshot s p)"
    using ok nn by (auto simp: pins_ok_def pinSnapshot_def set_update_gomap)
  show "pins_ok (unpinSnapshotLocked s p)"
    using ok by (auto simp: pins_ok_def unpinSnapshotLocked_def Let_def set_update_gomap)
  show "pin_count (pinSnapshot s p) s' = pin_count p s' + (if s' = s then 1 else 0)"
    by (simp add: pinSnapshot_def pin_count_def gomap_get_def)
  assume "0 < pin_count p s"
  then show "pin_count (unpinSnapshotLocked s p) s' = pin_count p s' - (if s' = s then 1 else 0)"
    by (auto simp: unpinSnapshotLocked_def Let_def pin_count_def gomap_get_def split: option.splits)
qed

subsection \<open>The invariant of the manager\<close>

text \<open>Every snapshot is pinned once for each active transaction that reads it.\<close>

definition mvcc_reads :: "mvcc \<Rightarrow> uint64 list" where
  "mvcc_reads m = map (ts_ReadSnapshotID \<circ> snd) (activeTransactions m)"

definition mvcc_inv :: "mvcc \<Rightarrow> bool" where
  "mvcc_inv m \<longleftrightarrow> gomap_ok (activeTransactions m) \<and> pins.tracks (pinnedSnapshots m) (mvcc_reads m)"

lemma NewMVCCManager_inv [simp]: "mvcc_inv (NewMVCCManager d)"
  by (simp add: mvcc_inv_def NewMVCCManager_def mvcc_reads_def pins.tracks_def pins_ok_def
      pin_count_def gomap_get_def)

lemma count_list_delete:
  "gomap_ok m \<Longrightarrow> map_of m k = Some v \<Longrightarrow>
   count_list (map (f \<circ> snd) m) x = count_list (f v # map (f \<circ> snd) (AList.delete k m)) x"
  by (induction m) (auto simp: map_of_eq_None_iff delete_id split: if_splits)

lemma mvcc_finish_inv:
  assumes "mvcc_inv m" "map_of (activeTransactions m) k = Some t"
  shows "mvcc_inv (mvcc_finish k t m)"
proof -
  have "pins.tracks (unpinSnapshotLocked (ts_ReadSnapshotID t) (pinnedSnapshots m))
      (map (ts_ReadSnapshotID \<circ> snd) (AList.delete k (activeTransactions m)))"
    using assms count_list_delete [of "activeTransactions m" k t ts_ReadSnapshotID]
    by (intro pins.tracks_unpin [of _ "mvcc_reads m"]) (auto simp: mvcc_inv_def mvcc_reads_def)
  then show ?thesis
    using assms by (simp add: mvcc_inv_def mvcc_finish_def mvcc_reads_def)
qed

lemma mvcc_Register_inv:
  assumes "mvcc_inv m" "map_of (activeTransactions m) k = None"
  shows "mvcc_inv (mvcc_RegisterTransaction now k s m)"
proof -
  have "pins.tracks (pinSnapshot s (pinnedSnapshots m)) (s # mvcc_reads m)"
    using assms(1) by (intro pins.tracks_pin) (simp add: mvcc_inv_def)
  then have "pins.tracks (pinSnapshot s (pinnedSnapshots m)) (mvcc_reads m @ [s])"
    by (rule pins.tracks_perm) simp
  then show ?thesis
    using assms by (simp add: mvcc_inv_def mvcc_RegisterTransaction_def mvcc_reads_def update_new
        map_of_eq_None_iff)
qed

lemma mvcc_Commit_inv: "mvcc_inv m \<Longrightarrow> mvcc_inv (snd (mvcc_CommitTransaction now k m))"
  by (simp add: mvcc_CommitTransaction_def mvcc_finish_inv split: option.split)

lemma mvcc_Abort_inv: "mvcc_inv m \<Longrightarrow> mvcc_inv (mvcc_AbortTransaction k m)"
  by (simp add: mvcc_AbortTransaction_def mvcc_finish_inv split: option.split)

lemma mvcc_expired_finish [simp]: "mvcc_expired now t (mvcc_finish k u m) = mvcc_expired now t m"
  by (simp add: mvcc_expired_def mvcc_finish_def)

lemma txnTimeout_finish [simp]: "txnTimeout (mvcc_finish k u m) = txnTimeout m"
  by (simp add: mvcc_finish_def)

lemma Cleanup_loop_spec:
  assumes "mvcc_inv m" "gomap_ok ps" "set ps \<subseteq> set (activeTransactions m)"
  shows "mvcc_inv (snd (Cleanup_loop now ps n m)) \<and>
    activeTransactions (snd (Cleanup_loop now ps n m)) =
      filter (\<lambda>p. \<not> (p \<in> set ps \<and> mvcc_expired now (snd p) m)) (activeTransactions m) \<and>
    fst (Cleanup_loop now ps n m) =
      n + int (length (filter (\<lambda>p. mvcc_expired now (snd p) m) ps)) \<and>
    txnTimeout (snd (Cleanup_loop now ps n m)) = txnTimeout m"
  using assms
proof (induction now ps n m rule: Cleanup_loop.induct)
  case (1 now n m)
  then show ?case by simp
next
  case (2 now k t ps n m)
  show ?case
  proof (cases "mvcc_expired now t m")
    case False
    with "2.IH"(2) [OF False] "2.prems" show ?thesis by (auto intro!: filter_cong)
  next
    case True
    have ok: "gomap_ok (activeTransactions m)" using "2.prems"(1) by (simp add: mvcc_inv_def)
    have kt: "map_of (activeTransactions m) k = Some t"
      using "2.prems"(3) ok by simp
    have "k \<notin> fst ` set ps" using "2.prems"(2) by simp
    then have sub: "set ps \<subseteq> set (activeTransactions (mvcc_finish k t m))"
      using "2.prems"(3) by (auto simp: mvcc_finish_def)
    have inv: "mvcc_inv (mvcc_finish k t m)" by (rule mvcc_finish_inv [OF "2.prems"(1) kt])
    have only: "fst p = k \<longleftrightarrow> p = (k, t)" if "p \<in> set (activeTransactions m)" for p
    proof -
      from that have "map_of (activeTransactions m) (fst p) = Some (snd p)" using ok by simp
      with kt show ?thesis by (metis fst_conv option.inject prod.collapse)
    qed
    have "activeTransactions (mvcc_finish k t m) =
        filter (\<lambda>p. p \<noteq> (k, t)) (activeTransactions m)"
      unfolding mvcc_finish_def by (simp add: delete_filter only cong: filter_cong)
    with "2.IH"(1) [OF True inv _ sub] "2.prems"(2) True show ?thesis
      by (auto intro!: filter_cong)
  qed
qed

lemma Cleanup_spec:
  assumes "mvcc_inv m"
  shows "mvcc_inv (snd (mvcc_CleanupExpiredTransactions now m))"
    and "activeTransactions (snd (mvcc_CleanupExpiredTransactions now m)) =
      filter (\<lambda>p. \<not> mvcc_expired now (snd p) m) (activeTransactions m)"
    and "fst (mvcc_CleanupExpiredTransactions now m) =
      int (length (filter (\<lambda>p. mvcc_expired now (snd p) m) (activeTransactions m)))"
    and "txnTimeout (snd (mvcc_CleanupExpiredTransactions now m)) = txnTimeout m"
proof -
  have "gomap_ok (activeTransactions m)" using assms by (simp add: mvcc_inv_def)
  note sp = Cleanup_loop_spec [OF assms this order_refl, of now 0,
      folded mvcc_CleanupExpiredTransactions_def]
  show "mvcc_inv (snd (mvcc_CleanupExpiredTransactions now m))"
    and "fst (mvcc_CleanupExpiredTransactions now m) =
      int (length (filter (\<lambda>p. mvcc_expired now (snd p) m) (activeTransactions m)))"
    and "txnTimeout (snd (mvcc_CleanupExpiredTransactions now m)) = txnTimeout m"
    using sp by simp_all
  show "activeTransactions (snd (mvcc_CleanupExpiredTransactions now m)) =
      filter (\<lambda>p. \<not> mvcc_expired now (snd p) m) (activeTransactions m)"
    using sp by (auto intro!: filter_cong)
qed

lemma IsSnapshotPinned_iff:
  "mvcc_inv m \<Longrightarrow> IsSnapshotPinned s m \<longleftrightarrow>
   (\<exists>k t. map_of (activeTransactions m) k = Some t \<and> ts_ReadSnapshotID t = s)"
  unfolding IsSnapshotPinned_def mvcc_inv_def
  by (force simp: pins.tracks_pinned mvcc_reads_def image_iff)

subsection \<open>Runs of the manager\<close>

datatype mvcc_event =
  Mv_Register time uint64 uint64
| Mv_Commit time uint64
| Mv_Abort uint64
| Mv_Cleanup time

fun mvcc_step :: "mvcc_event \<Rightarrow> mvcc \<Rightarrow> mvcc" where
  "mvcc_step (Mv_Register now k s) m = mvcc_RegisterTransaction now k s m"
| "mvcc_step (Mv_Commit now k) m = snd (mvcc_CommitTransaction now k m)"
| "mvcc_step (Mv_Abort k) m = mvcc_AbortTransaction k m"
| "mvcc_step (Mv_Cleanup now) m = snd (mvcc_CleanupExpiredTransactions now m)"

fun registered :: "mvcc_event list \<Rightarrow> uint64 list" where
  "registered [] = []"
| "registered (Mv_Register now k s # es) = k # registered es"
| "registered (_ # es) = registered es"

lemma active_finish:
  "fst ` set (activeTransactions (mvcc_finish k t m)) \<subseteq> fst ` set (activeTransactions m)"
  by (auto simp: mvcc_finish_def)

lemma active_keys_step:
  assumes "mvcc_inv m"
  shows "fst ` set (activeTransactions (mvcc_step e m)) \<subseteq>
    fst ` set (activeTransactions m) \<union> set (registered [e])"
proof (cases e)
  case (Mv_Register now k s)
  then show ?thesis using assms
    by (auto simp: mvcc_RegisterTransaction_def mvcc_inv_def set_update_gomap)
next
  case (Mv_Commit now k)
  then show ?thesis
    using active_finish [of k _ m] by (auto simp: mvcc_CommitTransaction_def split: option.split)
next
  case (Mv_Abort k)
  then show ?thesis
    using active_finish [of k _ m] by (auto simp: mvcc_AbortTransaction_def split: option.split)
next
  case (Mv_Cleanup now)
  then show ?thesis using Cleanup_spec [OF assms] by auto
qed

lemma mvcc_run_inv:
  "mvcc_inv m \<Longrightarrow> distinct (registered es) \<Longrightarrow>
   set (registered es) \<inter> fst ` set (activeTransactions m) = {} \<Longrightarrow> mvcc_inv (fold mvcc_step es m)"
proof (induction es arbitrary: m)
  case Nil
  then show ?case by simp
next
  case (Cons e es)
  have keys: "registered (e # es) = registered [e] @ registered es" by (cases e) simp_all
  have inv: "mvcc_inv (mvcc_step e m)"
    using Cons.prems
    by (cases e) (auto simp: mvcc_Commit_inv mvcc_Abort_inv Cleanup_spec map_of_eq_None_iff
        intro!: mvcc_Register_inv)
  have "set (registered es) \<inter> fst ` set (activeTransactions (mvcc_step e m)) = {}"
    using active_keys_step [OF Cons.prems(1), of e] Cons.prems(2,3) unfolding keys by auto
  with Cons.IH [OF inv] Cons.prems(2) keys show ?case by simp
qed

lemma tracked_count: "mvcc_inv m \<Longrightarrow> pin_count (pinnedSnapshots m) s = int (count_list (mvcc_reads m) s)"
  by (simp add: mvcc_inv_def pins.tracks_def)

subsection \<open>Properties\<close>


definition example_history :: "mvcc_event list" where
  "example_history =
     [Mv_Register 0 1 7, Mv_Register 5 2 7, Mv_Register 6 3 8, Mv_Commit 8 1, Mv_Cleanup 16]"


text \<open>
  C31: A commit succeeds exactly when the transaction is active and has not outlived the timeout
  (a difference of times that no \<^verbatim>\<open>Duration\<close> can hold counts as the largest one); either way
  it is removed with its pin and the other transactions stay, so a second commit of the same id
  fails.
\<close>

theorem commit_once_within_timeout:
  assumes "mvcc_inv m" "mvcc_CommitTransaction now k m = (ok, m')"
  shows "(ok \<longleftrightarrow> (\<exists>t. map_of (activeTransactions m) k = Some t \<and>
        min (2 ^ 63 - 1) (now - ts_StartedAt t) \<le> txnTimeout m \<and> - (2 ^ 63) \<le> txnTimeout m)) \<and>
    mvcc_inv m' \<and> activeTransactions m' = AList.delete k (activeTransactions m) \<and>
    mvcc_CommitTransaction now' k m' = (False, m')"
proof (cases "map_of (activeTransactions m) k")
  case None
  then have "AList.delete k (activeTransactions m) = activeTransactions m"
    by (simp add: map_of_eq_None_iff delete_id)
  with None assms show ?thesis by (auto simp: mvcc_CommitTransaction_def)
next
  case (Some t)
  then show ?thesis
    using assms(2) mvcc_finish_inv [OF assms(1) Some]
    by (auto simp: mvcc_CommitTransaction_def mvcc_expired_def time_Sub_def mvcc_finish_def
        split: if_splits)
qed

theorem commit_once_within_timeout_witness:
  "mvcc_CommitTransaction 99 4 (snd (mvcc_CommitTransaction 12 4
       (mvcc_RegisterTransaction 3 4 7 (NewMVCCManager 10)))) =
     (False, snd (mvcc_CommitTransaction 12 4 (mvcc_RegisterTransaction 3 4 7 (NewMVCCManager 10))))"
proof -
  let ?m = "mvcc_RegisterTransaction 3 4 7 (NewMVCCManager 10)"
  have "mvcc_inv ?m" by (rule mvcc_Register_inv) (simp_all, simp add: NewMVCCManager_def)
  from commit_once_within_timeout [OF this prod.collapse [symmetric], of 12 4 99]
  show ?thesis by simp
qed

text \<open>
  C32: A clean-up removes exactly the transactions that have outlived the timeout, in whatever order
  it visits the map, returns how many, releases their pins and leaves every other transaction
  committable at that moment.
\<close>

theorem cleanup_removes_expired:
  assumes "mvcc_inv m" "gomap_ok ps" "set ps = set (activeTransactions m)"
  shows "activeTransactions (snd (Cleanup_loop now ps 0 m)) =
      filter (\<lambda>p. \<not> mvcc_expired now (snd p) m) (activeTransactions m) \<and>
    fst (Cleanup_loop now ps 0 m) = fst (mvcc_CleanupExpiredTransactions now m) \<and>
    ActiveTransactionCount (snd (Cleanup_loop now ps 0 m)) =
      ActiveTransactionCount m - fst (Cleanup_loop now ps 0 m) \<and>
    (fst (mvcc_CommitTransaction now k (snd (Cleanup_loop now ps 0 m))) \<longleftrightarrow>
      fst (mvcc_CommitTransaction now k m)) \<and>
    (IsSnapshotPinned s (snd (Cleanup_loop now ps 0 m)) \<longleftrightarrow>
      (\<exists>k t. map_of (activeTransactions m) k = Some t \<and> ts_ReadSnapshotID t = s \<and>
        \<not> mvcc_expired now t m))"
proof -
  let ?m' = "snd (Cleanup_loop now ps 0 m)"
  let ?E = "\<lambda>p. mvcc_expired now (snd p) m"
  have ok: "gomap_ok (activeTransactions m)" using assms(1) by (simp add: mvcc_inv_def)
  note sp = Cleanup_loop_spec [OF assms(1,2) equalityD1 [OF assms(3)], of now 0]
  have act: "activeTransactions ?m' = filter (\<lambda>p. \<not> ?E p) (activeTransactions m)"
    using sp assms(3) by (auto intro!: filter_cong)
  have "mset ps = mset (activeTransactions m)"
    using assms(2,3) ok by (simp add: set_eq_iff_mset_eq_distinct [symmetric] distinct_map)
  then have "length (filter ?E ps) = length (filter ?E (activeTransactions m))"
    by (metis mset_filter size_mset)
  then have cnt: "fst (Cleanup_loop now ps 0 m) = fst (mvcc_CleanupExpiredTransactions now m)"
    "fst (Cleanup_loop now ps 0 m) = int (length (filter ?E (activeTransactions m)))"
    using sp Cleanup_spec(3) [OF assms(1)] by simp_all
  have get: "map_of (activeTransactions ?m') k = Some t \<longleftrightarrow>
      map_of (activeTransactions m) k = Some t \<and> \<not> mvcc_expired now t m" for k t
    unfolding act using ok by (simp add: distinct_map_filter map_of_eq_Some_iff)
  have exp: "mvcc_expired now t ?m' = mvcc_expired now t m" for t
    using sp by (simp add: mvcc_expired_def)
  have "fst (mvcc_CommitTransaction now k m) \<longleftrightarrow>
      (\<exists>t. map_of (activeTransactions m) k = Some t \<and> \<not> mvcc_expired now t m)" for m
    by (simp add: mvcc_CommitTransaction_def split: option.split)
  then have "fst (mvcc_CommitTransaction now k ?m') \<longleftrightarrow> fst (mvcc_CommitTransaction now k m)"
    by (simp add: get exp)
  moreover have "ActiveTransactionCount ?m' = ActiveTransactionCount m - fst (Cleanup_loop now ps 0 m)"
    using sum_length_filter_compl [of ?E "activeTransactions m"]
    by (simp add: ActiveTransactionCount_def act cnt(2))
  moreover have "IsSnapshotPinned s ?m' \<longleftrightarrow> (\<exists>k t. map_of (activeTransactions m) k = Some t \<and>
      ts_ReadSnapshotID t = s \<and> \<not> mvcc_expired now t m)"
    using IsSnapshotPinned_iff [OF sp [THEN conjunct1], of s] unfolding get by blast
  ultimately show ?thesis using act cnt(1) by blast
qed

theorem cleanup_removes_expired_witness:
  "ActiveTransactionCount (snd (Cleanup_loop 20
     (activeTransactions (mvcc_RegisterTransaction 3 4 7 (NewMVCCManager 10))) 0
     (mvcc_RegisterTransaction 3 4 7 (NewMVCCManager 10)))) = 0"
proof -
  let ?m = "mvcc_RegisterTransaction 3 4 7 (NewMVCCManager 10)"
  have inv: "mvcc_inv ?m" by (rule mvcc_Register_inv) (simp_all, simp add: NewMVCCManager_def)
  have "gomap_ok (activeTransactions ?m)" using inv by (simp add: mvcc_inv_def)
  note P = cleanup_removes_expired [OF inv this refl, of 20]
  have "fst (mvcc_CleanupExpiredTransactions 20 ?m) = 1" "ActiveTransactionCount ?m = 1"
    by (simp_all add: mvcc_CleanupExpiredTransactions_def mvcc_RegisterTransaction_def
        NewMVCCManager_def mvcc_expired_def time_Sub_def ActiveTransactionCount_def)
  then show ?thesis using P by simp
qed

end
