(* ===== verification/Go_Json.thy ===== *)
theory Go_Json
  imports Go_Strconv
begin

text \<open>
  The part of Go's \<^verbatim>\<open>encoding/json\<close> that IceCore uses. Strings are byte lists, so UTF-8
  appears as bytes. \<open>json_parse\<close> is the decoder's syntax check and tree: objects keep their members in
  order and with duplicates, numbers keep their literal. \<open>json_print\<close> is the encoder's compact output
  with its HTML escaping. The typed decoders of the components work on the tree. The recursion of
  the parser carries fuel; \<open>json_fuel\<close> is linear in the input and \<open>pval_enough\<close> shows that it
  suffices: no larger amount changes the answer.
\<close>

datatype json =
    JNull
  | JBool bool
  | JNum string
  | JStr string
  | JArr "json list"
  | JObj "(string \<times> json) list"

subsection \<open>UTF-8\<close>

definition byte :: "char \<Rightarrow> nat" where
  "byte c = of_char c"

definition byte_in :: "nat \<Rightarrow> nat \<Rightarrow> char \<Rightarrow> bool" where
  "byte_in lo hi c \<longleftrightarrow> lo \<le> byte c \<and> byte c \<le> hi"

text \<open>Length of the well-formed multi-byte sequence at the front, 0 if there is none.\<close>

fun utf8_len :: "string \<Rightarrow> nat" where
  "utf8_len (a # b # c # d # _) =
     (if byte_in 194 223 a \<and> byte_in 128 191 b then 2
      else if (byte a = 224 \<and> byte_in 160 191 b \<or> byte_in 225 236 a \<and> byte_in 128 191 b \<or>
               byte a = 237 \<and> byte_in 128 159 b \<or> byte_in 238 239 a \<and> byte_in 128 191 b) \<and>
              byte_in 128 191 c then 3
      else if (byte a = 240 \<and> byte_in 144 191 b \<or> byte_in 241 243 a \<and> byte_in 128 191 b \<or>
               byte a = 244 \<and> byte_in 128 143 b) \<and>
              byte_in 128 191 c \<and> byte_in 128 191 d then 4
      else 0)"
| "utf8_len [a, b, c] =
     (if byte_in 194 223 a \<and> byte_in 128 191 b then 2
      else if (byte a = 224 \<and> byte_in 160 191 b \<or> byte_in 225 236 a \<and> byte_in 128 191 b \<or>
               byte a = 237 \<and> byte_in 128 159 b \<or> byte_in 238 239 a \<and> byte_in 128 191 b) \<and>
              byte_in 128 191 c then 3
      else 0)"
| "utf8_len [a, b] = (if byte_in 194 223 a \<and> byte_in 128 191 b then 2 else 0)"
| "utf8_len _ = 0"

definition rune_bytes :: "nat \<Rightarrow> string" where
  "rune_bytes r =
     (if r < 128 then [char_of r]
      else if r < 2048 then [char_of (192 + r div 64), char_of (128 + r mod 64)]
      else if r < 65536 then
        [char_of (224 + r div 4096), char_of (128 + r div 64 mod 64), char_of (128 + r mod 64)]
      else
        [char_of (240 + r div 262144), char_of (128 + r div 4096 mod 64),
         char_of (128 + r div 64 mod 64), char_of (128 + r mod 64)])"

definition replacement :: string where
  "replacement = [char_of (239::nat), char_of (191::nat), char_of (189::nat)]"

function utf8_ok :: "string \<Rightarrow> bool" where
  "utf8_ok [] = True"
| "utf8_ok (c # cs) =
     (if byte c < 128 then utf8_ok cs
      else (let n = utf8_len (c # cs) in n \<noteq> 0 \<and> utf8_ok (drop (n - 1) cs)))"
  by pat_completeness auto
termination by (relation "measure length") auto

subsection \<open>Strings in the encoder\<close>

definition hex_digit :: "nat \<Rightarrow> char" where
  "hex_digit d = (if d < 10 then char_of (48 + d) else char_of (87 + d))"

definition u_escape :: "nat \<Rightarrow> string" where
  "u_escape r = [CHR 0x5C, CHR ''u'', hex_digit (r div 4096 mod 16), hex_digit (r div 256 mod 16),
     hex_digit (r div 16 mod 16), hex_digit (r mod 16)]"

definition quote_ascii :: "char \<Rightarrow> string" where
  "quote_ascii c =
     (if byte c = 34 \<or> byte c = 92 then [CHR 0x5C, c]
      else if byte c = 8 then [CHR 0x5C, CHR ''b'']
      else if byte c = 12 then [CHR 0x5C, CHR ''f'']
      else if byte c = 10 then [CHR 0x5C, CHR ''n'']
      else if byte c = 13 then [CHR 0x5C, CHR ''r'']
      else if byte c = 9 then [CHR 0x5C, CHR ''t'']
      else if byte c < 32 \<or> byte c = 60 \<or> byte c = 62 \<or> byte c = 38 then u_escape (byte c)
      else [c])"

text \<open>U+2028 and U+2029 are escaped, an ill-formed byte becomes an escaped U+FFFD.\<close>

definition line_sep :: "string \<Rightarrow> nat option" where
  "line_sep s =
     (if map byte (take 3 s) = [226, 128, 168] then Some 8232
      else if map byte (take 3 s) = [226, 128, 169] then Some 8233
      else None)"

function quote_body :: "string \<Rightarrow> string" where
  "quote_body [] = []"
| "quote_body (c # cs) =
     (if byte c < 128 then quote_ascii c @ quote_body cs
      else
        (let n = utf8_len (c # cs) in
         if n = 0 then u_escape 65533 @ quote_body cs
         else (case line_sep (c # cs) of
                 Some r \<Rightarrow> u_escape r @ quote_body (drop (n - 1) cs)
               | None \<Rightarrow> c # take (n - 1) cs @ quote_body (drop (n - 1) cs))))"
  by pat_completeness auto
termination by (relation "measure length") auto

definition json_quote :: "string \<Rightarrow> string" where
  "json_quote s = CHR 0x22 # quote_body s @ [CHR 0x22]"

fun join :: "string \<Rightarrow> string list \<Rightarrow> string" where
  "join sep [] = []"
| "join sep [x] = x"
| "join sep (x # xs) = x @ sep @ join sep xs"

fun json_print :: "json \<Rightarrow> string" where
  "json_print JNull = ''null''"
| "json_print (JBool b) = (if b then ''true'' else ''false'')"
| "json_print (JNum l) = l"
| "json_print (JStr s) = json_quote s"
| "json_print (JArr xs) = ''['' @ join '','' (map json_print xs) @ '']''"
| "json_print (JObj ms) =
     ''{'' @ join '','' (map (\<lambda>(k, v). json_quote k @ '':'' @ json_print v) ms) @ ''}''"

subsection \<open>Strings in the decoder\<close>

definition is_ws :: "char \<Rightarrow> bool" where
  "is_ws c \<longleftrightarrow> byte c \<in> {32, 9, 10, 13}"

definition skip_ws :: "string \<Rightarrow> string" where
  "skip_ws s = dropWhile is_ws s"

definition hex_val :: "char \<Rightarrow> nat option" where
  "hex_val c =
     (if byte_in 48 57 c then Some (byte c - 48)
      else if byte_in 97 102 c then Some (byte c - 87)
      else if byte_in 65 70 c then Some (byte c - 55)
      else None)"

text \<open>\<^verbatim>\<open>getu4\<close>: the code unit of a \<open>u\<close> escape at the front of the input.\<close>

fun u4 :: "string \<Rightarrow> nat option" where
  "u4 (a # b # c # d # _) =
     (case (hex_val a, hex_val b, hex_val c, hex_val d) of
        (Some a', Some b', Some c', Some d') \<Rightarrow> Some (4096 * a' + 256 * b' + 16 * c' + d')
      | _ \<Rightarrow> None)"
| "u4 _ = None"

definition is_surrogate :: "nat \<Rightarrow> bool" where
  "is_surrogate r \<longleftrightarrow> 55296 \<le> r \<and> r < 57344"

definition low_escape :: "string \<Rightarrow> nat option" where
  "low_escape s =
     (if take 2 s = [CHR 0x5C, CHR ''u'']
      then (case u4 (drop 2 s) of
              Some r \<Rightarrow> (if 56320 \<le> r \<and> r < 57344 then Some r else None)
            | None \<Rightarrow> None)
      else None)"

text \<open>Decoded bytes of a \<open>u\<close> escape with code unit \<open>r\<close>, and how much follows it is used too.\<close>

definition decode_unit :: "nat \<Rightarrow> string \<Rightarrow> string \<times> nat" where
  "decode_unit r rest =
     (if is_surrogate r then
        (case (if r < 56320 then low_escape rest else None) of
           Some lo \<Rightarrow> (rune_bytes (65536 + (r - 55296) * 1024 + (lo - 56320)), 6)
         | None \<Rightarrow> (replacement, 0))
      else (rune_bytes r, 0))"

definition simple_escape :: "char \<Rightarrow> char option" where
  "simple_escape c =
     (if byte c = 34 \<or> byte c = 92 \<or> byte c = 47 then Some c
      else if c = CHR ''b'' then Some (char_of (8::nat))
      else if c = CHR ''f'' then Some (char_of (12::nat))
      else if c = CHR ''n'' then Some (char_of (10::nat))
      else if c = CHR ''r'' then Some (char_of (13::nat))
      else if c = CHR ''t'' then Some (char_of (9::nat))
      else None)"

text \<open>The rest of a string literal after its opening quote: the decoded bytes and what follows.\<close>

function pstr :: "string \<Rightarrow> (string \<times> string) option" where
  "pstr [] = None"
| "pstr (c # cs) =
     (if byte c = 34 then Some ([], cs)
      else if byte c = 92 then
        (case cs of
           [] \<Rightarrow> None
         | e # es \<Rightarrow>
             (if e = CHR ''u'' then
                (case u4 es of
                   None \<Rightarrow> None
                 | Some r \<Rightarrow>
                     (let (bs, n) = decode_unit r (drop 4 es) in
                      map_option (apfst (append bs)) (pstr (drop n (drop 4 es)))))
              else
                (case simple_escape e of
                   None \<Rightarrow> None
                 | Some x \<Rightarrow> map_option (apfst (Cons x)) (pstr es))))
      else if byte c < 32 then None
      else if byte c < 128 then map_option (apfst (Cons c)) (pstr cs)
      else
        (let n = utf8_len (c # cs) in
         if n = 0 then map_option (apfst (append replacement)) (pstr cs)
         else map_option (apfst (append (c # take (n - 1) cs))) (pstr (drop (n - 1) cs))))"
  by pat_completeness auto
termination by (relation "measure length") auto

subsection \<open>Values\<close>

definition pdigits :: "string \<Rightarrow> (string \<times> string) option" where
  "pdigits s =
     (let ds = takeWhile is_digit s in if ds = [] then None else Some (ds, dropWhile is_digit s))"

definition pint :: "string \<Rightarrow> (string \<times> string) option" where
  "pint s = (case s of [] \<Rightarrow> None | c # cs \<Rightarrow> if c = CHR ''0'' then Some ([c], cs) else pdigits s)"

definition pfrac :: "string \<Rightarrow> (string \<times> string) option" where
  "pfrac s =
     (case s of
        [] \<Rightarrow> Some ([], [])
      | c # cs \<Rightarrow>
          (if c = CHR ''.'' then map_option (apfst (Cons c)) (pdigits cs) else Some ([], s)))"

definition pexp :: "string \<Rightarrow> (string \<times> string) option" where
  "pexp s =
     (case s of
        [] \<Rightarrow> Some ([], [])
      | c # cs \<Rightarrow>
          (if c = CHR ''e'' \<or> c = CHR ''E'' then
             (case cs of
                [] \<Rightarrow> None
              | x # xs \<Rightarrow>
                  (if x = CHR ''+'' \<or> x = CHR ''-''
                   then map_option (apfst (\<lambda>ds. c # x # ds)) (pdigits xs)
                   else map_option (apfst (Cons c)) (pdigits cs)))
           else Some ([], s)))"

text \<open>A number literal at the front of the input.\<close>

definition pnum :: "string \<Rightarrow> (string \<times> string) option" where
  "pnum s =
     (let neg = (take 1 s = ''-''); sg = (if neg then ''-'' else []); s1 = (if neg then tl s else s) in
      case pint s1 of
        None \<Rightarrow> None
      | Some (i, s2) \<Rightarrow>
          (case pfrac s2 of
             None \<Rightarrow> None
           | Some (f, s3) \<Rightarrow>
               (case pexp s3 of None \<Rightarrow> None | Some (e, s4) \<Rightarrow> Some (sg @ i @ f @ e, s4))))"

definition pword :: "string \<Rightarrow> json \<Rightarrow> string \<Rightarrow> (json \<times> string) option" where
  "pword w j s = (if take (length w) s = w then Some (j, drop (length w) s) else None)"

text \<open>Go's decoder refuses more than 10000 levels of nesting.\<close>

definition max_depth :: nat where
  "max_depth = 10000"

fun pval :: "nat \<Rightarrow> nat \<Rightarrow> string \<Rightarrow> (json \<times> string) option"
  and pelems :: "nat \<Rightarrow> nat \<Rightarrow> string \<Rightarrow> (json list \<times> string) option"
  and pmembers :: "nat \<Rightarrow> nat \<Rightarrow> string \<Rightarrow> ((string \<times> json) list \<times> string) option" where
  "pval 0 d s = None"
| "pval (Suc n) d s =
     (case s of
        [] \<Rightarrow> None
      | c # cs \<Rightarrow>
          (if c = CHR ''{'' then
             (if d \<ge> max_depth then None
              else (case skip_ws cs of
                      [] \<Rightarrow> None
                    | x # xs \<Rightarrow>
                        (if x = CHR ''}'' then Some (JObj [], xs)
                         else map_option (apfst JObj) (pmembers n (Suc d) (x # xs)))))
           else if c = CHR ''['' then
             (if d \<ge> max_depth then None
              else (case skip_ws cs of
                      [] \<Rightarrow> None
                    | x # xs \<Rightarrow>
                        (if x = CHR '']'' then Some (JArr [], xs)
                         else map_option (apfst JArr) (pelems n (Suc d) (x # xs)))))
           else if byte c = 34 then map_option (apfst JStr) (pstr cs)
           else if c = CHR ''t'' then pword ''true'' (JBool True) s
           else if c = CHR ''f'' then pword ''false'' (JBool False) s
           else if c = CHR ''n'' then pword ''null'' JNull s
           else map_option (apfst JNum) (pnum s)))"
| "pelems 0 d s = None"
| "pelems (Suc n) d s =
     (case pval n d s of
        None \<Rightarrow> None
      | Some (v, r) \<Rightarrow>
          (case skip_ws r of
             [] \<Rightarrow> None
           | x # xs \<Rightarrow>
               (if x = CHR '','' then map_option (apfst (Cons v)) (pelems n d (skip_ws xs))
                else if x = CHR '']'' then Some ([v], xs)
                else None)))"
| "pmembers 0 d s = None"
| "pmembers (Suc n) d s =
     (case s of
        [] \<Rightarrow> None
      | q # qs \<Rightarrow>
          (if byte q = 34 then
             (case pstr qs of
                None \<Rightarrow> None
              | Some (k, r) \<Rightarrow>
                  (case skip_ws r of
                     [] \<Rightarrow> None
                   | y # ys \<Rightarrow>
                       (if y = CHR '':'' then
                          (case pval n d (skip_ws ys) of
                             None \<Rightarrow> None
                           | Some (v, r') \<Rightarrow>
                               (case skip_ws r' of
                                  [] \<Rightarrow> None
                                | x # xs \<Rightarrow>
                                    (if x = CHR '','' then
                                       map_option (apfst (Cons (k, v))) (pmembers n d (skip_ws xs))
                                     else if x = CHR ''}'' then Some ([(k, v)], xs)
                                     else None)))
                        else None)))
           else None))"

definition json_fuel :: "string \<Rightarrow> nat" where
  "json_fuel s = 2 * length s + 2"

definition json_parse_with :: "nat \<Rightarrow> string \<Rightarrow> json option" where
  "json_parse_with n s =
     (case pval n 0 (skip_ws s) of
        None \<Rightarrow> None
      | Some (j, r) \<Rightarrow> (if skip_ws r = [] then Some j else None))"

definition json_parse :: "string \<Rightarrow> json option" where
  "json_parse s = json_parse_with (json_fuel s) s"

subsection \<open>The fuel is enough\<close>

lemma skip_ws_le: "length (skip_ws s) \<le> length s"
  unfolding skip_ws_def by (rule length_dropWhile_le)

lemma skip_ws_Cons: "skip_ws s = x # xs \<Longrightarrow> length xs < length s"
  using skip_ws_le [of s] by simp

lemma pstr_less: "pstr s = Some (t, r) \<Longrightarrow> length r < length s"
proof (induction s arbitrary: t r rule: pstr.induct)
  case 1
  then show ?case by simp
next
  case (2 c cs)
  show ?case
  proof (cases "byte c = 34")
    case True
    with "2.prems" show ?thesis by simp
  next
    case c34: False
    show ?thesis
    proof (cases "byte c = 92")
      case True
      with c34 "2.prems" obtain e es where cs: "cs = e # es"
        by (auto split: list.splits)
      with "2.prems" True c34 "2.IH"(1,2) show ?thesis
        by (fastforce simp: Let_def split: if_splits option.splits prod.splits)
    next
      case False
      with c34 "2.prems" "2.IH"(3,4,5) show ?thesis
        by (fastforce simp: Let_def split: if_splits)
    qed
  qed
qed

lemma pdigits_less: "pdigits s = Some (t, r) \<Longrightarrow> length r < length s"
  by (cases s) (auto simp: pdigits_def Let_def length_dropWhile_le less_Suc_eq_le split: if_splits)

lemma pint_less: "pint s = Some (t, r) \<Longrightarrow> length r < length s"
  by (auto simp: pint_def dest: pdigits_less split: list.splits if_splits)

lemma pfrac_le: "pfrac s = Some (t, r) \<Longrightarrow> length r \<le> length s"
  by (auto simp: pfrac_def dest: pdigits_less split: list.splits if_splits)

lemma pexp_le: "pexp s = Some (t, r) \<Longrightarrow> length r \<le> length s"
  by (auto simp: pexp_def dest!: pdigits_less split: list.splits if_splits)

lemma pnum_less: "pnum s = Some (t, r) \<Longrightarrow> length r < length s"
  by (cases s)
    (auto simp: pnum_def Let_def dest!: pint_less pfrac_le pexp_le split: option.splits if_splits)

lemma pword_less: "pword w j s = Some (v, r) \<Longrightarrow> w \<noteq> [] \<Longrightarrow> s \<noteq> [] \<Longrightarrow> length r < length s"
  by (auto simp: pword_def split: if_splits)

lemma pval_less:
  "pval n d s = Some (j, r) \<Longrightarrow> length r < length s"
  "pelems n d s = Some (js, r) \<Longrightarrow> length r < length s"
  "pmembers n d s = Some (ms, r) \<Longrightarrow> length r < length s"
proof (induction n d s and n d s and n d s arbitrary: j r and js r and ms r
    rule: pval_pelems_pmembers.induct)
  case (2 n d s)
  show ?case
  proof (cases s)
    case Nil
    with 2 show ?thesis by simp
  next
    case (Cons c cs)
    with 2 show ?thesis
      using skip_ws_le [of cs]
      by (fastforce dest: pstr_less pnum_less pword_less split: if_splits list.splits)
  qed
next
  case (4 n d s)
  from "4.prems" obtain v r1 x xs where v: "pval n d s = Some (v, r1)"
    and x: "skip_ws r1 = x # xs"
    and rest: "r = xs \<or> (\<exists>vs. pelems n d (skip_ws xs) = Some (vs, r))"
    by (auto split: option.splits list.splits if_splits)
  have "length r \<le> length xs"
    using rest "4.IH"(2) [OF v refl x] skip_ws_le [of xs] "4.prems" v x
    by (fastforce split: if_splits)
  then show ?case using "4.IH"(1) [OF v] skip_ws_Cons [OF x] by simp
next
  case (6 n d s)
  from "6.prems" obtain q qs k r1 y ys v r2 x xs where s: "s = q # qs" and q: "byte q = 34"
    and k: "pstr qs = Some (k, r1)" and y: "skip_ws r1 = y # ys" "y = CHR '':''"
    and v: "pval n d (skip_ws ys) = Some (v, r2)" and x: "skip_ws r2 = x # xs"
    and rest: "x \<noteq> CHR '','' \<and> r = xs \<or>
      x = CHR '','' \<and> (\<exists>vs. pmembers n d (skip_ws xs) = Some (vs, r))"
    by (auto split: option.splits list.splits if_splits)
  have "length r \<le> length xs"
    using rest
  proof
    assume "x = CHR '','' \<and> (\<exists>vs. pmembers n d (skip_ws xs) = Some (vs, r))"
    then obtain vs where "x = CHR '',''" "pmembers n d (skip_ws xs) = Some (vs, r)" by blast
    then have "length r < length (skip_ws xs)"
      using "6.IH"(2) [OF s q k refl y(1) y(2) v refl x] by blast
    then show ?thesis using skip_ws_le [of xs] by simp
  qed simp
  moreover have "length r2 < length (skip_ws ys)"
    by (rule "6.IH"(1) [OF s q k refl y(1) y(2) v])
  ultimately show ?case
    using skip_ws_Cons [OF x] skip_ws_le [of ys] skip_ws_Cons [OF y(1)] pstr_less [OF k] s by simp
qed simp_all

text \<open>
  Twice the length of the input is enough fuel: two amounts above it give the same answer. A value
  needs more than \<open>2 * length s\<close>, a list of elements or members one more.
\<close>

lemma pval_enough:
  "2 * length s < n \<Longrightarrow> 2 * length s < m \<Longrightarrow> pval n d s = pval m d s"
  "2 * length s + 1 < n \<Longrightarrow> 2 * length s + 1 < m \<Longrightarrow> pelems n d s = pelems m d s"
  "2 * length s + 1 < n \<Longrightarrow> 2 * length s + 1 < m \<Longrightarrow> pmembers n d s = pmembers m d s"
proof (induction n d s and n d s and n d s arbitrary: m and m and m
    rule: pval_pelems_pmembers.induct)
  case (2 n d s)
  from "2.prems"(2) obtain m' where m: "m = Suc m'" by (cases m) auto
  show ?case
  proof (cases s)
    case Nil
    then show ?thesis by (simp add: m)
  next
    case (Cons c cs)
    have len: "2 * length (x # xs) + 1 < n \<and> 2 * length (x # xs) + 1 < m'"
      if "skip_ws cs = x # xs" for x xs
      using that skip_ws_le [of cs] "2.prems" by (simp add: m Cons)
    have mem: "pmembers n (Suc d) (x # xs) = pmembers m' (Suc d) (x # xs)"
      if "c = CHR ''{''" "\<not> d \<ge> max_depth" "skip_ws cs = x # xs" "x \<noteq> CHR ''}''" for x xs
      using "2.IH"(1) [OF Cons that] len [OF that(3)] by blast
    have elt: "pelems n (Suc d) (x # xs) = pelems m' (Suc d) (x # xs)"
      if "c \<noteq> CHR ''{''" "c = CHR ''[''" "\<not> d \<ge> max_depth" "skip_ws cs = x # xs" "x \<noteq> CHR '']''" for x xs
      using "2.IH"(2) [OF Cons that] len [OF that(4)] by blast
    show ?thesis by (simp add: Cons m mem elt split: list.split)
  qed
next
  case (4 n d s)
  from "4.prems"(2) obtain m' where m: "m = Suc m'" by (cases m) auto
  have v: "pval n d s = pval m' d s" using "4.IH"(1) [of m'] "4.prems" m by simp
  show ?case
  proof (cases "pval n d s")
    case None
    with v m show ?thesis by simp
  next
    case (Some a)
    obtain j r where a: "a = (j, r)" by (cases a)
    have "length r < length s" using pval_less(1) Some a by blast
    then have len: "2 * length (skip_ws xs) + 1 < n \<and> 2 * length (skip_ws xs) + 1 < m'"
      if "skip_ws r = x # xs" for x xs
      using skip_ws_Cons [OF that] skip_ws_le [of xs] "4.prems" m by simp
    have rec: "pelems n d (skip_ws xs) = pelems m' d (skip_ws xs)"
      if "skip_ws r = x # xs" "x = CHR '',''" for x xs
      using "4.IH"(2) [OF Some a [symmetric] that] len [OF that(1)] by blast
    have "pval n d s = Some (j, r)" "pval m' d s = Some (j, r)" using v Some a by simp_all
    then show ?thesis by (simp add: m rec split: list.split)
  qed
next
  case (6 n d s)
  from "6.prems"(2) obtain m' where m: "m = Suc m'" by (cases m) auto
  show ?case
  proof (cases "\<exists>q qs k r y ys. s = q # qs \<and> byte q = 34 \<and> pstr qs = Some (k, r) \<and>
      skip_ws r = y # ys \<and> y = CHR '':''")
    case False
    then show ?thesis by (cases s) (auto simp: m split: list.split option.split)
  next
    case True
    then obtain q qs k r y ys where s: "s = q # qs" and q: "byte q = 34"
      and k: "pstr qs = Some (k, r)" and y: "skip_ws r = y # ys" "y = CHR '':''" by blast
    have ys: "length (skip_ws ys) < length s"
      using skip_ws_Cons [OF y(1)] skip_ws_le [of ys] pstr_less [OF k] s by simp
    then have v: "pval n d (skip_ws ys) = pval m' d (skip_ws ys)"
      using "6.IH"(1) [OF s q k refl y, of m'] "6.prems" m by simp
    have rec: "pmembers n d (skip_ws xs) = pmembers m' d (skip_ws xs)"
      if v': "pval n d (skip_ws ys) = Some (j, r')" and x: "skip_ws r' = x # xs" "x = CHR '',''"
      for j r' x xs
    proof (rule "6.IH"(2) [OF s q k refl y v' refl x])
      have "length (skip_ws xs) < length s"
        using pval_less(1) [OF v'] skip_ws_Cons [OF x(1)] skip_ws_le [of xs] ys by simp
      then show "2 * length (skip_ws xs) + 1 < n" "2 * length (skip_ws xs) + 1 < m'"
        using "6.prems" m by simp_all
    qed
    show ?thesis
    proof (cases "pval n d (skip_ws ys)")
      case None
      then have "pval m' d (skip_ws ys) = None" using v by simp
      with None show ?thesis by (simp add: s q k y m)
    next
      case (Some a)
      obtain w r' where a: "a = (w, r')" by (cases a)
      have "pval n d (skip_ws ys) = Some (w, r')" "pval m' d (skip_ws ys) = Some (w, r')"
        using v Some a by simp_all
      then show ?thesis by (simp add: s q k y m rec split: list.split)
    qed
  qed
qed simp_all

lemma json_parse_enough: "json_fuel s \<le> n \<Longrightarrow> json_parse_with n s = json_parse s"
  unfolding json_parse_def json_parse_with_def json_fuel_def
  using pval_enough(1) [of "skip_ws s" n "2 * length s + 2" 0] skip_ws_le [of s] by simp

subsection \<open>What is printed parses back\<close>

lemma utf8_len_range: "utf8_len s \<noteq> 0 \<Longrightarrow> 2 \<le> utf8_len s \<and> utf8_len s \<le> length s"
  by (induction s rule: utf8_len.induct) (auto split: if_splits)

lemma utf8_len_2: "utf8_len (a # b # t) = 2 \<Longrightarrow> utf8_len (a # b # t') = 2"
  by (cases t; cases t'; cases "tl t"; cases "tl t'") (auto split: if_splits)

lemma utf8_len_3: "utf8_len (a # b # c # t) = 3 \<Longrightarrow> utf8_len (a # b # c # t') = 3"
  by (cases t; cases t') (auto split: if_splits)

lemma utf8_len_4: "utf8_len (a # b # c # d # t) = 4 \<Longrightarrow> utf8_len (a # b # c # d # t') = 4"
  by (auto split: if_splits)

lemma utf8_len_values: "utf8_len s \<in> {0, 2, 3, 4}"
  by (induction s rule: utf8_len.induct) auto

lemma utf8_len_take:
  assumes "utf8_len s = n" "n \<noteq> 0"
  shows "utf8_len (take n s @ t) = n"
proof -
  have len: "n \<le> length s" using utf8_len_range [of s] assms by simp
  from utf8_len_values [of s] assms consider "n = 2" | "n = 3" | "n = 4" by auto
  then show ?thesis
  proof cases
    case 1
    with len obtain a b u where "s = a # b # u" by (auto simp: numeral_eq_Suc Suc_le_length_iff)
    with 1 assms utf8_len_2 show ?thesis by (simp add: numeral_eq_Suc)
  next
    case 2
    with len obtain a b c u where "s = a # b # c # u"
      by (auto simp: numeral_eq_Suc Suc_le_length_iff)
    with 2 assms utf8_len_3 show ?thesis by (simp add: numeral_eq_Suc)
  next
    case 3
    with len obtain a b c d u where "s = a # b # c # d # u"
      by (auto simp: numeral_eq_Suc Suc_le_length_iff)
    with 3 assms utf8_len_4 show ?thesis by (simp add: numeral_eq_Suc)
  qed
qed

lemma hex_val_digit [simp]: "d < 16 \<Longrightarrow> hex_val (hex_digit d) = Some d"
  by (simp add: hex_val_def hex_digit_def byte_in_def byte_def)

lemma hex_split:
  "4096 * (r div 4096) + 256 * (r div 256 mod 16) + 16 * (r div 16 mod 16) + r mod 16 = (r::nat)"
proof -
  have e: "r div 256 = r div 16 div 16" "r div 4096 = r div 16 div 16 div 16"
    by (simp_all add: div_mult2_eq [symmetric])
  show ?thesis unfolding e
    using div_mult_mod_eq [of r 16] div_mult_mod_eq [of "r div 16" 16]
      div_mult_mod_eq [of "r div 16 div 16" 16] by linarith
qed

lemma u4_hex:
  "r < 65536 \<Longrightarrow> u4 (hex_digit (r div 4096) # hex_digit (r div 256 mod 16) #
    hex_digit (r div 16 mod 16) # hex_digit (r mod 16) # t) = Some r"
  by (simp add: hex_split)

lemma byte_simps [simp]: "byte CHR 0x5C = 92" "byte CHR ''u'' = 117" "byte CHR 0x22 = 34"
  by (simp_all add: byte_def)

text \<open>A \<open>u\<close> escape that is not a surrogate decodes to its rune.\<close>

lemma pstr_u_escape:
  assumes "r < 65536" "\<not> is_surrogate r"
  shows "pstr (u_escape r @ t) = map_option (apfst (append (rune_bytes r))) (pstr t)"
  using assms by (simp add: u_escape_def u4_hex decode_unit_def del: u4.simps)

lemma append_single: "(@) [c] = (#) c"
  by (rule ext) simp

lemma pstr_quote_ascii:
  assumes "byte c < 128"
  shows "pstr (quote_ascii c @ t) = map_option (apfst (Cons c)) (pstr t)"
proof -
  have c: "c = char_of (byte c)" by (simp add: byte_def)
  have u: "pstr (u_escape (byte c) @ t) = map_option (apfst (Cons c)) (pstr t)"
    using assms c by (subst pstr_u_escape) (simp_all add: is_surrogate_def rune_bytes_def append_single)
  have e: "char_of n = c" if "byte c = n" for n using c that by simp
  show ?thesis
    using assms u e [of 8] e [of 9] e [of 10] e [of 12] e [of 13]
    by (auto simp: quote_ascii_def simple_escape_def byte_def)
qed

lemma line_sep_bytes:
  assumes "line_sep s = Some r"
  shows "r < 65536" "\<not> is_surrogate r" "take 3 s = rune_bytes r" "utf8_len s = 3"
proof -
  from assms have "length (map byte (take 3 s)) = 3"
    by (auto simp: line_sep_def simp del: length_map split: if_splits)
  then have "Suc (Suc (Suc 0)) \<le> length s" by (simp add: min_def split: if_splits)
  then obtain a b c u where s: "s = a # b # c # u" by (auto simp: Suc_le_length_iff)
  with assms have abc: "byte a = 226" "byte b = 128"
    "byte c = 168 \<and> r = 8232 \<or> byte c = 169 \<and> r = 8233"
    by (auto simp: line_sep_def split: if_splits)
  show "r < 65536" "\<not> is_surrogate r" using abc by (auto simp: is_surrogate_def)
  have "char_of (byte x) = x" for x by (simp add: byte_def)
  then have "a = char_of (226::nat)" "b = char_of (128::nat)"
    "c = char_of (168::nat) \<and> r = 8232 \<or> c = char_of (169::nat) \<and> r = 8233"
    using abc by metis+
  then show "take 3 s = rune_bytes r" by (auto simp: s rune_bytes_def)
  show "utf8_len s = 3" using abc by (cases u) (auto simp: s byte_in_def)
qed

lemma pstr_quote_body:
  "utf8_ok s \<Longrightarrow> pstr (quote_body s @ CHR 0x22 # t) = Some (s, t)"
proof (induction s rule: utf8_ok.induct)
  case 1
  then show ?case by simp
next
  case (2 c cs)
  show ?case
  proof (cases "byte c < 128")
    case True
    with 2 show ?thesis by (simp add: pstr_quote_ascii)
  next
    case False
    define n where "n = utf8_len (c # cs)"
    have n: "n \<noteq> 0" and ok: "utf8_ok (drop (n - 1) cs)"
      using "2.prems" False by (simp_all add: n_def Let_def)
    have rng: "2 \<le> n" "n - 1 \<le> length cs"
      using utf8_len_range [of "c # cs"] n by (auto simp: n_def)
    have IH: "pstr (quote_body (drop (n - 1) cs) @ CHR 0x22 # t) = Some (drop (n - 1) cs, t)"
      using "2.IH"(2) [OF False n_def] ok n by simp
    show ?thesis
    proof (cases "line_sep (c # cs)")
      case (Some r)
      note ls = line_sep_bytes [OF Some]
      have eq: "c # cs = rune_bytes r @ drop 2 cs" and n3: "n = 3"
        using ls append_take_drop_id [of 3 "c # cs"] by (simp_all add: n_def)
      have "quote_body (c # cs) = u_escape r @ quote_body (drop 2 cs)"
        using False n3 by (simp add: n_def [symmetric] Some)
      with IH n3 have "pstr (quote_body (c # cs) @ CHR 0x22 # t) = Some (rune_bytes r @ drop 2 cs, t)"
        by (simp add: pstr_u_escape ls(1,2))
      then show ?thesis by (simp only: eq)
    next
      case None
      have "utf8_len (take n (c # cs) @ u) = n" for u
        using utf8_len_take [of "c # cs" n u] n by (simp add: n_def)
      then have len: "utf8_len (c # take (n - Suc 0) cs @ u) = n" for u
        using n by (cases n) auto
      have "quote_body (c # cs) = c # take (n - 1) cs @ quote_body (drop (n - 1) cs)"
        using False n None by (simp add: n_def [symmetric])
      moreover have "pstr (c # take (n - 1) cs @ quote_body (drop (n - 1) cs) @ CHR 0x22 # t) =
          Some (c # take (n - 1) cs @ drop (n - 1) cs, t)"
        using False n rng IH by (simp add: len Let_def)
      ultimately show ?thesis by simp
    qed
  qed
qed

lemma json_quote_parse: "utf8_ok s \<Longrightarrow> json_quote s = CHR 0x22 # r \<Longrightarrow> pstr (r @ t) = Some (s, t)"
  by (auto simp: json_quote_def pstr_quote_body)

definition delim :: "string \<Rightarrow> bool" where
  "delim t \<longleftrightarrow> (case t of [] \<Rightarrow> True | c # _ \<Rightarrow> \<not> is_digit c \<and> c \<notin> {CHR ''.'', CHR ''e'', CHR ''E''})"

definition int_literal :: "string \<Rightarrow> bool" where
  "int_literal l \<longleftrightarrow> (case ParseInt l of Some i \<Rightarrow> l = FormatInt i | None \<Rightarrow> False)"

fun json_good :: "nat \<Rightarrow> json \<Rightarrow> bool" where
  "json_good d (JNum l) = int_literal l"
| "json_good d (JStr s) = utf8_ok s"
| "json_good d (JArr xs) = (d < max_depth \<and> (\<forall>x \<in> set xs. json_good (Suc d) x))"
| "json_good d (JObj ms) = (d < max_depth \<and> (\<forall>p \<in> set ms. utf8_ok (fst p) \<and> json_good (Suc d) (snd p)))"
| "json_good d _ = True"

lemma dec_nat_head: "dec_nat n = c # cs \<Longrightarrow> 0 < n \<Longrightarrow> c \<noteq> CHR ''0''"
proof (induction n arbitrary: cs rule: dec_nat.induct)
  case (1 n)
  show ?case
  proof (cases "n < 10")
    case True
    have "digit_char n \<noteq> CHR ''0''"
    proof
      assume "digit_char n = CHR ''0''"
      with digit_val_digit_char [OF True] have "n = 0" by (simp add: digit_val_def)
      with "1.prems"(2) show False by simp
    qed
    then show ?thesis using "1.prems" True by (simp add: dec_nat.simps [of n])
  next
    case False
    then obtain ds where "dec_nat (n div 10) = c # ds"
      using "1.prems"(1) by (cases "dec_nat (n div 10)") (simp_all add: dec_nat.simps [of n])
    with "1.IH" [OF False] False show ?thesis by simp
  qed
qed

lemma digits_span:
  assumes "\<And>c. c \<in> set ds \<Longrightarrow> is_digit c" "delim t"
  shows "takeWhile is_digit (ds @ t) = ds" "dropWhile is_digit (ds @ t) = t"
  using assms by (induction ds) (auto simp: delim_def split: list.splits)

lemma pint_dec_nat:
  assumes "delim t"
  shows "pint (dec_nat n @ t) = Some (dec_nat n, t)"
proof (cases "n = 0")
  case True
  moreover have "char_of (48::nat) = CHR ''0''" by (simp add: char_of_eq_iff)
  ultimately show ?thesis by (simp add: dec_nat.simps [of 0] digit_char_def pint_def)
next
  case False
  obtain c cs where eq: "dec_nat n = c # cs" by (cases "dec_nat n") auto
  have "pdigits (dec_nat n @ t) = Some (dec_nat n, t)"
    using digits_span [of "dec_nat n" t] assms dec_nat_digits by (auto simp: pdigits_def Let_def)
  then show ?thesis using dec_nat_head [OF eq] False by (simp add: pint_def eq)
qed

lemma delim_frac_exp: "delim t \<Longrightarrow> pfrac t = Some ([], t)" "delim t \<Longrightarrow> pexp t = Some ([], t)"
  by (auto simp: delim_def pfrac_def pexp_def split: list.splits)

lemma take1_minus: "dec_nat n = c # cs \<Longrightarrow> take 1 (dec_nat n @ t) \<noteq> ''-''"
  using dec_nat_no_sign(1) by (auto simp: eq_commute)

lemma pnum_FormatInt: "delim t \<Longrightarrow> pnum (FormatInt i @ t) = Some (FormatInt i, t)"
proof -
  assume t: "delim t"
  obtain c cs where "dec_nat (nat i) = c # cs" by (cases "dec_nat (nat i)") auto
  from take1_minus [OF this, of t] t show ?thesis
    by (auto simp: pnum_def Let_def FormatInt_def pint_dec_nat delim_frac_exp)
qed

lemma FormatInt_head: "FormatInt i = c # cs \<Longrightarrow> is_digit c \<or> c = CHR ''-''"
  by (auto simp: FormatInt_def intro: dec_nat_digits split: if_splits)
    (metis dec_nat_digits list.set_intros(1))

text \<open>The first byte of a printed value tells its kind, and is no white space.\<close>

lemma skip_ws_id [simp]: "\<not> is_ws c \<Longrightarrow> skip_ws (c # s) = c # s"
  by (simp add: skip_ws_def)

lemma json_print_head:
  assumes "json_good d j"
  obtains c cs where "json_print j = c # cs" "\<not> is_ws c" "c \<noteq> CHR '']''" "c \<noteq> CHR ''}''"
proof -
  have "\<exists>c cs. json_print j = c # cs \<and> \<not> is_ws c \<and> c \<noteq> CHR '']'' \<and> c \<noteq> CHR ''}''"
  proof (cases j)
    case (JNum l)
    with assms obtain i where "l = FormatInt i" by (auto simp: int_literal_def split: option.splits)
    moreover obtain c cs where cs: "FormatInt i = c # cs" by (cases "FormatInt i") auto
    moreover from FormatInt_head [OF cs] have "\<not> is_ws c" "c \<noteq> CHR '']''" "c \<noteq> CHR ''}''"
      by (auto simp: is_ws_def is_digit_def byte_def)
    ultimately show ?thesis using JNum by simp
  qed (auto simp: json_quote_def is_ws_def byte_def)
  then show thesis using that by blast
qed

lemma delim_punct [simp]:
  "delim (CHR '','' # t)" "delim (CHR '']'' # t)" "delim (CHR ''}'' # t)" "delim []"
  by (simp_all add: delim_def is_digit_def)

lemma not_ws_punct [simp]:
  "\<not> is_ws CHR '',''" "\<not> is_ws CHR '']''" "\<not> is_ws CHR ''}''" "\<not> is_ws CHR '':''" "\<not> is_ws CHR 0x22"
  by (simp_all add: is_ws_def byte_def)

abbreviation parses_at :: "nat \<Rightarrow> json \<Rightarrow> bool" where
  "parses_at d j \<equiv> \<forall>n t. delim t \<longrightarrow> 2 * length (json_print j @ t) < n \<longrightarrow>
     pval n d (json_print j @ t) = Some (j, t)"

lemma join_Cons: "join sep (x # xs) = x @ (if xs = [] then [] else sep @ join sep xs)"
  by (cases xs) auto

lemma skip_ws_print: "json_good d j \<Longrightarrow> skip_ws (json_print j @ t) = json_print j @ t"
  by (rule json_print_head [of d j]) auto

lemma pelems_print:
  "xs \<noteq> [] \<Longrightarrow> \<forall>x \<in> set xs. json_good d x \<and> parses_at d x \<Longrightarrow>
   2 * length (join '','' (map json_print xs) @ CHR '']'' # t) + 1 < n \<Longrightarrow>
   pelems n d (join '','' (map json_print xs) @ CHR '']'' # t) = Some (xs, t)"
proof (induction xs arbitrary: n)
  case (Cons x xs)
  from Cons.prems(3) obtain m where n: "n = Suc m" by (cases n) auto
  show ?case
  proof (cases "xs = []")
    case True
    with Cons.prems have "pval m d (json_print x @ CHR '']'' # t) = Some (x, CHR '']'' # t)"
      by (simp add: n)
    with True show ?thesis by (simp add: n)
  next
    case False
    let ?r = "join '','' (map json_print xs) @ CHR '']'' # t"
    have v: "pval m d (json_print x @ CHR '','' # ?r) = Some (x, CHR '','' # ?r)"
      using Cons.prems False by (simp add: n join_Cons)
    obtain y ys where xs: "xs = y # ys" using False by (cases xs) auto
    have "json_good d y" using Cons.prems(2) by (simp add: xs)
    then have "skip_ws ?r = ?r" by (simp add: xs join_Cons skip_ws_print)
    moreover have "pelems m d ?r = Some (xs, t)"
      using Cons.IH [OF False] Cons.prems False by (simp add: n join_Cons)
    ultimately show ?thesis using v False by (simp add: n join_Cons)
  qed
qed simp

abbreviation print_member :: "string \<times> json \<Rightarrow> string" where
  "print_member \<equiv> (\<lambda>(k, v). json_quote k @ '':'' @ json_print v)"

lemma pmembers_print:
  "ms \<noteq> [] \<Longrightarrow> \<forall>p \<in> set ms. utf8_ok (fst p) \<and> json_good d (snd p) \<and> parses_at d (snd p) \<Longrightarrow>
   2 * length (join '','' (map print_member ms) @ CHR ''}'' # t) + 1 < n \<Longrightarrow>
   pmembers n d (join '','' (map print_member ms) @ CHR ''}'' # t) = Some (ms, t)"
proof (induction ms arbitrary: n)
  case (Cons p ms)
  obtain k v where p: "p = (k, v)" by (cases p)
  from Cons.prems(3) obtain m where n: "n = Suc m" by (cases n) auto
  have good: "utf8_ok k" "json_good d v" "parses_at d v" using Cons.prems(2) by (simp_all add: p)
  have key: "pstr (quote_body k @ CHR 0x22 # u) = Some (k, u)" for u
    by (rule pstr_quote_body [OF good(1)])
  have ws: "skip_ws (json_print v @ u) = json_print v @ u" for u
    by (rule skip_ws_print [OF good(2)])
  show ?case
  proof (cases "ms = []")
    case True
    with Cons.prems good(3) have "pval m d (json_print v @ CHR ''}'' # t) = Some (v, CHR ''}'' # t)"
      by (simp add: n p json_quote_def)
    with True show ?thesis by (simp add: n p json_quote_def key ws)
  next
    case False
    let ?r = "join '','' (map print_member ms) @ CHR ''}'' # t"
    have val: "pval m d (json_print v @ CHR '','' # ?r) = Some (v, CHR '','' # ?r)"
      using Cons.prems False good(3) by (simp add: n p join_Cons json_quote_def)
    obtain q qs where ms: "ms = q # qs" using False by (cases ms) auto
    have "skip_ws ?r = ?r" by (cases q) (simp add: ms join_Cons json_quote_def)
    moreover have "pmembers m d ?r = Some (ms, t)"
      using Cons.IH [OF False] Cons.prems False by (simp add: n p join_Cons)
    ultimately show ?thesis using val False by (simp add: n p join_Cons json_quote_def key ws)
  qed
qed simp

lemma pval_literals:
  assumes "0 < n"
  shows "pval n d (''null'' @ t) = Some (JNull, t)" "pval n d (''true'' @ t) = Some (JBool True, t)"
    "pval n d (''false'' @ t) = Some (JBool False, t)"
    "utf8_ok s \<Longrightarrow> pval n d (CHR 0x22 # quote_body s @ CHR 0x22 # t) = Some (JStr s, t)"
  using assms by (auto simp: gr0_conv_Suc pword_def byte_def pstr_quote_body)

lemma pval_arr:
  "d < max_depth \<Longrightarrow> skip_ws r = r \<Longrightarrow> r = c # cs \<Longrightarrow> c \<noteq> CHR '']'' \<Longrightarrow>
   pval (Suc m) d (CHR ''['' # r) = map_option (apfst JArr) (pelems m (Suc d) r)"
  by simp

lemma pval_obj:
  "d < max_depth \<Longrightarrow> skip_ws r = r \<Longrightarrow> r = c # cs \<Longrightarrow> c \<noteq> CHR ''}'' \<Longrightarrow>
   pval (Suc m) d (CHR ''{'' # r) = map_option (apfst JObj) (pmembers m (Suc d) r)"
  by simp

lemma json_print_parses: "json_good d j \<Longrightarrow> parses_at d j"
proof (induction j arbitrary: d)
  case (JNum l)
  then obtain i where l: "l = FormatInt i" by (auto simp: int_literal_def split: option.splits)
  show ?case
  proof (intro allI impI)
    fix n t
    assume t: "delim t" and n: "2 * length (json_print (JNum l) @ t) < n"
    obtain c cs where cs: "FormatInt i = c # cs" by (cases "FormatInt i") auto
    obtain m where m: "n = Suc m" using n by (cases n) auto
    have "byte c \<noteq> 34 \<and> c \<noteq> CHR ''{'' \<and> c \<noteq> CHR ''['' \<and> c \<noteq> CHR ''t'' \<and> c \<noteq> CHR ''f'' \<and> c \<noteq> CHR ''n''"
      using FormatInt_head [OF cs] by (auto simp: is_digit_def byte_def)
    then show "pval n d (json_print (JNum l) @ t) = Some (JNum l, t)"
      using pnum_FormatInt [OF t, of i] by (simp add: m l cs)
  qed
next
  case (JArr xs)
  then have IH: "\<forall>x \<in> set xs. json_good (Suc d) x \<and> parses_at (Suc d) x" and d: "d < max_depth"
    by auto
  show ?case
  proof (intro allI impI)
    fix n t
    assume "delim t" and n: "2 * length (json_print (JArr xs) @ t) < n"
    obtain m where m: "n = Suc m" using n by (cases n) auto
    show "pval n d (json_print (JArr xs) @ t) = Some (JArr xs, t)"
    proof (cases xs)
      case Nil
      then show ?thesis using d by (simp add: m)
    next
      case (Cons y ys)
      let ?r = "join '','' (map json_print xs) @ CHR '']'' # t"
      have "json_good (Suc d) y" using IH Cons by simp
      then obtain c cs where c: "json_print y = c # cs" "\<not> is_ws c" "c \<noteq> CHR '']''"
        by (rule json_print_head)
      then obtain cs' where r: "?r = c # cs'" by (simp add: Cons join_Cons)
      have "pelems m (Suc d) ?r = Some (xs, t)"
        using IH n Cons by (intro pelems_print) (simp_all add: m)
      then show ?thesis using c r d pval_arr [of d ?r c cs' m] by (simp add: m)
    qed
  qed
next
  case (JObj ms)
  then have IH: "\<forall>p \<in> set ms. utf8_ok (fst p) \<and> json_good (Suc d) (snd p) \<and> parses_at (Suc d) (snd p)"
    and d: "d < max_depth" by force+
  show ?case
  proof (intro allI impI)
    fix n t
    assume "delim t" and n: "2 * length (json_print (JObj ms) @ t) < n"
    obtain m where m: "n = Suc m" using n by (cases n) auto
    show "pval n d (json_print (JObj ms) @ t) = Some (JObj ms, t)"
    proof (cases ms)
      case Nil
      then show ?thesis using d by (simp add: m)
    next
      case (Cons q qs)
      let ?r = "join '','' (map print_member ms) @ CHR ''}'' # t"
      obtain cs where r: "?r = CHR 0x22 # cs" by (cases q) (simp add: Cons join_Cons json_quote_def)
      have "pmembers m (Suc d) ?r = Some (ms, t)"
        using IH n Cons by (intro pmembers_print) (simp_all add: m)
      then show ?thesis using r d pval_obj [of d ?r "CHR 0x22" cs m] by (simp add: m)
    qed
  qed
qed (use pval_literals in \<open>auto simp: json_quote_def\<close>)

lemma json_print_parse: "json_good 0 j \<Longrightarrow> json_parse (json_print j) = Some j"
proof -
  assume good: "json_good 0 j"
  have "skip_ws (json_print j) = json_print j" using skip_ws_print [OF good, of "[]"] by simp
  moreover have "pval (json_fuel (json_print j)) 0 (json_print j) = Some (j, [])"
    using json_print_parses [OF good, rule_format, of "[]" "json_fuel (json_print j)"]
    by (simp add: json_fuel_def del: pval.simps)
  ultimately show ?thesis
    by (simp add: json_parse_def json_parse_with_def skip_ws_def)
qed

interpretation json_text: codec json_print json_parse "json_good 0"
  by unfold_locales (rule json_print_parse)

subsection \<open>Decoding into Go values\<close>

text \<open>
  A decoder takes the tree and the value decoded into, and fails where
  \<^verbatim>\<open>json.Unmarshal\<close> reports a type error. \<^verbatim>\<open>null\<close> leaves numbers and strings as they
  are. Object keys match a field name exactly or, failing that, up to case folding; for the ASCII
  names used here that is ASCII case plus the two runes that fold to \<^verbatim>\<open>S\<close> and
  \<^verbatim>\<open>K\<close>.
\<close>

definition dec_int :: "(int \<Rightarrow> bool) \<Rightarrow> json \<Rightarrow> int \<Rightarrow> int option" where
  "dec_int fits j old =
     (case j of
        JNull \<Rightarrow> Some old
      | JNum l \<Rightarrow> (case ParseInt l of Some i \<Rightarrow> (if fits i then Some i else None) | None \<Rightarrow> None)
      | _ \<Rightarrow> None)"

definition dec_string :: "json \<Rightarrow> string \<Rightarrow> string option" where
  "dec_string j old = (case j of JNull \<Rightarrow> Some old | JStr s \<Rightarrow> Some s | _ \<Rightarrow> None)"

definition dec_ptr_int :: "json \<Rightarrow> int option \<Rightarrow> int option option" where
  "dec_ptr_int j old =
     (case j of
        JNull \<Rightarrow> Some None
      | _ \<Rightarrow> map_option Some (dec_int in_int64 j (case old of None \<Rightarrow> 0 | Some i \<Rightarrow> i)))"

fun dec_elems :: "(json \<Rightarrow> 'a \<Rightarrow> 'a option) \<Rightarrow> 'a \<Rightarrow> json list \<Rightarrow> 'a list \<Rightarrow> 'a list option" where
  "dec_elems dec zero [] old = Some []"
| "dec_elems dec zero (j # js) old =
     (case dec j (case old of [] \<Rightarrow> zero | x # _ \<Rightarrow> x) of
        None \<Rightarrow> None
      | Some x \<Rightarrow> map_option (Cons x) (dec_elems dec zero js (tl old)))"

definition dec_slice :: "(json \<Rightarrow> 'a \<Rightarrow> 'a option) \<Rightarrow> 'a \<Rightarrow> json \<Rightarrow> 'a list \<Rightarrow> 'a list option" where
  "dec_slice dec zero j old =
     (case j of JNull \<Rightarrow> Some [] | JArr js \<Rightarrow> dec_elems dec zero js old | _ \<Rightarrow> None)"

definition ascii_upper :: "char \<Rightarrow> char" where
  "ascii_upper c = (if byte_in 97 122 c then char_of (byte c - 32) else c)"

function fold_name :: "string \<Rightarrow> string" where
  "fold_name [] = []"
| "fold_name (c # cs) =
     (if map byte (take 2 (c # cs)) = [197, 191] then CHR ''S'' # fold_name (drop 1 cs)
      else if map byte (take 3 (c # cs)) = [226, 132, 170] then CHR ''K'' # fold_name (drop 2 cs)
      else ascii_upper c # fold_name cs)"
  by pat_completeness auto
termination by (relation "measure length") auto

definition match_field :: "string list \<Rightarrow> string \<Rightarrow> string option" where
  "match_field names key =
     (if key \<in> set names then Some key
      else find (\<lambda>n. fold_name n = fold_name key) names)"

text \<open>The members of an object in order; unknown keys are skipped.\<close>

fun dec_members ::
    "string list \<Rightarrow> (string \<Rightarrow> json \<Rightarrow> 'a \<Rightarrow> 'a option) \<Rightarrow> (string \<times> json) list \<Rightarrow> 'a \<Rightarrow> 'a option" where
  "dec_members names set_field [] x = Some x"
| "dec_members names set_field ((k, j) # ms) x =
     (case match_field names k of
        None \<Rightarrow> dec_members names set_field ms x
      | Some n \<Rightarrow>
          (case set_field n j x of None \<Rightarrow> None | Some x' \<Rightarrow> dec_members names set_field ms x'))"

definition dec_struct ::
    "string list \<Rightarrow> (string \<Rightarrow> json \<Rightarrow> 'a \<Rightarrow> 'a option) \<Rightarrow> json \<Rightarrow> 'a \<Rightarrow> 'a option" where
  "dec_struct names set_field j old =
     (case j of JNull \<Rightarrow> Some old | JObj ms \<Rightarrow> dec_members names set_field ms old | _ \<Rightarrow> None)"

text \<open>\<^verbatim>\<open>map[string]string\<close>: later members replace earlier ones, \<^verbatim>\<open>null\<close> gives the empty string.\<close>

fun dec_string_members :: "(string \<times> json) list \<Rightarrow> (string, string) gomap \<Rightarrow> (string, string) gomap option" where
  "dec_string_members [] m = Some m"
| "dec_string_members ((k, j) # ms) m =
     (case dec_string j [] of None \<Rightarrow> None | Some v \<Rightarrow> dec_string_members ms (AList.update k v m))"

definition dec_string_map :: "json \<Rightarrow> (string, string) gomap option" where
  "dec_string_map j =
     (case j of JNull \<Rightarrow> Some [] | JObj ms \<Rightarrow> dec_string_members ms [] | _ \<Rightarrow> None)"

text \<open>
  \<^verbatim>\<open>any\<close> values: a number must fit in a \<^verbatim>\<open>float64\<close>, that is, its absolute value
  must round below \<open>2 ^ 1024\<close>.
\<close>

definition dec_exponent :: "string \<Rightarrow> int" where
  "dec_exponent e =
     (case e of
        [] \<Rightarrow> 0
      | _ # xs \<Rightarrow>
          (let n = (case parse_nat (if take 1 xs = ''+'' \<or> take 1 xs = ''-'' then tl xs else xs) of None \<Rightarrow> 0 | Some n \<Rightarrow> n) in
           if take 1 xs = ''-'' then - int n else int n))"

definition float64_fits :: "string \<Rightarrow> bool" where
  "float64_fits l =
     (let s = (if take 1 l = ''-'' then tl l else l);
          ip = takeWhile is_digit s; r = dropWhile is_digit s;
          fp = (if take 1 r = ''.'' then takeWhile is_digit (tl r) else []);
          r' = (if take 1 r = ''.'' then dropWhile is_digit (tl r) else r);
          m = (case parse_digits 0 (ip @ fp) of None \<Rightarrow> 0 | Some n \<Rightarrow> n);
          e = dec_exponent r' - int (length fp);
          bound = 2 ^ 1024 - 2 ^ 970
      in if 0 \<le> e then m * 10 ^ nat e < bound else m < bound * 10 ^ nat (- e))"

fun any_ok :: "json \<Rightarrow> bool" where
  "any_ok (JNum l) = float64_fits l"
| "any_ok (JArr js) = list_all any_ok js"
| "any_ok (JObj ms) = list_all (\<lambda>p. any_ok (snd p)) ms"
| "any_ok _ = True"

end
