(* ===== verification/DB_Models.thy ===== *)
theory DB_Models
  imports Go_Json
begin

text \<open>
  \<^verbatim>\<open>internal/db/models.go\<close>: the rows that the PostgreSQL client returns, and the JSON form
  of per-column statistics (\<^verbatim>\<open>marshalColumnStats\<close> and \<^verbatim>\<open>unmarshalColumnStats\<close> of
  \<^verbatim>\<open>pg_client.go\<close>). A nil slice and an empty one are both \<open>[]\<close> where the code only looks at
  the length; where it compares with nil, the result is an option.
\<close>

record ColumnStats =
  cs_ColumnID :: int32
  cs_NullCount :: int64
  cs_NaNCount :: int64
  cs_ValueCount :: int64
  cs_MinValue :: string
  cs_MaxValue :: string
  cs_SizeBytes :: int64

record PartitionRow =
  pr_PartitionID :: int64
  pr_TableID :: int64
  pr_SnapshotID :: int64
  pr_PartitionKey :: string
  pr_DataFilePath :: string
  pr_FileFormat :: string
  pr_RowCount :: int64
  pr_SizeBytes :: int64
  pr_ColumnStats :: "ColumnStats list"

record TableRow =
  tr_TableID :: int64
  tr_TableName :: string
  tr_SchemaJSON :: string
  tr_SchemaVersion :: int32
  tr_PartitionSpec :: string
  tr_PartitionSpecVersion :: int32
  tr_CurrentSnapshotID :: int64
  tr_PropertiesJSON :: string

record PartitionSpecRow =
  psr_PartitionSpecID :: int64
  psr_TableID :: int64
  psr_SpecVersion :: int32
  psr_SpecJSON :: string
  psr_ChangedAt :: string
  psr_ChangeSummary :: string

record SnapshotRow =
  sr_SnapshotID :: int64
  sr_TableID :: int64
  sr_ParentSnapshotID :: int64
  sr_Operation :: string
  sr_AddedFilesCount :: int32
  sr_DeletedFilesCount :: int32
  sr_CommittedAt :: string

record ManifestFileRow =
  mf_ManifestFileID :: int64
  mf_TableID :: int64
  mf_SnapshotID :: int64
  mf_ManifestPath :: string
  mf_PartitionSpecID :: int32
  mf_AddedFilesCount :: int32
  mf_DeletedFilesCount :: int32
  mf_AddedRowsCount :: int64
  mf_DeletedRowsCount :: int64
  mf_PartitionSummaries :: string

record ManifestListRow =
  ml_ManifestListID :: int64
  ml_SnapshotID :: int64
  ml_TableID :: int64
  ml_ManifestCount :: int32

subsection \<open>Column statistics as JSON\<close>

definition zero_ColumnStats :: ColumnStats where
  "zero_ColumnStats =
     \<lparr>cs_ColumnID = 0, cs_NullCount = 0, cs_NaNCount = 0, cs_ValueCount = 0,
      cs_MinValue = [], cs_MaxValue = [], cs_SizeBytes = 0\<rparr>"

definition enc_ColumnStats :: "ColumnStats \<Rightarrow> json" where
  "enc_ColumnStats c =
     JObj ([(''column_id'', JNum (FormatInt (cs_ColumnID c))),
            (''null_count'', JNum (FormatInt (cs_NullCount c))),
            (''nan_count'', JNum (FormatInt (cs_NaNCount c))),
            (''value_count'', JNum (FormatInt (cs_ValueCount c)))] @
           (if cs_MinValue c = [] then [] else [(''min_value'', JStr (cs_MinValue c))]) @
           (if cs_MaxValue c = [] then [] else [(''max_value'', JStr (cs_MaxValue c))]) @
           [(''size_bytes'', JNum (FormatInt (cs_SizeBytes c)))])"

definition ColumnStats_names :: "string list" where
  "ColumnStats_names =
     [''column_id'', ''null_count'', ''nan_count'', ''value_count'', ''min_value'', ''max_value'',
      ''size_bytes'']"

definition set_ColumnStats :: "string \<Rightarrow> json \<Rightarrow> ColumnStats \<Rightarrow> ColumnStats option" where
  "set_ColumnStats n j c =
     (if n = ''column_id'' then
        map_option (\<lambda>i. c\<lparr>cs_ColumnID := i\<rparr>) (dec_int in_int32 j (cs_ColumnID c))
      else if n = ''null_count'' then
        map_option (\<lambda>i. c\<lparr>cs_NullCount := i\<rparr>) (dec_int in_int64 j (cs_NullCount c))
      else if n = ''nan_count'' then
        map_option (\<lambda>i. c\<lparr>cs_NaNCount := i\<rparr>) (dec_int in_int64 j (cs_NaNCount c))
      else if n = ''value_count'' then
        map_option (\<lambda>i. c\<lparr>cs_ValueCount := i\<rparr>) (dec_int in_int64 j (cs_ValueCount c))
      else if n = ''min_value'' then
        map_option (\<lambda>v. c\<lparr>cs_MinValue := v\<rparr>) (dec_string j (cs_MinValue c))
      else if n = ''max_value'' then
        map_option (\<lambda>v. c\<lparr>cs_MaxValue := v\<rparr>) (dec_string j (cs_MaxValue c))
      else if n = ''size_bytes'' then
        map_option (\<lambda>i. c\<lparr>cs_SizeBytes := i\<rparr>) (dec_int in_int64 j (cs_SizeBytes c))
      else Some c)"

definition dec_ColumnStats :: "json \<Rightarrow> ColumnStats \<Rightarrow> ColumnStats option" where
  "dec_ColumnStats = dec_struct ColumnStats_names set_ColumnStats"

definition marshalColumnStats :: "ColumnStats list \<Rightarrow> string" where
  "marshalColumnStats stats =
     (if stats = [] then ''[]'' else json_print (JArr (map enc_ColumnStats stats)))"

definition unmarshalColumnStats :: "string \<Rightarrow> ColumnStats list" where
  "unmarshalColumnStats raw =
     (if raw = [] \<or> raw = ''null'' \<or> raw = ''{}'' then []
      else (case json_parse raw of
              None \<Rightarrow> []
            | Some j \<Rightarrow>
                (case dec_slice dec_ColumnStats zero_ColumnStats j [] of
                   None \<Rightarrow> []
                 | Some stats \<Rightarrow> stats)))"

subsection \<open>Round trip\<close>

text \<open>Statistics whose counts fit their columns and whose bounds are valid UTF-8.\<close>

definition ColumnStats_ok :: "ColumnStats \<Rightarrow> bool" where
  "ColumnStats_ok c \<longleftrightarrow>
     in_int32 (cs_ColumnID c) \<and> in_int64 (cs_NullCount c) \<and> in_int64 (cs_NaNCount c) \<and>
     in_int64 (cs_ValueCount c) \<and> in_int64 (cs_SizeBytes c) \<and>
     utf8_ok (cs_MinValue c) \<and> utf8_ok (cs_MaxValue c)"

lemma in_int32_64: "in_int32 i \<Longrightarrow> in_int64 i"
  by (auto simp: in_int32_def in_int64_def)

lemma int_literal_FormatInt [simp]: "in_int64 i \<Longrightarrow> int_literal (FormatInt i)"
  by (simp add: int_literal_def)

lemma utf8_ok_ascii: "\<forall>c \<in> set s. byte c < 128 \<Longrightarrow> utf8_ok s"
  by (induction s) auto

lemma enc_ColumnStats_good: "ColumnStats_ok c \<Longrightarrow> d < max_depth \<Longrightarrow> json_good d (enc_ColumnStats c)"
  by (auto simp: enc_ColumnStats_def ColumnStats_ok_def in_int32_64 byte_def)

lemma dec_int_FormatInt [simp]:
  "in_int64 i \<Longrightarrow> fits i \<Longrightarrow> dec_int fits (JNum (FormatInt i)) old = Some i"
  by (simp add: dec_int_def)

lemma dec_string_JStr [simp]: "dec_string (JStr s) old = Some s"
  by (simp add: dec_string_def)

lemma match_ColumnStats [simp]: "n \<in> set ColumnStats_names \<Longrightarrow> match_field ColumnStats_names n = Some n"
  by (simp add: match_field_def)

lemma dec_enc_ColumnStats:
  assumes "ColumnStats_ok c"
  shows "dec_ColumnStats (enc_ColumnStats c) zero_ColumnStats = Some c"
proof -
  have m: "match_field ColumnStats_names n = Some n"
    if "n \<in> {''column_id'', ''null_count'', ''nan_count'', ''value_count'', ''min_value'',
      ''max_value'', ''size_bytes''}" for n
    using that by (intro match_ColumnStats) (auto simp: ColumnStats_names_def)
  show ?thesis
    using assms by (cases c)
      (simp add: dec_ColumnStats_def dec_struct_def enc_ColumnStats_def m set_ColumnStats_def
        zero_ColumnStats_def ColumnStats_ok_def in_int32_64)
qed

lemma dec_elems_map:
  "(\<And>x. x \<in> set xs \<Longrightarrow> dec (enc x) zero = Some x) \<Longrightarrow> dec_elems dec zero (map enc xs) [] = Some xs"
  by (induction xs) auto

lemma columnStats_roundtrip:
  assumes "\<forall>c \<in> set stats. ColumnStats_ok c"
  shows "unmarshalColumnStats (marshalColumnStats stats) = stats"
proof (cases "stats = []")
  case True
  have "json_parse ''[]'' = Some (JArr [])"
    using json_print_parse [of "JArr []"] by (simp add: max_depth_def)
  with True show ?thesis by (simp add: marshalColumnStats_def unmarshalColumnStats_def dec_slice_def)
next
  case False
  let ?j = "JArr (map enc_ColumnStats stats)"
  have "json_good 0 ?j" using assms by (auto intro: enc_ColumnStats_good simp: max_depth_def)
  then have "json_parse (json_print ?j) = Some ?j" by (rule json_print_parse)
  moreover have "dec_slice dec_ColumnStats zero_ColumnStats ?j [] = Some stats"
    using assms by (simp add: dec_slice_def dec_elems_map dec_enc_ColumnStats)
  ultimately show ?thesis
    using False by (simp add: marshalColumnStats_def unmarshalColumnStats_def)
qed

end
