(* ===== verification/PG_Store.thy ===== *)
theory PG_Store
  imports DB_Models MVCC_Manager
begin

text \<open>
  The PostgreSQL side of \<^verbatim>\<open>internal/db/pg_client.go\<close>: the tables of
  \<^verbatim>\<open>scripts/init_db.sql\<close>, and one definition for each SQL statement the Go code sends.
  A column that no statement of the program reads or writes is left out, and a nullable column that
  every insert of the program fills is modelled without NULL.

  A statement is a function of the time, the database and the sequences. It fails as a whole or
  returns its result with the new database; the sequences of the \<^verbatim>\<open>BIGSERIAL\<close> columns advance
  even when it fails. What PostgreSQL does beyond the statements is the parameter \<open>pg_env\<close>: which
  calls fail (before or after taking effect), the clock, the cast to \<^verbatim>\<open>jsonb\<close> and the text
  forms of timestamps and errors.
\<close>

subsection \<open>Tables\<close>

record table_rec =
  t_id :: int64
  t_name :: string
  t_schema :: string
  t_schema_version :: int32
  t_spec :: string
  t_spec_version :: int32
  t_snapshot :: int64
  t_properties :: string
  t_updated_at :: time
  t_deleted :: bool

record history_rec =
  h_id :: int64
  h_table :: int64
  h_version :: int32
  h_schema :: string
  h_changed_at :: time
  h_summary :: string

record snapshot_rec =
  s_id :: int64
  s_table :: int64
  s_parent :: int64
  s_committed_at :: time
  s_operation :: string
  s_added :: int32
  s_deleted :: int32

record partition_rec =
  p_id :: int64
  p_table :: int64
  p_snapshot :: int64
  p_key :: string
  p_path :: string
  p_format :: string
  p_rows :: int64
  p_bytes :: int64
  p_stats :: string
  p_deleted :: bool
  p_deleted_snapshot :: "int64 option"

record txn_rec =
  x_id :: int64
  x_client :: string
  x_table :: int64
  x_read_snapshot :: int64
  x_status :: string
  x_isolation :: string
  x_committed_at :: "time option"

record spec_rec =
  g_id :: int64
  g_table :: int64
  g_version :: int32
  g_spec :: string
  g_changed_at :: time
  g_summary :: string

record database =
  d_tables :: "table_rec list"
  d_history :: "history_rec list"
  d_snapshots :: "snapshot_rec list"
  d_partitions :: "partition_rec list"
  d_txns :: "txn_rec list"
  d_mfiles :: "ManifestFileRow list"
  d_mlists :: "ManifestListRow list"
  d_specs :: "spec_rec list"

text \<open>The last value each sequence has given out.\<close>

record sequences =
  q_table :: int64
  q_history :: int64
  q_snapshot :: int64
  q_partition :: int64
  q_txn :: int64
  q_mfile :: int64
  q_mlist :: int64
  q_spec :: int64

definition empty_db :: database where
  "empty_db = \<lparr>d_tables = [], d_history = [], d_snapshots = [], d_partitions = [], d_txns = [],
     d_mfiles = [], d_mlists = [], d_specs = []\<rparr>"

definition empty_seq :: sequences where
  "empty_seq = \<lparr>q_table = 0, q_history = 0, q_snapshot = 0, q_partition = 0, q_txn = 0,
     q_mfile = 0, q_mlist = 0, q_spec = 0\<rparr>"

subsection \<open>Errors, faults and the environment\<close>

datatype pg_error =
  ConnError
| NoRows
| TxClosed
| TxAborted
| InvalidText
| InvalidJson
| NegativeOffset
| SequenceLimit
| UniqueViolation
| ForeignKeyViolation

datatype fault = NoFault | FailBefore | FailAfter

record pg_env =
  pe_fault :: "nat \<Rightarrow> fault"
  pe_clock :: "nat \<Rightarrow> time"
  pe_jsonb :: "string \<Rightarrow> string option"
  pe_timestamp :: "time \<Rightarrow> string"
  pe_error :: "pg_error \<Rightarrow> string"

type_synonym 'a stmt = "time \<Rightarrow> database \<Rightarrow> sequences \<Rightarrow> (pg_error + 'a \<times> database) \<times> sequences"

text \<open>A \<^verbatim>\<open>text\<close> value is valid UTF-8 without the byte 0.\<close>

definition pg_text :: "string \<Rightarrow> bool" where
  "pg_text s \<longleftrightarrow> CHR 0x00 \<notin> set s \<and> utf8_ok s"

definition nextval :: "int64 \<Rightarrow> int64 option" where
  "nextval n = (if n < 2 ^ 63 - 1 then Some (n + 1) else None)"

subsection \<open>Queries\<close>

definition query :: "(database \<Rightarrow> 'a) \<Rightarrow> 'a stmt" where
  "query f now db sq = (Inr (f db, db), sq)"

definition update :: "(time \<Rightarrow> database \<Rightarrow> 'a \<times> database) \<Rightarrow> 'a stmt" where
  "update f now db sq = (Inr (f now db), sq)"

text \<open>\<^verbatim>\<open>WHERE table_name = $1 AND is_deleted = false\<close>\<close>

definition is_live :: "string \<Rightarrow> table_rec \<Rightarrow> bool" where
  "is_live name t \<longleftrightarrow> t_name t = name \<and> \<not> t_deleted t"

definition live_table :: "string \<Rightarrow> database \<Rightarrow> table_rec option" where
  "live_table name db = find (is_live name) (d_tables db)"

definition table_row :: "table_rec \<Rightarrow> TableRow" where
  "table_row t =
     \<lparr>tr_TableID = t_id t, tr_TableName = t_name t, tr_SchemaJSON = t_schema t,
      tr_SchemaVersion = t_schema_version t, tr_PartitionSpec = t_spec t,
      tr_PartitionSpecVersion = t_spec_version t, tr_CurrentSnapshotID = t_snapshot t,
      tr_PropertiesJSON = t_properties t\<rparr>"

definition sql_select_table :: "string \<Rightarrow> TableRow option stmt" where
  "sql_select_table name = query (\<lambda>db. map_option table_row (live_table name db))"

definition sql_select_table_id :: "string \<Rightarrow> int64 option stmt" where
  "sql_select_table_id name = query (\<lambda>db. map_option t_id (live_table name db))"

definition sql_select_snapshot_pointer :: "string \<Rightarrow> int64 option stmt" where
  "sql_select_snapshot_pointer name = query (\<lambda>db. map_option t_snapshot (live_table name db))"

definition sql_select_spec_version :: "string \<Rightarrow> int32 option stmt" where
  "sql_select_spec_version name = query (\<lambda>db. map_option t_spec_version (live_table name db))"

text \<open>\<^verbatim>\<open>ORDER BY table_id LIMIT $1 OFFSET $2\<close>\<close>

definition sql_list_tables :: "int32 \<Rightarrow> int64 \<Rightarrow> TableRow list stmt" where
  "sql_list_tables limit offset now db sq =
     (if offset < 0 then (Inl NegativeOffset, sq)
      else query (\<lambda>db. map table_row
             (take (nat limit) (drop (nat offset)
               (sort_key t_id (filter (\<lambda>t. \<not> t_deleted t) (d_tables db)))))) now db sq)"

text \<open>The visibility condition of the three partition queries.\<close>

definition visible :: "int64 \<Rightarrow> int64 \<Rightarrow> partition_rec \<Rightarrow> bool" where
  "visible tid snap p \<longleftrightarrow>
     p_table p = tid \<and> p_snapshot p \<le> snap \<and>
     (\<not> p_deleted p \<or> (case p_deleted_snapshot p of None \<Rightarrow> False | Some d \<Rightarrow> d > snap))"

definition sql_partitions :: "int64 \<Rightarrow> int64 \<Rightarrow> partition_rec list stmt" where
  "sql_partitions tid snap =
     query (\<lambda>db. sort_key p_id (filter (visible tid snap) (d_partitions db)))"

definition sql_partitions_paged ::
    "int64 \<Rightarrow> int64 \<Rightarrow> int64 \<Rightarrow> int32 \<Rightarrow> partition_rec list stmt" where
  "sql_partitions_paged tid snap last_id limit =
     query (\<lambda>db. take (nat limit)
       (sort_key p_id (filter (\<lambda>p. visible tid snap p \<and> p_id p > last_id) (d_partitions db))))"

definition sql_count_partitions :: "int64 \<Rightarrow> int64 \<Rightarrow> int64 stmt" where
  "sql_count_partitions tid snap =
     query (\<lambda>db. int (length (filter (visible tid snap) (d_partitions db))))"

definition sql_select_snapshot :: "int64 \<Rightarrow> int64 \<Rightarrow> snapshot_rec option stmt" where
  "sql_select_snapshot tid snap =
     query (\<lambda>db. find (\<lambda>s. s_table s = tid \<and> s_id s = snap) (d_snapshots db))"

text \<open>
  \<^verbatim>\<open>ORDER BY committed_at DESC\<close>: the order of rows with the same time is not specified;
  here they keep the order of insertion.
\<close>

definition sql_list_snapshots :: "int64 \<Rightarrow> int32 \<Rightarrow> snapshot_rec list stmt" where
  "sql_list_snapshots tid limit =
     query (\<lambda>db. take (nat limit)
       (sort_key (\<lambda>s. - s_committed_at s) (filter (\<lambda>s. s_table s = tid) (d_snapshots db))))"

definition sql_select_manifest_list :: "int64 \<Rightarrow> int64 \<Rightarrow> ManifestListRow option stmt" where
  "sql_select_manifest_list snap tid =
     query (\<lambda>db. find (\<lambda>l. ml_SnapshotID l = snap \<and> ml_TableID l = tid) (d_mlists db))"

definition sql_list_manifest_files :: "int64 \<Rightarrow> ManifestFileRow list stmt" where
  "sql_list_manifest_files snap =
     query (\<lambda>db. sort_key mf_ManifestFileID (filter (\<lambda>f. mf_SnapshotID f = snap) (d_mfiles db)))"

text \<open>The join of \<^verbatim>\<open>manifest_files\<close> with \<^verbatim>\<open>tables\<close>.\<close>

definition sql_select_manifest_file :: "int64 \<Rightarrow> string \<Rightarrow> ManifestFileRow option stmt" where
  "sql_select_manifest_file fid name =
     query (\<lambda>db. find (\<lambda>f. mf_ManifestFileID f = fid \<and>
       list_ex (\<lambda>t. t_id t = mf_TableID f \<and> is_live name t) (d_tables db)) (d_mfiles db))"

definition sql_select_spec :: "int64 \<Rightarrow> int32 \<Rightarrow> spec_rec option stmt" where
  "sql_select_spec tid version =
     query (\<lambda>db. find (\<lambda>g. g_table g = tid \<and> g_version g = version) (d_specs db))"

definition sql_list_specs :: "int64 \<Rightarrow> spec_rec list stmt" where
  "sql_list_specs tid =
     query (\<lambda>db. sort_key (\<lambda>g. - g_version g) (filter (\<lambda>g. g_table g = tid) (d_specs db)))"

definition sql_select_history :: "int64 \<Rightarrow> int32 \<Rightarrow> history_rec option stmt" where
  "sql_select_history tid version =
     query (\<lambda>db. find (\<lambda>h. h_table h = tid \<and> h_version h = version) (d_history db))"

definition sql_list_history :: "int64 \<Rightarrow> history_rec list stmt" where
  "sql_list_history tid =
     query (\<lambda>db. sort_key (\<lambda>h. - h_version h) (filter (\<lambda>h. h_table h = tid) (d_history db)))"

subsection \<open>Inserts\<close>

text \<open>\<^verbatim>\<open>REFERENCES tables(table_id)\<close> and \<^verbatim>\<open>REFERENCES snapshots(snapshot_id)\<close>\<close>

definition has_table :: "int64 \<Rightarrow> database \<Rightarrow> bool" where
  "has_table tid db \<longleftrightarrow> tid \<in> set (map t_id (d_tables db))"

definition has_snapshot :: "int64 \<Rightarrow> database \<Rightarrow> bool" where
  "has_snapshot snap db \<longleftrightarrow> snap \<in> set (map s_id (d_snapshots db))"

definition sql_insert_table ::
    "pg_env \<Rightarrow> string \<Rightarrow> string \<Rightarrow> string \<Rightarrow> string \<Rightarrow> int64 option stmt" where
  "sql_insert_table E name schema spec props now db sq =
     (case (pe_jsonb E schema, pe_jsonb E spec, pe_jsonb E props) of
        (Some schema', Some spec', Some props') \<Rightarrow>
          (case nextval (q_table sq) of
             None \<Rightarrow> (Inl SequenceLimit, sq)
           | Some i \<Rightarrow>
               (if name \<in> set (map t_name (d_tables db))
                then (Inr (None, db), sq\<lparr>q_table := i\<rparr>)
                else
                  (Inr (Some i,
                     db\<lparr>d_tables := d_tables db @
                       [\<lparr>t_id = i, t_name = name, t_schema = schema', t_schema_version = 1,
                         t_spec = spec', t_spec_version = 1, t_snapshot = 0,
                         t_properties = props', t_updated_at = now, t_deleted = False\<rparr>]\<rparr>),
                   sq\<lparr>q_table := i\<rparr>)))
      | _ \<Rightarrow> (Inl InvalidJson, sq))"

definition sql_insert_history ::
    "pg_env \<Rightarrow> int64 \<Rightarrow> int32 \<Rightarrow> string \<Rightarrow> string \<Rightarrow> unit stmt" where
  "sql_insert_history E tid version schema summary now db sq =
     (case pe_jsonb E schema of
        None \<Rightarrow> (Inl InvalidJson, sq)
      | Some schema' \<Rightarrow>
          (case nextval (q_history sq) of
             None \<Rightarrow> (Inl SequenceLimit, sq)
           | Some i \<Rightarrow>
               (if \<not> has_table tid db then (Inl ForeignKeyViolation, sq\<lparr>q_history := i\<rparr>)
                else
                  (Inr ((), db\<lparr>d_history := d_history db @
                     [\<lparr>h_id = i, h_table = tid, h_version = version, h_schema = schema',
                       h_changed_at = now, h_summary = summary\<rparr>]\<rparr>),
                   sq\<lparr>q_history := i\<rparr>))))"

definition sql_insert_snapshot ::
    "int64 \<Rightarrow> int64 \<Rightarrow> string \<Rightarrow> int32 \<Rightarrow> int32 \<Rightarrow> int64 stmt" where
  "sql_insert_snapshot tid parent operation added deleted now db sq =
     (case nextval (q_snapshot sq) of
        None \<Rightarrow> (Inl SequenceLimit, sq)
      | Some i \<Rightarrow>
          (if \<not> has_table tid db then (Inl ForeignKeyViolation, sq\<lparr>q_snapshot := i\<rparr>)
           else
             (Inr (i, db\<lparr>d_snapshots := d_snapshots db @
                [\<lparr>s_id = i, s_table = tid, s_parent = parent, s_committed_at = now,
                  s_operation = operation, s_added = added, s_deleted = deleted\<rparr>]\<rparr>),
              sq\<lparr>q_snapshot := i\<rparr>)))"

definition sql_insert_partition ::
    "pg_env \<Rightarrow> int64 \<Rightarrow> int64 \<Rightarrow> PartitionRow \<Rightarrow> string \<Rightarrow> unit stmt" where
  "sql_insert_partition E tid snap part stats now db sq =
     (case pe_jsonb E stats of
        None \<Rightarrow> (Inl InvalidJson, sq)
      | Some stats' \<Rightarrow>
          (case nextval (q_partition sq) of
             None \<Rightarrow> (Inl SequenceLimit, sq)
           | Some i \<Rightarrow>
               (if \<not> has_table tid db \<or> \<not> has_snapshot snap db
                then (Inl ForeignKeyViolation, sq\<lparr>q_partition := i\<rparr>)
                else
                  (Inr ((), db\<lparr>d_partitions := d_partitions db @
                     [\<lparr>p_id = i, p_table = tid, p_snapshot = snap, p_key = pr_PartitionKey part,
                       p_path = pr_DataFilePath part, p_format = pr_FileFormat part,
                       p_rows = pr_RowCount part, p_bytes = pr_SizeBytes part, p_stats = stats',
                       p_deleted = False, p_deleted_snapshot = None\<rparr>]\<rparr>),
                   sq\<lparr>q_partition := i\<rparr>))))"

definition sql_insert_transaction ::
    "string \<Rightarrow> int64 \<Rightarrow> int64 \<Rightarrow> string \<Rightarrow> int64 stmt" where
  "sql_insert_transaction client tid snap isolation now db sq =
     (case nextval (q_txn sq) of
        None \<Rightarrow> (Inl SequenceLimit, sq)
      | Some i \<Rightarrow>
          (if \<not> has_table tid db then (Inl ForeignKeyViolation, sq\<lparr>q_txn := i\<rparr>)
           else
             (Inr (i, db\<lparr>d_txns := d_txns db @
                [\<lparr>x_id = i, x_client = client, x_table = tid, x_read_snapshot = snap,
                  x_status = ''active'', x_isolation = isolation, x_committed_at = None\<rparr>]\<rparr>),
              sq\<lparr>q_txn := i\<rparr>)))"

definition sql_insert_manifest_file :: "pg_env \<Rightarrow> ManifestFileRow \<Rightarrow> int64 stmt" where
  "sql_insert_manifest_file E row now db sq =
     (case pe_jsonb E (mf_PartitionSummaries row) of
        None \<Rightarrow> (Inl InvalidJson, sq)
      | Some summaries \<Rightarrow>
          (case nextval (q_mfile sq) of
             None \<Rightarrow> (Inl SequenceLimit, sq)
           | Some i \<Rightarrow>
               (if \<not> has_table (mf_TableID row) db \<or> \<not> has_snapshot (mf_SnapshotID row) db
                then (Inl ForeignKeyViolation, sq\<lparr>q_mfile := i\<rparr>)
                else
                  (Inr (i, db\<lparr>d_mfiles := d_mfiles db @
                     [row\<lparr>mf_ManifestFileID := i, mf_PartitionSummaries := summaries\<rparr>]\<rparr>),
                   sq\<lparr>q_mfile := i\<rparr>))))"

definition sql_insert_manifest_list :: "int64 \<Rightarrow> int64 \<Rightarrow> int32 \<Rightarrow> int64 stmt" where
  "sql_insert_manifest_list snap tid cnt now db sq =
     (case nextval (q_mlist sq) of
        None \<Rightarrow> (Inl SequenceLimit, sq)
      | Some i \<Rightarrow>
          (if snap \<in> set (map ml_SnapshotID (d_mlists db))
           then (Inl UniqueViolation, sq\<lparr>q_mlist := i\<rparr>)
           else if \<not> has_table tid db \<or> \<not> has_snapshot snap db
           then (Inl ForeignKeyViolation, sq\<lparr>q_mlist := i\<rparr>)
           else
             (Inr (i, db\<lparr>d_mlists := d_mlists db @
                [\<lparr>ml_ManifestListID = i, ml_SnapshotID = snap, ml_TableID = tid,
                  ml_ManifestCount = cnt\<rparr>]\<rparr>),
              sq\<lparr>q_mlist := i\<rparr>)))"

definition sql_insert_spec ::
    "pg_env \<Rightarrow> int64 \<Rightarrow> int32 \<Rightarrow> string \<Rightarrow> string \<Rightarrow> unit stmt" where
  "sql_insert_spec E tid version spec summary now db sq =
     (case pe_jsonb E spec of
        None \<Rightarrow> (Inl InvalidJson, sq)
      | Some spec' \<Rightarrow>
          (case nextval (q_spec sq) of
             None \<Rightarrow> (Inl SequenceLimit, sq)
           | Some i \<Rightarrow>
               (if (tid, version) \<in> set (map (\<lambda>g. (g_table g, g_version g)) (d_specs db))
                then (Inl UniqueViolation, sq\<lparr>q_spec := i\<rparr>)
                else if \<not> has_table tid db then (Inl ForeignKeyViolation, sq\<lparr>q_spec := i\<rparr>)
                else
                  (Inr ((), db\<lparr>d_specs := d_specs db @
                     [\<lparr>g_id = i, g_table = tid, g_version = version, g_spec = spec',
                       g_changed_at = now, g_summary = summary\<rparr>]\<rparr>),
                   sq\<lparr>q_spec := i\<rparr>))))"

subsection \<open>Updates\<close>

text \<open>\<^verbatim>\<open>UPDATE tables SET ... WHERE table_name = $n AND is_deleted = false\<close>: the rows changed.\<close>

definition update_live :: "string \<Rightarrow> (table_rec \<Rightarrow> table_rec) \<Rightarrow> database \<Rightarrow> int \<times> database" where
  "update_live name f db =
     (int (length (filter (is_live name) (d_tables db))),
      db\<lparr>d_tables := map (\<lambda>t. if is_live name t then f t else t) (d_tables db)\<rparr>)"

definition sql_update_schema :: "pg_env \<Rightarrow> string \<Rightarrow> string \<Rightarrow> int32 \<Rightarrow> int stmt" where
  "sql_update_schema E name schema version now db sq =
     (case pe_jsonb E schema of
        None \<Rightarrow> (Inl InvalidJson, sq)
      | Some schema' \<Rightarrow>
          update (\<lambda>now. update_live name
            (\<lambda>t. t\<lparr>t_schema := schema', t_schema_version := version, t_updated_at := now\<rparr>)) now db sq)"

definition sql_update_spec :: "pg_env \<Rightarrow> string \<Rightarrow> string \<Rightarrow> int32 \<Rightarrow> int stmt" where
  "sql_update_spec E name spec version now db sq =
     (case pe_jsonb E spec of
        None \<Rightarrow> (Inl InvalidJson, sq)
      | Some spec' \<Rightarrow>
          update (\<lambda>now. update_live name
            (\<lambda>t. t\<lparr>t_spec := spec', t_spec_version := version, t_updated_at := now\<rparr>)) now db sq)"

definition sql_update_snapshot_pointer :: "string \<Rightarrow> int64 \<Rightarrow> int stmt" where
  "sql_update_snapshot_pointer name snap =
     update (\<lambda>now. update_live name (\<lambda>t. t\<lparr>t_snapshot := snap, t_updated_at := now\<rparr>))"

definition sql_soft_delete :: "string \<Rightarrow> int stmt" where
  "sql_soft_delete name =
     update (\<lambda>now. update_live name (\<lambda>t. t\<lparr>t_deleted := True, t_updated_at := now\<rparr>))"

text \<open>Renaming checks the unique index on the name when a row changes.\<close>

definition sql_rename :: "string \<Rightarrow> string \<Rightarrow> int stmt" where
  "sql_rename old new now db sq =
     (if live_table old db \<noteq> None \<and> new \<noteq> old \<and> new \<in> set (map t_name (d_tables db))
      then (Inl UniqueViolation, sq)
      else update (\<lambda>now. update_live old (\<lambda>t. t\<lparr>t_name := new, t_updated_at := now\<rparr>)) now db sq)"

definition mark_deleted :: "int64 \<Rightarrow> string \<Rightarrow> int64 \<Rightarrow> partition_rec \<Rightarrow> partition_rec" where
  "mark_deleted tid key snap p =
     (if p_table p = tid \<and> p_key p = key \<and> \<not> p_deleted p
      then p\<lparr>p_deleted := True, p_deleted_snapshot := Some snap\<rparr> else p)"

definition sql_mark_deleted :: "int64 \<Rightarrow> string \<Rightarrow> int64 \<Rightarrow> unit stmt" where
  "sql_mark_deleted tid key snap =
     update (\<lambda>now db. ((), db\<lparr>d_partitions := map (mark_deleted tid key snap) (d_partitions db)\<rparr>))"

definition sql_update_txn_status :: "int64 \<Rightarrow> string \<Rightarrow> bool \<Rightarrow> unit stmt" where
  "sql_update_txn_status tid status set_committed_at =
     update (\<lambda>now db. ((), db\<lparr>d_txns := map (\<lambda>x. if x_id x = tid then
       (if set_committed_at then x\<lparr>x_status := status, x_committed_at := Some now\<rparr>
        else x\<lparr>x_status := status\<rparr>) else x) (d_txns db)\<rparr>))"

subsection \<open>Deletes\<close>

definition sql_delete_manifest_files :: "int64 \<Rightarrow> unit stmt" where
  "sql_delete_manifest_files tid =
     update (\<lambda>now db. ((), db\<lparr>d_mfiles := filter (\<lambda>f. mf_TableID f \<noteq> tid) (d_mfiles db)\<rparr>))"

definition sql_delete_manifest_lists :: "int64 \<Rightarrow> unit stmt" where
  "sql_delete_manifest_lists tid =
     update (\<lambda>now db. ((), db\<lparr>d_mlists := filter (\<lambda>l. ml_TableID l \<noteq> tid) (d_mlists db)\<rparr>))"

definition sql_delete_partitions :: "int64 \<Rightarrow> unit stmt" where
  "sql_delete_partitions tid =
     update (\<lambda>now db. ((), db\<lparr>d_partitions := filter (\<lambda>p. p_table p \<noteq> tid) (d_partitions db)\<rparr>))"

definition sql_delete_history :: "int64 \<Rightarrow> unit stmt" where
  "sql_delete_history tid =
     update (\<lambda>now db. ((), db\<lparr>d_history := filter (\<lambda>h. h_table h \<noteq> tid) (d_history db)\<rparr>))"

definition sql_delete_specs :: "int64 \<Rightarrow> unit stmt" where
  "sql_delete_specs tid =
     update (\<lambda>now db. ((), db\<lparr>d_specs := filter (\<lambda>g. g_table g \<noteq> tid) (d_specs db)\<rparr>))"

text \<open>Snapshots are referenced by partitions and manifests, tables by everything.\<close>

definition sql_delete_snapshots :: "int64 \<Rightarrow> unit stmt" where
  "sql_delete_snapshots tid now db sq =
     (let gone = map s_id (filter (\<lambda>s. s_table s = tid) (d_snapshots db)) in
      if list_ex (\<lambda>p. p_snapshot p \<in> set gone) (d_partitions db) \<or>
         list_ex (\<lambda>f. mf_SnapshotID f \<in> set gone) (d_mfiles db) \<or>
         list_ex (\<lambda>l. ml_SnapshotID l \<in> set gone) (d_mlists db)
      then (Inl ForeignKeyViolation, sq)
      else (Inr ((), db\<lparr>d_snapshots := filter (\<lambda>s. s_table s \<noteq> tid) (d_snapshots db)\<rparr>), sq))"

definition table_referenced :: "int64 \<Rightarrow> database \<Rightarrow> bool" where
  "table_referenced tid db \<longleftrightarrow>
     tid \<in> set (map h_table (d_history db)) \<or> tid \<in> set (map s_table (d_snapshots db)) \<or>
     tid \<in> set (map p_table (d_partitions db)) \<or> tid \<in> set (map x_table (d_txns db)) \<or>
     tid \<in> set (map mf_TableID (d_mfiles db)) \<or> tid \<in> set (map ml_TableID (d_mlists db)) \<or>
     tid \<in> set (map g_table (d_specs db))"

definition sql_delete_table :: "string \<Rightarrow> int stmt" where
  "sql_delete_table name now db sq =
     (if list_ex (\<lambda>t. t_name t = name \<and> table_referenced (t_id t) db) (d_tables db)
      then (Inl ForeignKeyViolation, sq)
      else (Inr (int (length (filter (\<lambda>t. t_name t = name) (d_tables db))),
              db\<lparr>d_tables := filter (\<lambda>t. t_name t \<noteq> name) (d_tables db)\<rparr>), sq))"

subsection \<open>Connections and transactions\<close>

text \<open>
  \<open>pg_db\<close> is the committed database; an open transaction works on its own copy and sees the time
  at which it began. Each call to the server is one tick: \<open>pe_fault\<close> says whether it fails, and
  whether it took effect all the same.
\<close>

record txn_state =
  tx_db :: database
  tx_now :: time
  tx_failed :: bool

record pg =
  pg_db :: database
  pg_seq :: sequences
  pg_tick :: nat
  pg_tx :: "txn_state option"

definition empty_pg :: pg where
  "empty_pg = \<lparr>pg_db = empty_db, pg_seq = empty_seq, pg_tick = 0, pg_tx = None\<rparr>"

definition pg_next :: "pg \<Rightarrow> pg" where
  "pg_next w = w\<lparr>pg_tick := Suc (pg_tick w)\<rparr>"

text \<open>A statement on a connection of the pool, in a transaction of its own.\<close>

definition pool_exec :: "pg_env \<Rightarrow> string list \<Rightarrow> 'a stmt \<Rightarrow> pg \<Rightarrow> (pg_error + 'a) \<times> pg" where
  "pool_exec E texts st w =
     (if pe_fault E (pg_tick w) = FailBefore then (Inl ConnError, pg_next w)
      else if \<not> list_all pg_text texts then (Inl InvalidText, pg_next w)
      else
        (case st (pe_clock E (pg_tick w)) (pg_db w) (pg_seq w) of
           (Inl e, sq) \<Rightarrow> (Inl e, (pg_next w)\<lparr>pg_seq := sq\<rparr>)
         | (Inr (x, db), sq) \<Rightarrow>
             (if pe_fault E (pg_tick w) = FailAfter then Inl ConnError else Inr x,
              (pg_next w)\<lparr>pg_db := db, pg_seq := sq\<rparr>)))"

text \<open>A statement in the open transaction; any error leaves the transaction failed.\<close>

definition tx_exec :: "pg_env \<Rightarrow> string list \<Rightarrow> 'a stmt \<Rightarrow> pg \<Rightarrow> (pg_error + 'a) \<times> pg" where
  "tx_exec E texts st w =
     (case pg_tx w of
        None \<Rightarrow> (Inl TxClosed, w)
      | Some tx \<Rightarrow>
          (let failed = tx\<lparr>tx_failed := True\<rparr> in
           if tx_failed tx then (Inl TxAborted, pg_next w)
           else if pe_fault E (pg_tick w) = FailBefore
           then (Inl ConnError, (pg_next w)\<lparr>pg_tx := Some failed\<rparr>)
           else if \<not> list_all pg_text texts
           then (Inl InvalidText, (pg_next w)\<lparr>pg_tx := Some failed\<rparr>)
           else
             (case st (tx_now tx) (tx_db tx) (pg_seq w) of
                (Inl e, sq) \<Rightarrow> (Inl e, (pg_next w)\<lparr>pg_tx := Some failed, pg_seq := sq\<rparr>)
              | (Inr (x, db), sq) \<Rightarrow>
                  (if pe_fault E (pg_tick w) = FailAfter
                   then (Inl ConnError, (pg_next w)\<lparr>pg_tx := Some failed, pg_seq := sq\<rparr>)
                   else (Inr x, (pg_next w)\<lparr>pg_tx := Some (tx\<lparr>tx_db := db\<rparr>), pg_seq := sq\<rparr>)))))"

definition BeginTx :: "pg_env \<Rightarrow> pg \<Rightarrow> (pg_error + unit) \<times> pg" where
  "BeginTx E w =
     (if pe_fault E (pg_tick w) \<noteq> NoFault then (Inl ConnError, pg_next w)
      else (Inr (), (pg_next w)\<lparr>pg_tx := Some \<lparr>tx_db = pg_db w,
              tx_now = pe_clock E (pg_tick w), tx_failed = False\<rparr>\<rparr>))"

text \<open>A commit whose answer is lost has taken effect; a failed transaction is rolled back.\<close>

definition tx_Commit :: "pg_env \<Rightarrow> pg \<Rightarrow> (pg_error + unit) \<times> pg" where
  "tx_Commit E w =
     (case pg_tx w of
        None \<Rightarrow> (Inl TxClosed, w)
      | Some tx \<Rightarrow>
          (if tx_failed tx then (Inl TxAborted, (pg_next w)\<lparr>pg_tx := None\<rparr>)
           else
             (case pe_fault E (pg_tick w) of
                NoFault \<Rightarrow> (Inr (), (pg_next w)\<lparr>pg_tx := None, pg_db := tx_db tx\<rparr>)
              | FailBefore \<Rightarrow> (Inl ConnError, (pg_next w)\<lparr>pg_tx := None\<rparr>)
              | FailAfter \<Rightarrow> (Inl ConnError, (pg_next w)\<lparr>pg_tx := None, pg_db := tx_db tx\<rparr>))))"

text \<open>The deferred \<^verbatim>\<open>tx.Rollback\<close>, whose error is ignored; nothing after a commit.\<close>

definition tx_Rollback :: "pg \<Rightarrow> pg" where
  "tx_Rollback w = (case pg_tx w of None \<Rightarrow> w | Some _ \<Rightarrow> (pg_next w)\<lparr>pg_tx := None\<rparr>)"

text \<open>\<^verbatim>\<open>tx, err := BeginTx(); if err != nil { h }; defer tx.Rollback(); body\<close>\<close>

definition with_tx :: "pg_env \<Rightarrow> (pg_error \<Rightarrow> 'r) \<Rightarrow> (pg \<Rightarrow> 'r \<times> pg) \<Rightarrow> pg \<Rightarrow> 'r \<times> pg" where
  "with_tx E h body =
     on_err (BeginTx E) (\<lambda>e w. (h e, w))
       (\<lambda>_ w. case body w of (r, w') \<Rightarrow> (r, tx_Rollback w'))"

end
