(* ===== verification/PG_Client.thy ===== *)
theory PG_Client
  imports PG_Store
begin

text \<open>
  The methods of \<^verbatim>\<open>PGClient\<close> (\<^verbatim>\<open>internal/db/pg_client.go\<close>) over the statements of
  \<open>PG_Store\<close>. Each takes the environment \<open>E\<close> and the connection state; a Go pair of a result and an
  error is a sum, a nil pointer or slice is \<open>None\<close>.
\<close>

subsection \<open>Single-row queries\<close>

text \<open>\<^verbatim>\<open>QueryRow(...).Scan(...)\<close>: no row is the error \<^verbatim>\<open>pgx.ErrNoRows\<close>.\<close>

definition scan_row :: "(pg \<Rightarrow> (pg_error + 'a option) \<times> pg) \<Rightarrow> pg \<Rightarrow> (pg_error + 'a) \<times> pg" where
  "scan_row m w =
     (case m w of
        (Inl e, w') \<Rightarrow> (Inl e, w')
      | (Inr None, w') \<Rightarrow> (Inl NoRows, w')
      | (Inr (Some x), w') \<Rightarrow> (Inr x, w'))"

definition ret :: "'r \<Rightarrow> 'w \<Rightarrow> 'r \<times> 'w" where
  "ret r w = (r, w)"

text \<open>\<^verbatim>\<open>if errors.Is(err, pgx.ErrNoRows) { return none, nil }; return nil, err\<close>\<close>

definition on_no_rows :: "'a \<Rightarrow> pg_error \<Rightarrow> pg \<Rightarrow> (pg_error + 'a) \<times> pg" where
  "on_no_rows none e = ret (if e = NoRows then Inr none else Inl e)"

subsection \<open>Tables\<close>

definition pg_CreateTableTx ::
    "pg_env \<Rightarrow> string \<Rightarrow> string \<Rightarrow> string \<Rightarrow> string \<Rightarrow> pg \<Rightarrow> (pg_error + int64 \<times> bool) \<times> pg" where
  "pg_CreateTableTx E tableName schemaJSON partitionSpecJSON propertiesJSON =
     on_err (scan_row (tx_exec E [tableName, schemaJSON, partitionSpecJSON, propertiesJSON]
               (sql_insert_table E tableName schemaJSON partitionSpecJSON propertiesJSON)))
       (on_no_rows (0, False))
       (\<lambda>tableID. ret (Inr (tableID, True)))"

definition pg_GetTable :: "pg_env \<Rightarrow> string \<Rightarrow> pg \<Rightarrow> (pg_error + TableRow option) \<times> pg" where
  "pg_GetTable E tableName =
     on_err (scan_row (pool_exec E [tableName] (sql_select_table tableName)))
       (on_no_rows None) (\<lambda>t. ret (Inr (Some t)))"

definition pg_GetTableID :: "pg_env \<Rightarrow> string \<Rightarrow> pg \<Rightarrow> (pg_error + int64) \<times> pg" where
  "pg_GetTableID E tableName =
     on_err (scan_row (pool_exec E [tableName] (sql_select_table_id tableName)))
       (on_no_rows (-1)) (\<lambda>tableID. ret (Inr tableID))"

definition pg_UpdateTableSchema ::
    "pg_env \<Rightarrow> string \<Rightarrow> string \<Rightarrow> int32 \<Rightarrow> string \<Rightarrow> pg \<Rightarrow> (pg_error + unit) \<times> pg" where
  "pg_UpdateTableSchema E tableName newSchemaJSON newVersion changeSummary =
     on_err (tx_exec E [newSchemaJSON, tableName]
               (sql_update_schema E tableName newSchemaJSON newVersion))
       (\<lambda>e. ret (Inl e))
       (\<lambda>_. on_err (scan_row (tx_exec E [tableName] (sql_select_table_id tableName)))
          (\<lambda>e. ret (Inl e))
          (\<lambda>tableID. tx_exec E [newSchemaJSON, changeSummary]
             (sql_insert_history E tableID newVersion newSchemaJSON changeSummary)))"

definition pg_RenameTable :: "pg_env \<Rightarrow> string \<Rightarrow> string \<Rightarrow> pg \<Rightarrow> (pg_error + bool) \<times> pg" where
  "pg_RenameTable E oldName newName =
     on_err (pool_exec E [newName, oldName] (sql_rename oldName newName))
       (\<lambda>e. ret (Inl e)) (\<lambda>rowsAffected. ret (Inr (rowsAffected > 0)))"

definition pg_DropTable :: "pg_env \<Rightarrow> string \<Rightarrow> bool \<Rightarrow> pg \<Rightarrow> (pg_error + bool) \<times> pg" where
  "pg_DropTable E tableName purge =
     (if purge then
        on_err (scan_row (tx_exec E [tableName] (sql_select_table_id tableName)))
          (on_no_rows False)
          (\<lambda>tableID.
            on_err (tx_exec E [] (sql_delete_manifest_files tableID)) (\<lambda>e. ret (Inl e)) (\<lambda>_.
            on_err (tx_exec E [] (sql_delete_manifest_lists tableID)) (\<lambda>e. ret (Inl e)) (\<lambda>_.
            on_err (tx_exec E [] (sql_delete_partitions tableID)) (\<lambda>e. ret (Inl e)) (\<lambda>_.
            on_err (tx_exec E [] (sql_delete_snapshots tableID)) (\<lambda>e. ret (Inl e)) (\<lambda>_.
            on_err (tx_exec E [] (sql_delete_history tableID)) (\<lambda>e. ret (Inl e)) (\<lambda>_.
            on_err (tx_exec E [] (sql_delete_specs tableID)) (\<lambda>e. ret (Inl e)) (\<lambda>_.
            on_err (tx_exec E [tableName] (sql_delete_table tableName)) (\<lambda>e. ret (Inl e))
              (\<lambda>rowsAffected. ret (Inr (rowsAffected > 0))))))))))
      else
        on_err (tx_exec E [tableName] (sql_soft_delete tableName)) (\<lambda>e. ret (Inl e))
          (\<lambda>rowsAffected. ret (Inr (rowsAffected > 0))))"

definition page_offset :: "string \<Rightarrow> int64" where
  "page_offset pageToken =
     (if pageToken = [] then 0 else (case ParseInt pageToken of None \<Rightarrow> 0 | Some parsed \<Rightarrow> parsed))"

definition pg_ListTables ::
    "pg_env \<Rightarrow> string \<Rightarrow> int32 \<Rightarrow> string \<Rightarrow> pg \<Rightarrow> (pg_error + TableRow list) \<times> pg" where
  "pg_ListTables E namespace pageSize pageToken =
     (let limit = (if pageSize \<le> 0 then 100 else pageSize); offset = page_offset pageToken in
      pool_exec E [] (sql_list_tables limit offset))"

definition pg_GetCurrentSnapshot :: "pg_env \<Rightarrow> string \<Rightarrow> pg \<Rightarrow> (pg_error + uint64) \<times> pg" where
  "pg_GetCurrentSnapshot E tableName =
     on_err (scan_row (pool_exec E [tableName] (sql_select_snapshot_pointer tableName)))
       (on_no_rows 0)
       (\<lambda>snapshotID. ret (Inr (if snapshotID < 0 then 0 else uint64_of_int64 snapshotID)))"

definition pg_GetTableSpecVersion :: "pg_env \<Rightarrow> string \<Rightarrow> pg \<Rightarrow> (pg_error + int32) \<times> pg" where
  "pg_GetTableSpecVersion E tableName =
     on_err (scan_row (pool_exec E [tableName] (sql_select_spec_version tableName)))
       (on_no_rows 0) (\<lambda>v. ret (Inr v))"

subsection \<open>Client transactions\<close>

definition pg_InsertTransaction ::
    "pg_env \<Rightarrow> string \<Rightarrow> int64 \<Rightarrow> uint64 \<Rightarrow> string \<Rightarrow> pg \<Rightarrow> (pg_error + uint64) \<times> pg" where
  "pg_InsertTransaction E clientID tableID readSnapshotID isolation =
     on_err (pool_exec E [clientID, isolation]
               (sql_insert_transaction clientID tableID (int64_of_uint64 readSnapshotID) isolation))
       (\<lambda>e. ret (Inl e))
       (\<lambda>txnID. ret (Inr (if txnID < 0 then 0 else uint64_of_int64 txnID)))"

definition pg_UpdateTransactionStatus ::
    "pg_env \<Rightarrow> uint64 \<Rightarrow> string \<Rightarrow> pg \<Rightarrow> (pg_error + unit) \<times> pg" where
  "pg_UpdateTransactionStatus E txnID status =
     pool_exec E [status]
       (sql_update_txn_status (int64_of_uint64 txnID) status (status = ''committed''))"

definition IsUniqueViolation :: "pg_error \<Rightarrow> bool" where
  "IsUniqueViolation e \<longleftrightarrow> e = UniqueViolation"

text \<open>The hand-written integer parser wraps around where \<open>ParseInt\<close> fails.\<close>

definition scan_digit :: "char \<Rightarrow> int64 \<Rightarrow> int64" where
  "scan_digit ch v = int64_of (int64_of (v * 10) + (int (of_char ch) - 48))"

definition pgtypeInt8Scan :: "string \<Rightarrow> int64 option" where
  "pgtypeInt8Scan s =
     (if s = [] then Some 0
      else
        (let sign = (if hd s = CHR ''-'' then -1 else 1);
             digits = (if hd s = CHR ''-'' then tl s else s) in
         if list_all is_digit digits then Some (int64_of (fold scan_digit digits 0 * sign))
         else None))"

subsection \<open>Partitions\<close>

definition scan_partition :: "partition_rec \<Rightarrow> PartitionRow" where
  "scan_partition p =
     \<lparr>pr_PartitionID = p_id p, pr_TableID = p_table p, pr_SnapshotID = p_snapshot p,
      pr_PartitionKey = p_key p, pr_DataFilePath = p_path p, pr_FileFormat = p_format p,
      pr_RowCount = p_rows p, pr_SizeBytes = p_bytes p,
      pr_ColumnStats = unmarshalColumnStats (p_stats p)\<rparr>"

definition pg_QueryPartitions ::
    "pg_env \<Rightarrow> string \<Rightarrow> uint64 \<Rightarrow> pg \<Rightarrow> (pg_error + PartitionRow list option) \<times> pg" where
  "pg_QueryPartitions E tableName snapshotID =
     on_err (pg_GetTableID E tableName) (\<lambda>e. ret (Inl e)) (\<lambda>tableID.
       if tableID < 0 then ret (Inr None)
       else on_err (pool_exec E [] (sql_partitions tableID (int64_of_uint64 snapshotID)))
         (\<lambda>e. ret (Inl e)) (\<lambda>rows. ret (Inr (Some (map scan_partition rows)))))"

definition pg_QueryPartitionsPaged ::
    "pg_env \<Rightarrow> string \<Rightarrow> uint64 \<Rightarrow> int32 \<Rightarrow> int64 \<Rightarrow> pg \<Rightarrow>
     (pg_error + PartitionRow list option) \<times> pg" where
  "pg_QueryPartitionsPaged E tableName snapshotID pageSize lastPartitionID =
     on_err (pg_GetTableID E tableName) (\<lambda>e. ret (Inl e)) (\<lambda>tableID.
       if tableID < 0 then ret (Inr None)
       else
         (let limit = (if pageSize \<le> 0 then 1000 else pageSize) in
          on_err (pool_exec E []
                    (sql_partitions_paged tableID (int64_of_uint64 snapshotID) lastPartitionID limit))
            (\<lambda>e. ret (Inl e)) (\<lambda>rows. ret (Inr (Some (map scan_partition rows))))))"

definition pg_GetVisiblePartitionCount ::
    "pg_env \<Rightarrow> string \<Rightarrow> uint64 \<Rightarrow> pg \<Rightarrow> (pg_error + int64) \<times> pg" where
  "pg_GetVisiblePartitionCount E tableName snapshotID =
     on_err (pg_GetTableID E tableName) (\<lambda>e. ret (Inl e)) (\<lambda>tableID.
       if tableID < 0 then ret (Inr 0)
       else pool_exec E [] (sql_count_partitions tableID (int64_of_uint64 snapshotID)))"

definition pg_InsertPartitionTx ::
    "pg_env \<Rightarrow> string \<Rightarrow> uint64 \<Rightarrow> PartitionRow \<Rightarrow> pg \<Rightarrow> (pg_error + unit) \<times> pg" where
  "pg_InsertPartitionTx E tableName snapshotID part =
     on_err (scan_row (tx_exec E [tableName] (sql_select_table_id tableName))) (\<lambda>e. ret (Inl e))
       (\<lambda>tableID.
         (let statsJSON = marshalColumnStats (pr_ColumnStats part) in
          tx_exec E [pr_PartitionKey part, pr_DataFilePath part, pr_FileFormat part, statsJSON]
            (sql_insert_partition E tableID (int64_of_uint64 snapshotID) part statsJSON)))"

definition pg_MarkPartitionDeletedTx ::
    "pg_env \<Rightarrow> string \<Rightarrow> string \<Rightarrow> uint64 \<Rightarrow> pg \<Rightarrow> (pg_error + unit) \<times> pg" where
  "pg_MarkPartitionDeletedTx E tableName partitionKey deletedSnapshotID =
     on_err (scan_row (tx_exec E [tableName] (sql_select_table_id tableName))) (\<lambda>e. ret (Inl e))
       (\<lambda>tableID. tx_exec E [partitionKey]
          (sql_mark_deleted tableID partitionKey (int64_of_uint64 deletedSnapshotID)))"

subsection \<open>Column statistics of a snapshot\<close>

record agg =
  nullCount :: int64
  nanCount :: int64
  valueCount :: int64
  minValue :: string
  maxValue :: string
  hasMin :: bool

definition zero_agg :: agg where
  "zero_agg = \<lparr>nullCount = 0, nanCount = 0, valueCount = 0, minValue = [], maxValue = [],
     hasMin = False\<rparr>"

definition agg_add :: "ColumnStats \<Rightarrow> agg \<Rightarrow> agg" where
  "agg_add cs a =
     (let a1 = a\<lparr>nullCount := int64_of (nullCount a + cs_NullCount cs),
                 nanCount := int64_of (nanCount a + cs_NaNCount cs),
                 valueCount := int64_of (valueCount a + cs_ValueCount cs)\<rparr>;
          a2 = (if cs_MinValue cs \<noteq> [] \<and> (\<not> hasMin a1 \<or> cs_MinValue cs < minValue a1)
                then a1\<lparr>minValue := cs_MinValue cs, hasMin := True\<rparr> else a1)
      in if cs_MaxValue cs \<noteq> [] \<and> cs_MaxValue cs > maxValue a2
         then a2\<lparr>maxValue := cs_MaxValue cs\<rparr> else a2)"

definition agg_column :: "ColumnStats \<Rightarrow> (int32, agg) gomap \<Rightarrow> (int32, agg) gomap" where
  "agg_column cs byCol =
     AList.update (cs_ColumnID cs) (agg_add cs (gomap_get zero_agg byCol (cs_ColumnID cs))) byCol"

definition agg_rows :: "PartitionRow list \<Rightarrow> (int32, agg) gomap" where
  "agg_rows rows = fold (\<lambda>p byCol. fold agg_column (pr_ColumnStats p) byCol) rows []"

definition agg_stats :: "int32 \<times> agg \<Rightarrow> ColumnStats" where
  "agg_stats ca =
     \<lparr>cs_ColumnID = fst ca, cs_NullCount = nullCount (snd ca), cs_NaNCount = nanCount (snd ca),
      cs_ValueCount = valueCount (snd ca), cs_MinValue = minValue (snd ca),
      cs_MaxValue = maxValue (snd ca), cs_SizeBytes = 0\<rparr>"

text \<open>The result is built by ranging over the map, so its order is that of the map.\<close>

definition pg_GetColumnStatsForSnapshot ::
    "pg_env \<Rightarrow> string \<Rightarrow> uint64 \<Rightarrow> pg \<Rightarrow> (pg_error + ColumnStats list) \<times> pg" where
  "pg_GetColumnStatsForSnapshot E tableName snapshotID =
     on_err (pg_QueryPartitions E tableName snapshotID) (\<lambda>e. ret (Inl e))
       (\<lambda>rows. ret (Inr (map agg_stats (agg_rows (case rows of None \<Rightarrow> [] | Some ps \<Rightarrow> ps)))))"

subsection \<open>Snapshots and manifests\<close>

definition pg_InsertSnapshotTx ::
    "pg_env \<Rightarrow> string \<Rightarrow> uint64 \<Rightarrow> string \<Rightarrow> int32 \<Rightarrow> int32 \<Rightarrow> pg \<Rightarrow>
     (pg_error + uint64 \<times> int64) \<times> pg" where
  "pg_InsertSnapshotTx E tableName parentSnapshotID operation addedCount deletedCount =
     on_err (scan_row (tx_exec E [tableName] (sql_select_table_id tableName)))
       (on_no_rows (0, 0))
       (\<lambda>tableID.
         on_err (tx_exec E [operation] (sql_insert_snapshot tableID
                   (int64_of_uint64 parentSnapshotID) operation addedCount deletedCount))
           (\<lambda>e. ret (Inl e))
           (\<lambda>rawID. ret (Inr (if rawID < 0 then 0 else uint64_of_int64 rawID, tableID))))"

definition pg_InsertManifestFileTx ::
    "pg_env \<Rightarrow> ManifestFileRow \<Rightarrow> pg \<Rightarrow> (pg_error + int64) \<times> pg" where
  "pg_InsertManifestFileTx E row =
     tx_exec E [mf_ManifestPath row, mf_PartitionSummaries row] (sql_insert_manifest_file E row)"

definition pg_InsertManifestListTx ::
    "pg_env \<Rightarrow> int64 \<Rightarrow> int64 \<Rightarrow> int32 \<Rightarrow> pg \<Rightarrow> (pg_error + int64) \<times> pg" where
  "pg_InsertManifestListTx E snapshotID tableID manifestCount =
     tx_exec E [] (sql_insert_manifest_list snapshotID tableID manifestCount)"

definition pg_GetManifestList ::
    "pg_env \<Rightarrow> string \<Rightarrow> uint64 \<Rightarrow> pg \<Rightarrow>
     (pg_error + (ManifestListRow \<times> ManifestFileRow list) option) \<times> pg" where
  "pg_GetManifestList E tableName snapshotID =
     on_err (pg_GetTableID E tableName) (\<lambda>e. ret (Inl e)) (\<lambda>tableID.
       if tableID < 0 then ret (Inr None)
       else on_err (scan_row (pool_exec E []
                     (sql_select_manifest_list (int64_of_uint64 snapshotID) tableID)))
         (on_no_rows None)
         (\<lambda>l. on_err (pool_exec E [] (sql_list_manifest_files (int64_of_uint64 snapshotID)))
            (\<lambda>e. ret (Inl e)) (\<lambda>files. ret (Inr (Some (l, files))))))"

definition pg_GetManifestFile ::
    "pg_env \<Rightarrow> string \<Rightarrow> int64 \<Rightarrow> pg \<Rightarrow> (pg_error + ManifestFileRow option) \<times> pg" where
  "pg_GetManifestFile E tableName manifestFileID =
     on_err (scan_row (pool_exec E [tableName] (sql_select_manifest_file manifestFileID tableName)))
       (on_no_rows None) (\<lambda>f. ret (Inr (Some f)))"

definition pg_UpdateTableSnapshotTx ::
    "pg_env \<Rightarrow> string \<Rightarrow> uint64 \<Rightarrow> pg \<Rightarrow> (pg_error + unit) \<times> pg" where
  "pg_UpdateTableSnapshotTx E tableName snapshotID =
     on_err (tx_exec E [tableName]
               (sql_update_snapshot_pointer tableName (int64_of_uint64 snapshotID)))
       (\<lambda>e. ret (Inl e)) (\<lambda>_. ret (Inr ()))"

definition scan_snapshot :: "pg_env \<Rightarrow> snapshot_rec \<Rightarrow> SnapshotRow" where
  "scan_snapshot E s =
     \<lparr>sr_SnapshotID = s_id s, sr_TableID = s_table s, sr_ParentSnapshotID = s_parent s,
      sr_Operation = s_operation s, sr_AddedFilesCount = s_added s,
      sr_DeletedFilesCount = s_deleted s, sr_CommittedAt = pe_timestamp E (s_committed_at s)\<rparr>"

definition pg_GetSnapshot ::
    "pg_env \<Rightarrow> string \<Rightarrow> uint64 \<Rightarrow> pg \<Rightarrow> (pg_error + SnapshotRow option) \<times> pg" where
  "pg_GetSnapshot E tableName snapshotID =
     on_err (pg_GetTableID E tableName) (\<lambda>e. ret (Inl e)) (\<lambda>tableID.
       if tableID < 0 then ret (Inr None)
       else on_err (scan_row (pool_exec E []
                     (sql_select_snapshot tableID (int64_of_uint64 snapshotID))))
         (on_no_rows None) (\<lambda>s. ret (Inr (Some (scan_snapshot E s)))))"

definition pg_ListSnapshots ::
    "pg_env \<Rightarrow> string \<Rightarrow> int32 \<Rightarrow> pg \<Rightarrow> (pg_error + SnapshotRow list) \<times> pg" where
  "pg_ListSnapshots E tableName limit =
     on_err (pg_GetTableID E tableName) (\<lambda>e. ret (Inl e)) (\<lambda>tableID.
       if tableID < 0 then ret (Inr [])
       else
         (let limit = (if limit \<le> 0 then 50 else limit) in
          on_err (pool_exec E [] (sql_list_snapshots tableID limit))
            (\<lambda>e. ret (Inl e)) (\<lambda>rows. ret (Inr (map (scan_snapshot E) rows)))))"

subsection \<open>Partition specs and schema history\<close>

definition pg_InsertPartitionSpecTx ::
    "pg_env \<Rightarrow> int64 \<Rightarrow> int32 \<Rightarrow> string \<Rightarrow> string \<Rightarrow> pg \<Rightarrow> (pg_error + unit) \<times> pg" where
  "pg_InsertPartitionSpecTx E tableID specVersion specJSON changeSummary =
     tx_exec E [specJSON, changeSummary]
       (sql_insert_spec E tableID specVersion specJSON changeSummary)"

definition pg_UpdateTablePartitionSpecTx ::
    "pg_env \<Rightarrow> string \<Rightarrow> string \<Rightarrow> int32 \<Rightarrow> pg \<Rightarrow> (pg_error + unit) \<times> pg" where
  "pg_UpdateTablePartitionSpecTx E tableName newSpecJSON newVersion =
     on_err (tx_exec E [newSpecJSON, tableName] (sql_update_spec E tableName newSpecJSON newVersion))
       (\<lambda>e. ret (Inl e)) (\<lambda>_. ret (Inr ()))"

definition scan_spec :: "pg_env \<Rightarrow> spec_rec \<Rightarrow> PartitionSpecRow" where
  "scan_spec E g =
     \<lparr>psr_PartitionSpecID = g_id g, psr_TableID = g_table g, psr_SpecVersion = g_version g,
      psr_SpecJSON = g_spec g, psr_ChangedAt = pe_timestamp E (g_changed_at g),
      psr_ChangeSummary = g_summary g\<rparr>"

definition pg_GetPartitionSpecByVersion ::
    "pg_env \<Rightarrow> int64 \<Rightarrow> int32 \<Rightarrow> pg \<Rightarrow> (pg_error + PartitionSpecRow option) \<times> pg" where
  "pg_GetPartitionSpecByVersion E tableID specVersion =
     on_err (scan_row (pool_exec E [] (sql_select_spec tableID specVersion)))
       (on_no_rows None) (\<lambda>g. ret (Inr (Some (scan_spec E g))))"

definition pg_ListPartitionSpecHistory ::
    "pg_env \<Rightarrow> int64 \<Rightarrow> pg \<Rightarrow> (pg_error + PartitionSpecRow list) \<times> pg" where
  "pg_ListPartitionSpecHistory E tableID =
     on_err (pool_exec E [] (sql_list_specs tableID))
       (\<lambda>e. ret (Inl e)) (\<lambda>rows. ret (Inr (map (scan_spec E) rows)))"

end
