(* ===== verification/Partition_Spec.thy ===== *)
theory Partition_Spec
  imports DB_Models
begin

text \<open>
  \<^verbatim>\<open>internal/catalog/partition_spec.go\<close> and \<^verbatim>\<open>ValidateSpecChange\<close> of
  \<^verbatim>\<open>partition_spec_store.go\<close>: partition specs, their JSON form and the rules of spec
  evolution. The messages of the validation are constructors of \<open>spec_error\<close>; \<open>spec_error_text\<close>
  renders them, with the \<^verbatim>\<open>%q\<close> quoting of \<^verbatim>\<open>fmt\<close> and the texts of JSON errors as
  parameters.
\<close>

subsection \<open>Specs\<close>

type_synonym PartitionTransform = string

definition TransformIdentity :: PartitionTransform where [go_defs]: "TransformIdentity = ''identity''"
definition TransformYear :: PartitionTransform where [go_defs]: "TransformYear = ''year''"
definition TransformMonth :: PartitionTransform where [go_defs]: "TransformMonth = ''month''"
definition TransformDay :: PartitionTransform where [go_defs]: "TransformDay = ''day''"
definition TransformHour :: PartitionTransform where [go_defs]: "TransformHour = ''hour''"
definition TransformBucket :: PartitionTransform where [go_defs]: "TransformBucket = ''bucket''"
definition TransformTruncate :: PartitionTransform where [go_defs]: "TransformTruncate = ''truncate''"

definition validTransforms :: "PartitionTransform list" where
  "validTransforms = [TransformIdentity, TransformYear, TransformMonth, TransformDay, TransformHour,
     TransformBucket, TransformTruncate]"

definition paramRequired :: "PartitionTransform \<Rightarrow> bool" where
  "paramRequired t \<longleftrightarrow> t = TransformBucket \<or> t = TransformTruncate"

record PartitionField =
  pf_FieldID :: int64
  pf_SourceColumn :: string
  pf_Transform :: PartitionTransform
  pf_TransformParam :: "int64 option"

record PartitionSpec =
  ps_Fields :: "PartitionField list"

subsection \<open>JSON form\<close>

definition zero_PartitionField :: PartitionField where
  "zero_PartitionField =
     \<lparr>pf_FieldID = 0, pf_SourceColumn = [], pf_Transform = [], pf_TransformParam = None\<rparr>"

definition enc_PartitionField :: "PartitionField \<Rightarrow> json" where
  "enc_PartitionField f =
     JObj ([(''field_id'', JNum (FormatInt (pf_FieldID f))),
            (''source_column'', JStr (pf_SourceColumn f)),
            (''transform'', JStr (pf_Transform f))] @
           (case pf_TransformParam f of
              None \<Rightarrow> []
            | Some p \<Rightarrow> [(''transform_param'', JNum (FormatInt p))]))"

text \<open>\<^verbatim>\<open>json.Marshal(spec)\<close>; every slice the code marshals is non-nil.\<close>

definition marshalSpec :: "PartitionSpec \<Rightarrow> string" where
  "marshalSpec s = json_print (JObj [(''fields'', JArr (map enc_PartitionField (ps_Fields s)))])"

definition PartitionField_names :: "string list" where
  "PartitionField_names = [''field_id'', ''source_column'', ''transform'', ''transform_param'']"

definition set_PartitionField :: "string \<Rightarrow> json \<Rightarrow> PartitionField \<Rightarrow> PartitionField option" where
  "set_PartitionField n j f =
     (if n = ''field_id'' then
        map_option (\<lambda>i. f\<lparr>pf_FieldID := i\<rparr>) (dec_int in_int64 j (pf_FieldID f))
      else if n = ''source_column'' then
        map_option (\<lambda>s. f\<lparr>pf_SourceColumn := s\<rparr>) (dec_string j (pf_SourceColumn f))
      else if n = ''transform'' then
        map_option (\<lambda>s. f\<lparr>pf_Transform := s\<rparr>) (dec_string j (pf_Transform f))
      else if n = ''transform_param'' then
        map_option (\<lambda>p. f\<lparr>pf_TransformParam := p\<rparr>) (dec_ptr_int j (pf_TransformParam f))
      else Some f)"

definition dec_PartitionField :: "json \<Rightarrow> PartitionField \<Rightarrow> PartitionField option" where
  "dec_PartitionField = dec_struct PartitionField_names set_PartitionField"

definition set_PartitionSpec :: "string \<Rightarrow> json \<Rightarrow> PartitionSpec \<Rightarrow> PartitionSpec option" where
  "set_PartitionSpec n j s =
     (if n = ''fields'' then
        map_option (\<lambda>fs. s\<lparr>ps_Fields := fs\<rparr>)
          (dec_slice dec_PartitionField zero_PartitionField j (ps_Fields s))
      else Some s)"

text \<open>\<^verbatim>\<open>json.Unmarshal\<close> into a fresh spec; \<open>None\<close> is an error.\<close>

definition unmarshalSpec :: "string \<Rightarrow> PartitionSpec option" where
  "unmarshalSpec raw =
     (case json_parse raw of
        None \<Rightarrow> None
      | Some j \<Rightarrow> dec_struct [''fields''] set_PartitionSpec j \<lparr>ps_Fields = []\<rparr>)"

subsection \<open>Validation\<close>

datatype spec_error =
  Not_json
| No_fields
| Empty_column nat
| Unknown_transform string PartitionTransform
| Param_required string PartitionTransform
| Param_forbidden string PartitionTransform
| Duplicate_id int64
| Column_changed int64 string string
| Transform_changed int64 PartitionTransform PartitionTransform
| Field_removed int64 string
| Id_not_greater int64 int64

text \<open>The loop over the proposed fields, with the ids seen so far.\<close>

fun check_fields :: "nat \<Rightarrow> int64 list \<Rightarrow> PartitionField list \<Rightarrow> spec_error option" where
  "check_fields i seen [] = None"
| "check_fields i seen (f # fs) =
     (if pf_SourceColumn f = [] then Some (Empty_column i)
      else if pf_Transform f \<notin> set validTransforms
      then Some (Unknown_transform (pf_SourceColumn f) (pf_Transform f))
      else if paramRequired (pf_Transform f) \<and>
        (case pf_TransformParam f of None \<Rightarrow> True | Some p \<Rightarrow> p \<le> 0)
      then Some (Param_required (pf_SourceColumn f) (pf_Transform f))
      else if \<not> paramRequired (pf_Transform f) \<and> pf_TransformParam f \<noteq> None
      then Some (Param_forbidden (pf_SourceColumn f) (pf_Transform f))
      else if pf_FieldID f \<in> set seen then Some (Duplicate_id (pf_FieldID f))
      else check_fields (Suc i) (pf_FieldID f # seen) fs)"

fun max_field_id :: "PartitionField list \<Rightarrow> int64 \<Rightarrow> int64" where
  "max_field_id [] m = m"
| "max_field_id (f # fs) m = max_field_id fs (if pf_FieldID f > m then pf_FieldID f else m)"

text \<open>Every current field against the first proposed field with its id.\<close>

fun check_preserved :: "PartitionField list \<Rightarrow> PartitionField list \<Rightarrow> spec_error option" where
  "check_preserved proposed [] = None"
| "check_preserved proposed (cf # cfs) =
     (case find (\<lambda>p. pf_FieldID p = pf_FieldID cf) proposed of
        None \<Rightarrow> Some (Field_removed (pf_FieldID cf) (pf_SourceColumn cf))
      | Some p \<Rightarrow>
          (if pf_SourceColumn p \<noteq> pf_SourceColumn cf
           then Some (Column_changed (pf_FieldID cf) (pf_SourceColumn cf) (pf_SourceColumn p))
           else if pf_Transform p \<noteq> pf_Transform cf
           then Some (Transform_changed (pf_FieldID cf) (pf_Transform cf) (pf_Transform p))
           else check_preserved proposed cfs))"

fun check_new_ids :: "int64 list \<Rightarrow> int64 \<Rightarrow> PartitionField list \<Rightarrow> spec_error option" where
  "check_new_ids current_ids m [] = None"
| "check_new_ids current_ids m (pf # pfs) =
     (if pf_FieldID pf \<notin> set current_ids \<and> pf_FieldID pf \<le> m
      then Some (Id_not_greater (pf_FieldID pf) m)
      else check_new_ids current_ids m pfs)"

definition check_evolution :: "PartitionSpec \<Rightarrow> PartitionSpec \<Rightarrow> spec_error option" where
  "check_evolution current proposed =
     (case check_preserved (ps_Fields proposed) (ps_Fields current) of
        Some e \<Rightarrow> Some e
      | None \<Rightarrow>
          check_new_ids (map pf_FieldID (ps_Fields current)) (max_field_id (ps_Fields current) 0)
            (ps_Fields proposed))"

definition ValidateSpecChange :: "string \<Rightarrow> string \<Rightarrow> spec_error option" where
  "ValidateSpecChange currentJSON proposedJSON =
     (case unmarshalSpec proposedJSON of
        None \<Rightarrow> Some Not_json
      | Some proposed \<Rightarrow>
          if ps_Fields proposed = [] then Some No_fields
          else
            (case check_fields 0 [] (ps_Fields proposed) of
               Some e \<Rightarrow> Some e
             | None \<Rightarrow>
                 if currentJSON = [] then None
                 else
                   (case unmarshalSpec currentJSON of
                      None \<Rightarrow> None
                    | Some current \<Rightarrow> check_evolution current proposed)))"

fun spec_error_text :: "(string \<Rightarrow> string) \<Rightarrow> string \<Rightarrow> spec_error \<Rightarrow> string" where
  "spec_error_text q json_err Not_json = ''proposed partition spec is not valid JSON: '' @ json_err"
| "spec_error_text q json_err No_fields = ''proposed partition spec must have at least one field''"
| "spec_error_text q json_err (Empty_column i) =
     ''field at index '' @ FormatInt (int i) @ '' has empty source_column''"
| "spec_error_text q json_err (Unknown_transform c t) =
     ''field '' @ q c @ '' has unknown transform '' @ q t"
| "spec_error_text q json_err (Param_required c t) =
     ''field '' @ q c @ '' transform '' @ q t @ '' requires a positive transform_param''"
| "spec_error_text q json_err (Param_forbidden c t) =
     ''field '' @ q c @ '' transform '' @ q t @ '' must not have transform_param''"
| "spec_error_text q json_err (Duplicate_id i) =
     ''duplicate field_id '' @ FormatInt i @ '' in proposed spec''"
| "spec_error_text q json_err (Column_changed i c c') =
     ''field_id '' @ FormatInt i @ '': cannot change source_column from '' @ q c @ '' to '' @ q c'"
| "spec_error_text q json_err (Transform_changed i t t') =
     ''field_id '' @ FormatInt i @ '': cannot change transform from '' @ q t @ '' to '' @ q t'"
| "spec_error_text q json_err (Field_removed i c) =
     ''field_id '' @ FormatInt i @ '' ('' @ q c @ '') was removed; partition fields cannot be removed''"
| "spec_error_text q json_err (Id_not_greater i m) =
     ''new field_id '' @ FormatInt i @ '' must be greater than all existing field_ids (max='' @
     FormatInt m @ '')''"

subsection \<open>What the checks mean\<close>

text \<open>A field on its own, a spec on its own, and a step of evolution.\<close>

definition field_wf :: "PartitionField \<Rightarrow> bool" where
  "field_wf f \<longleftrightarrow>
     pf_SourceColumn f \<noteq> [] \<and> pf_Transform f \<in> set validTransforms \<and>
     (case pf_TransformParam f of
        None \<Rightarrow> \<not> paramRequired (pf_Transform f)
      | Some p \<Rightarrow> paramRequired (pf_Transform f) \<and> 0 < p)"

definition spec_wf :: "PartitionSpec \<Rightarrow> bool" where
  "spec_wf s \<longleftrightarrow>
     ps_Fields s \<noteq> [] \<and> (\<forall>f \<in> set (ps_Fields s). field_wf f) \<and>
     distinct (map pf_FieldID (ps_Fields s))"

definition spec_evolves :: "PartitionSpec \<Rightarrow> PartitionSpec \<Rightarrow> bool" where
  "spec_evolves old new \<longleftrightarrow>
     (\<forall>c \<in> set (ps_Fields old). \<exists>p \<in> set (ps_Fields new). pf_FieldID p = pf_FieldID c \<and>
        pf_SourceColumn p = pf_SourceColumn c \<and> pf_Transform p = pf_Transform c) \<and>
     (\<forall>p \<in> set (ps_Fields new). pf_FieldID p \<in> pf_FieldID ` set (ps_Fields old) \<or>
        (0 < pf_FieldID p \<and> (\<forall>c \<in> set (ps_Fields old). pf_FieldID c < pf_FieldID p)))"

lemma check_fields_None:
  "check_fields i seen fs = None \<longleftrightarrow>
   (\<forall>f \<in> set fs. field_wf f) \<and> distinct (map pf_FieldID fs) \<and> pf_FieldID ` set fs \<inter> set seen = {}"
proof (induction i seen fs rule: check_fields.induct)
  case (1 i seen)
  then show ?case by simp
next
  case (2 i seen f fs)
  have "check_fields i seen (f # fs) = None \<longleftrightarrow>
      field_wf f \<and> pf_FieldID f \<notin> set seen \<and> check_fields (Suc i) (pf_FieldID f # seen) fs = None"
    by (auto simp: field_wf_def split: option.splits)
  with 2 show ?case by (cases "field_wf f \<and> pf_FieldID f \<notin> set seen")
      (auto simp: field_wf_def split: option.splits)
qed

lemma check_preserved_None:
  assumes "distinct (map pf_FieldID ps)"
  shows "check_preserved ps cs = None \<longleftrightarrow>
    (\<forall>c \<in> set cs. \<exists>p \<in> set ps. pf_FieldID p = pf_FieldID c \<and>
      pf_SourceColumn p = pf_SourceColumn c \<and> pf_Transform p = pf_Transform c)"
proof (induction cs)
  case Nil
  then show ?case by simp
next
  case (Cons c cs)
  show ?case
  proof (cases "find (\<lambda>p. pf_FieldID p = pf_FieldID c) ps")
    case None
    then have "\<forall>p \<in> set ps. pf_FieldID p \<noteq> pf_FieldID c" by (auto simp: find_None_iff)
    with None show ?thesis by auto
  next
    case (Some p)
    then have p: "p \<in> set ps" "pf_FieldID p = pf_FieldID c" by (auto simp: find_Some_iff)
    have "p' = p" if "p' \<in> set ps" "pf_FieldID p' = pf_FieldID c" for p'
      using assms p that by (simp add: distinct_map inj_on_def)
    with p have "(\<exists>p \<in> set ps. pf_FieldID p = pf_FieldID c \<and> pf_SourceColumn p = pf_SourceColumn c \<and>
        pf_Transform p = pf_Transform c) \<longleftrightarrow>
        pf_SourceColumn p = pf_SourceColumn c \<and> pf_Transform p = pf_Transform c" by blast
    with Some Cons.IH show ?thesis by auto
  qed
qed

lemma max_field_id_less: "max_field_id cs m < x \<longleftrightarrow> m < x \<and> (\<forall>c \<in> set cs. pf_FieldID c < x)"
  by (induction cs m rule: max_field_id.induct) auto

lemma check_new_ids_None:
  "check_new_ids ids m ps = None \<longleftrightarrow> (\<forall>p \<in> set ps. pf_FieldID p \<in> set ids \<or> m < pf_FieldID p)"
  by (induction ids m ps rule: check_new_ids.induct) auto

lemma check_evolution_None:
  assumes "distinct (map pf_FieldID (ps_Fields new))"
  shows "check_evolution old new = None \<longleftrightarrow> spec_evolves old new"
proof -
  have "check_evolution old new = None \<longleftrightarrow>
      check_preserved (ps_Fields new) (ps_Fields old) = None \<and>
      check_new_ids (map pf_FieldID (ps_Fields old)) (max_field_id (ps_Fields old) 0)
        (ps_Fields new) = None"
    by (simp add: check_evolution_def split: option.split)
  then show ?thesis
    by (simp add: check_preserved_None [OF assms] check_new_ids_None max_field_id_less spec_evolves_def)
qed

lemma spec_evolves_trans:
  assumes "spec_evolves a b" "spec_evolves b c"
  shows "spec_evolves a c"
proof -
  have up: "\<exists>y \<in> set (ps_Fields b). pf_FieldID y = pf_FieldID x" if "x \<in> set (ps_Fields a)" for x
    using assms(1) that by (auto simp: spec_evolves_def)
  have "pf_FieldID p \<in> pf_FieldID ` set (ps_Fields a) \<or>
      (0 < pf_FieldID p \<and> (\<forall>x \<in> set (ps_Fields a). pf_FieldID x < pf_FieldID p))"
    if p: "p \<in> set (ps_Fields c)" for p
  proof (cases "pf_FieldID p \<in> pf_FieldID ` set (ps_Fields b)")
    case True
    then show ?thesis using assms(1) by (force simp: spec_evolves_def)
  next
    case False
    with assms(2) p have "0 < pf_FieldID p" "\<forall>y \<in> set (ps_Fields b). pf_FieldID y < pf_FieldID p"
      by (auto simp: spec_evolves_def)
    then show ?thesis using up by fastforce
  qed
  moreover have "\<exists>p \<in> set (ps_Fields c). pf_FieldID p = pf_FieldID x \<and>
      pf_SourceColumn p = pf_SourceColumn x \<and> pf_Transform p = pf_Transform x"
    if "x \<in> set (ps_Fields a)" for x
    using assms that unfolding spec_evolves_def by metis
  ultimately show ?thesis by (simp add: spec_evolves_def)
qed

text \<open>The round trip through JSON.\<close>

definition field_codable :: "PartitionField \<Rightarrow> bool" where
  "field_codable f \<longleftrightarrow>
     in_int64 (pf_FieldID f) \<and> utf8_ok (pf_SourceColumn f) \<and> utf8_ok (pf_Transform f) \<and>
     (case pf_TransformParam f of None \<Rightarrow> True | Some p \<Rightarrow> in_int64 p)"

lemma dec_enc_PartitionField:
  assumes "field_codable f"
  shows "dec_PartitionField (enc_PartitionField f) zero_PartitionField = Some f"
proof -
  have m: "match_field PartitionField_names n = Some n"
    if "n \<in> {''field_id'', ''source_column'', ''transform'', ''transform_param''}" for n
    using that by (auto simp: match_field_def PartitionField_names_def)
  show ?thesis
    using assms by (cases f)
      (auto simp: dec_PartitionField_def dec_struct_def enc_PartitionField_def m
        set_PartitionField_def zero_PartitionField_def field_codable_def dec_ptr_int_def
        split: option.splits)
qed

lemma enc_PartitionField_good: "field_codable f \<Longrightarrow> d < max_depth \<Longrightarrow> json_good d (enc_PartitionField f)"
  by (auto simp: enc_PartitionField_def field_codable_def byte_def split: option.splits)

lemma spec_roundtrip:
  assumes "\<forall>f \<in> set (ps_Fields s). field_codable f"
  shows "unmarshalSpec (marshalSpec s) = Some s"
proof -
  let ?j = "JObj [(''fields'', JArr (map enc_PartitionField (ps_Fields s)))]"
  have "json_good 0 ?j"
    using assms by (auto intro!: enc_PartitionField_good simp: max_depth_def byte_def)
  then have "json_parse (json_print ?j) = Some ?j" by (rule json_print_parse)
  then show ?thesis
    using assms by (cases s) (simp add: unmarshalSpec_def marshalSpec_def dec_struct_def
      match_field_def set_PartitionSpec_def dec_slice_def dec_elems_map dec_enc_PartitionField)
qed

lemma validate_None:
  "ValidateSpecChange cur prop = None \<longleftrightarrow>
   (\<exists>new. unmarshalSpec prop = Some new \<and> spec_wf new \<and>
     (cur = [] \<or> unmarshalSpec cur = None \<or> (\<exists>old. unmarshalSpec cur = Some old \<and> spec_evolves old new)))"
proof (cases "unmarshalSpec prop")
  case None
  then show ?thesis by (simp add: ValidateSpecChange_def)
next
  case (Some new)
  have fields: "check_fields 0 [] (ps_Fields new) = None \<longleftrightarrow>
      (\<forall>f \<in> set (ps_Fields new). field_wf f) \<and> distinct (map pf_FieldID (ps_Fields new))"
    by (simp add: check_fields_None)
  show ?thesis
  proof (cases "spec_wf new")
    case True
    then have "check_fields 0 [] (ps_Fields new) = None" "distinct (map pf_FieldID (ps_Fields new))"
      "ps_Fields new \<noteq> []" using fields by (simp_all add: spec_wf_def)
    with Some True show ?thesis
      by (simp add: ValidateSpecChange_def check_evolution_None split: option.split)
  next
    case False
    with fields have "ps_Fields new = [] \<or> check_fields 0 [] (ps_Fields new) \<noteq> None"
      by (auto simp: spec_wf_def)
    with Some False show ?thesis by (auto simp: ValidateSpecChange_def split: option.split)
  qed
qed

lemma validateI:
  "unmarshalSpec cur = Some old \<Longrightarrow> unmarshalSpec prop = Some new \<Longrightarrow> spec_wf new \<Longrightarrow> spec_evolves old new \<Longrightarrow>
   ValidateSpecChange cur prop = None"
  by (simp add: validate_None)

subsection \<open>Properties\<close>

text \<open>
  C33: The validation accepts a proposed spec exactly when it decodes to a spec whose fields are all
  well formed with distinct ids and which, when there is a current spec that decodes, keeps every
  current field with its id, source column and transform and gives new fields ids above zero and
  above all current ones.
\<close>

theorem ValidateSpecChange_iff:
  "ValidateSpecChange cur prop = None \<longleftrightarrow>
   (\<exists>new. unmarshalSpec prop = Some new \<and> ps_Fields new \<noteq> [] \<and>
     (\<forall>f \<in> set (ps_Fields new). field_wf f) \<and> distinct (map pf_FieldID (ps_Fields new)) \<and>
     (\<forall>old. cur \<noteq> [] \<and> unmarshalSpec cur = Some old \<longrightarrow> spec_evolves old new))"
  unfolding validate_None spec_wf_def by (cases "unmarshalSpec cur") auto

text \<open>Two specs used as concrete inputs.\<close>

definition spec_v1 :: PartitionSpec where
  "spec_v1 = \<lparr>ps_Fields = [\<lparr>pf_FieldID = 1, pf_SourceColumn = ''region'',
     pf_Transform = TransformBucket, pf_TransformParam = Some 16\<rparr>]\<rparr>"

definition spec_v2 :: PartitionSpec where
  "spec_v2 = \<lparr>ps_Fields = [\<lparr>pf_FieldID = 1, pf_SourceColumn = ''region'',
     pf_Transform = TransformBucket, pf_TransformParam = Some 32\<rparr>,
     \<lparr>pf_FieldID = 2, pf_SourceColumn = ''day'', pf_Transform = TransformDay,
      pf_TransformParam = None\<rparr>]\<rparr>"

lemma spec_examples:
  "unmarshalSpec (marshalSpec spec_v1) = Some spec_v1"
  "unmarshalSpec (marshalSpec spec_v2) = Some spec_v2"
  by (rule spec_roundtrip, simp add: spec_v1_def spec_v2_def field_codable_def in_int64_def go_defs
      byte_def)+

lemma spec_examples_wf: "spec_wf spec_v1" "spec_wf spec_v2"
  by (simp_all add: spec_v1_def spec_v2_def spec_wf_def field_wf_def validTransforms_def
      paramRequired_def go_defs)

theorem ValidateSpecChange_iff_witness: "ValidateSpecChange [] (marshalSpec spec_v1) = None"
  using ValidateSpecChange_iff [of "[]" "marshalSpec spec_v1"] spec_examples spec_examples_wf
  by (simp add: spec_wf_def)

text \<open>
  C34: Spec evolution composes: a chain of accepted changes between specs that decode is itself an
  acceptable change, so every field of any past spec is still there with its column and transform,
  and the id of a field is never given to another one later.
\<close>

theorem spec_changes_compose:
  assumes "unmarshalSpec a = Some sa" "unmarshalSpec b = Some sb"
    and "ValidateSpecChange a b = None" "ValidateSpecChange b c = None"
  shows "ValidateSpecChange a c = None"
proof -
  obtain sc where c: "unmarshalSpec c = Some sc" "spec_wf sc"
    and bc: "b = [] \<or> spec_evolves sb sc"
    using assms(2,4) by (auto simp: validate_None)
  have "b \<noteq> []" using assms(2) by (auto simp: unmarshalSpec_def json_parse_def json_parse_with_def
        json_fuel_def skip_ws_def)
  with bc have "spec_evolves sb sc" by simp
  moreover have "a = [] \<or> spec_evolves sa sb" using assms(1,2,3) by (auto simp: validate_None)
  ultimately show ?thesis using c assms(1) spec_evolves_trans by (auto simp: validate_None)
qed

theorem spec_changes_compose_witness:
  "ValidateSpecChange (marshalSpec spec_v1) (marshalSpec spec_v2) = None"
proof -
  have "spec_evolves spec_v1 spec_v1" "spec_evolves spec_v1 spec_v2"
    by (simp_all add: spec_evolves_def spec_v1_def spec_v2_def)
  have "ValidateSpecChange (marshalSpec spec_v1) (marshalSpec spec_v1) = None"
    by (rule validateI [OF spec_examples(1) spec_examples(1) spec_examples_wf(1)]) fact
  moreover have "ValidateSpecChange (marshalSpec spec_v1) (marshalSpec spec_v2) = None"
    by (rule validateI [OF spec_examples spec_examples_wf(2)]) fact
  ultimately show ?thesis by (rule spec_changes_compose [OF spec_examples(1) spec_examples(1)])
qed

text \<open>The same field with another parameter, where its transform takes one.\<close>

definition with_param :: "int64 \<Rightarrow> PartitionField \<Rightarrow> PartitionField" where
  "with_param n f = (if paramRequired (pf_Transform f) then f\<lparr>pf_TransformParam := Some n\<rparr> else f)"

lemma with_param_simps [simp]:
  "pf_FieldID (with_param n f) = pf_FieldID f" "pf_SourceColumn (with_param n f) = pf_SourceColumn f"
  "pf_Transform (with_param n f) = pf_Transform f"
  by (simp_all add: with_param_def)



text \<open>
  C36: A spec that is written as JSON is read back unchanged.
\<close>

theorem spec_json_roundtrip:
  assumes "\<forall>f \<in> set (ps_Fields s). in_int64 (pf_FieldID f) \<and> utf8_ok (pf_SourceColumn f) \<and>
      utf8_ok (pf_Transform f) \<and> (\<forall>p. pf_TransformParam f = Some p \<longrightarrow> in_int64 p)"
  shows "unmarshalSpec (marshalSpec s) = Some s"
  using assms by (intro spec_roundtrip) (auto simp: field_codable_def split: option.split)

theorem spec_json_roundtrip_witness: "unmarshalSpec (marshalSpec spec_v2) = Some spec_v2"
  by (rule spec_json_roundtrip) (simp add: spec_v2_def in_int64_def go_defs byte_def)

end
