(* ===== verification/Catalog_State.thy ===== *)
theory Catalog_State
  imports PG_Client Lock_Manager LRU_Cache
begin

text \<open>
  The state the catalog components share, and the \<^verbatim>\<open>unlock := locks.Lock...(t); defer unlock()\<close>
  discipline of their methods. \<open>core\<close> is what the locks protect: the database connection, the
  partition cache and the transaction table. A method run returns \<open>None\<close> when it waits for a lock
  that it holds itself, which is forever.
\<close>

subsection \<open>Components\<close>

record core =
  c_pg :: pg
  c_cache :: "(string, PartitionRow list) lru"
  c_mvcc :: mvcc

record sys =
  sys_locks :: lock_manager
  sys_core :: core

text \<open>
  The environment of a server: that of PostgreSQL, the configured cache switch, and the texts of
  \<^verbatim>\<open>%q\<close> and of JSON errors.
\<close>

record server_env =
  se_pg :: pg_env
  se_disableCache :: bool
  se_quote :: "string \<Rightarrow> string"
  se_json_error :: "string \<Rightarrow> string"

type_synonym 'r act = "sys \<Rightarrow> ('r \<times> sys) option"

definition on_pg :: "(pg \<Rightarrow> 'r \<times> pg) \<Rightarrow> core \<Rightarrow> 'r \<times> core" where
  "on_pg m c = (case m (c_pg c) of (r, w) \<Rightarrow> (r, c\<lparr>c_pg := w\<rparr>))"

text \<open>A method that takes no lock, and the sequence of two method calls.\<close>

definition unlocked :: "(core \<Rightarrow> 'r \<times> core) \<Rightarrow> 'r act" where
  "unlocked m s = (case m (sys_core s) of (r, c) \<Rightarrow> Some (r, s\<lparr>sys_core := c\<rparr>))"

definition act_then :: "'a act \<Rightarrow> ('a \<Rightarrow> 'r act) \<Rightarrow> 'r act" where
  "act_then m k s = (case m s of None \<Rightarrow> None | Some (x, s') \<Rightarrow> k x s')"

definition act_ret :: "'r \<Rightarrow> 'r act" where
  "act_ret r s = Some (r, s)"

subsection \<open>Locking\<close>

fun acquire_all :: "(bool \<times> string) list \<Rightarrow> lock_manager \<Rightarrow> ((bool \<times> nat) list \<times> lock_manager) option" where
  "acquire_all [] m = Some ([], m)"
| "acquire_all ((x, t) # ts) m =
     (case lm_acquire x t m of
        None \<Rightarrow> None
      | Some (l, m1) \<Rightarrow>
          (case acquire_all ts m1 of None \<Rightarrow> None | Some (hs, m2) \<Rightarrow> Some ((x, l) # hs, m2)))"

text \<open>Deferred calls run last in, first out.\<close>

fun release_all :: "(bool \<times> nat) list \<Rightarrow> lock_manager \<Rightarrow> lock_manager option" where
  "release_all [] m = Some m"
| "release_all ((x, l) # hs) m =
     (case release_all hs m of None \<Rightarrow> None | Some m1 \<Rightarrow> lm_release x l m1)"

definition with_locks :: "(bool \<times> string) list \<Rightarrow> (core \<Rightarrow> 'r \<times> core) \<Rightarrow> 'r act" where
  "with_locks ts body s =
     (case acquire_all ts (sys_locks s) of
        None \<Rightarrow> None
      | Some (hs, lk) \<Rightarrow>
          (case body (sys_core s) of
             (r, c) \<Rightarrow>
               (case release_all hs lk of
                  None \<Rightarrow> None
                | Some lk' \<Rightarrow> Some (r, \<lparr>sys_locks = lk', sys_core = c\<rparr>))))"

subsection \<open>Methods on idle locks\<close>

definition idle :: "lock_manager \<Rightarrow> bool" where
  "idle m \<longleftrightarrow> lm_inv m \<and> lm_state m = (\<lambda>_. rw_free)"

lemma idle_NewManager [simp]: "idle NewManager"
  by (simp add: idle_def fun_eq_iff)

lemma acquire_all_session:
  assumes "lm_inv m" "distinct (map snd ts)" "\<forall>p \<in> set ts. lm_state m (snd p) = rw_free"
  shows "\<exists>hs m'. acquire_all ts m = Some (hs, m') \<and> lm_inv m' \<and>
    (\<forall>t l. lm_addr m t l \<longrightarrow> lm_addr m' t l) \<and>
    (\<exists>m3. release_all hs m' = Some m3 \<and> lm_inv m3 \<and> lm_state m3 = lm_state m \<and>
       lm_addr m3 = lm_addr m')"
  using assms
proof (induction ts arbitrary: m)
  case Nil
  then show ?case by simp
next
  case (Cons p ts)
  obtain x t where p: "p = (x, t)" by (cases p)
  have free: "lm_state m t = rw_free" using Cons.prems(3) p by simp
  obtain l m1 where acq: "lm_acquire x t m = Some (l, m1)"
    using tl.acquire_free [OF Cons.prems(1) free] by blast
  note a = tl.acquire_Some [OF Cons.prems(1) acq]
  have inv1: "lm_inv m1" and addr1: "lm_addr m1 t l" using a by blast+
  have "lm_state m1 (snd q) = rw_free" if "q \<in> set ts" for q
  proof -
    have "snd q \<noteq> t" using Cons.prems(2) p that by auto
    then have "lm_state m1 (snd q) = lm_state m (snd q)" using a by (metis fun_upd_other)
    then show ?thesis using Cons.prems(3) that by simp
  qed
  moreover have "distinct (map snd ts)" using Cons.prems(2) by simp
  ultimately obtain hs m' m3 where
    rest: "acquire_all ts m1 = Some (hs, m')" "lm_inv m'"
      "\<forall>t l. lm_addr m1 t l \<longrightarrow> lm_addr m' t l"
      "release_all hs m' = Some m3" "lm_inv m3" "lm_state m3 = lm_state m1" "lm_addr m3 = lm_addr m'"
    using Cons.IH [OF inv1] by blast
  have "lm_addr m3 t l" using addr1 rest(3,7) by simp
  from tl.session [OF Cons.prems(1) _ acq rest(5,6) this] free obtain m4 where
    m4: "lm_release x l m3 = Some m4" "lm_inv m4" "lm_addr m4 = lm_addr m3" "lm_state m4 = lm_state m"
    by auto
  have "lm_addr m' t' l'" if "lm_addr m t' l'" for t' l'
    using tl.acquire_keeps [OF Cons.prems(1) acq that] rest(3) by simp
  with rest m4 show ?case by (simp add: p acq)
qed

lemma with_locks_idle:
  assumes "idle (sys_locks s)" "distinct (map snd ts)"
  shows "\<exists>lk. with_locks ts body s =
      Some (fst (body (sys_core s)), \<lparr>sys_locks = lk, sys_core = snd (body (sys_core s))\<rparr>) \<and> idle lk"
proof -
  from acquire_all_session [of "sys_locks s" ts] assms obtain hs m' m3 where
    "acquire_all ts (sys_locks s) = Some (hs, m')" "release_all hs m' = Some m3" "idle m3"
    by (auto simp: idle_def)
  then show ?thesis by (simp add: with_locks_def split: prod.split)
qed

text \<open>The same as a rule for the result of a run.\<close>

lemma with_locks_run:
  assumes "idle (sys_locks s)" "distinct (map snd ts)"
  obtains lk where "idle lk"
    "with_locks ts body s =
      Some (fst (body (sys_core s)), \<lparr>sys_locks = lk, sys_core = snd (body (sys_core s))\<rparr>)"
  using with_locks_idle [OF assms] by blast

text \<open>Taking an exclusive lock twice blocks.\<close>

lemma with_locks_twice:
  assumes "lm_inv (sys_locks s)"
  shows "with_locks [(True, t), (True, t)] body s = None"
proof (cases "lm_acquire True t (sys_locks s)")
  case None
  then show ?thesis by (simp add: with_locks_def)
next
  case (Some lm)
  obtain l m1 where "lm = (l, m1)" by (cases lm)
  with Some tl.exclusive_excludes [OF assms, of t l m1 True] show ?thesis
    by (simp add: with_locks_def)
qed

end
