(* ===== verification/Catalog_Manager.thy ===== *)
theory Catalog_Manager
  imports Catalog_State
begin

text \<open>
  \<^verbatim>\<open>internal/catalog/catalog_manager.go\<close>. A method \<open>cm_X\<close> takes the lock of its table and
  runs the body \<open>X_locked\<close>; the body works on the database only. The three result types of the file
  have the same fields.
\<close>

record OpResult =
  Success :: bool
  ErrorMsg :: string

type_synonym CreateTableResult = OpResult
type_synonym AlterResult = OpResult
type_synonym DropResult = OpResult

definition failure :: "string \<Rightarrow> OpResult" where
  "failure msg = \<lparr>Success = False, ErrorMsg = msg\<rparr>"

definition success :: OpResult where
  "success = \<lparr>Success = True, ErrorMsg = []\<rparr>"

text \<open>\<^verbatim>\<open>if err := tx.Commit(ctx); err != nil { ... }; return Success\<close>\<close>

definition commit_or_fail :: "pg_env \<Rightarrow> pg \<Rightarrow> OpResult \<times> pg" where
  "commit_or_fail E =
     on_err (tx_Commit E) (\<lambda>e. ret (failure (pe_error E e))) (\<lambda>_. ret success)"

definition CreateTable_locked ::
    "pg_env \<Rightarrow> string \<Rightarrow> string \<Rightarrow> string \<Rightarrow> string \<Rightarrow> pg \<Rightarrow> CreateTableResult \<times> pg" where
  "CreateTable_locked E tableName schemaJSON partitionSpecJSON propertiesJSON =
     with_tx E (\<lambda>e. failure (''failed to begin tx: '' @ pe_error E e))
       (on_err (pg_CreateTableTx E tableName schemaJSON partitionSpecJSON propertiesJSON)
          (\<lambda>e. ret (failure (''failed to create table: '' @ pe_error E e)))
          (\<lambda>(tableID, created).
             if \<not> created then ret (failure (''table already exists: '' @ tableName))
             else if partitionSpecJSON \<noteq> [] \<and> partitionSpecJSON \<noteq> ''null''
             then on_err (pg_InsertPartitionSpecTx E tableID 1 partitionSpecJSON ''initial spec'')
               (\<lambda>e. ret (failure (''failed to record initial partition spec: '' @ pe_error E e)))
               (\<lambda>_. commit_or_fail E)
             else commit_or_fail E))"

definition cm_CreateTable ::
    "pg_env \<Rightarrow> string \<Rightarrow> string \<Rightarrow> string \<Rightarrow> string \<Rightarrow> CreateTableResult act" where
  "cm_CreateTable E tableName schemaJSON partitionSpecJSON propertiesJSON =
     with_locks [(True, tableName)]
       (on_pg (CreateTable_locked E tableName schemaJSON partitionSpecJSON propertiesJSON))"

text \<open>Look the table up first; an unknown table is an error.\<close>

definition with_existing ::
    "pg_env \<Rightarrow> string \<Rightarrow> (TableRow \<Rightarrow> pg \<Rightarrow> AlterResult \<times> pg) \<Rightarrow> pg \<Rightarrow> AlterResult \<times> pg" where
  "with_existing E tableName k =
     on_err (pg_GetTable E tableName) (\<lambda>e. ret (failure (pe_error E e)))
       (\<lambda>existing. case existing of
          None \<Rightarrow> ret (failure (''table not found: '' @ tableName))
        | Some row \<Rightarrow> k row)"

definition AlterTablePartitionSpec_locked ::
    "pg_env \<Rightarrow> string \<Rightarrow> string \<Rightarrow> string \<Rightarrow> pg \<Rightarrow> AlterResult \<times> pg" where
  "AlterTablePartitionSpec_locked E tableName newSpecJSON changeSummary =
     with_existing E tableName (\<lambda>existing.
       with_tx E (\<lambda>e. failure (pe_error E e))
         (let newVersion = int32_of (tr_PartitionSpecVersion existing + 1) in
          on_err (pg_UpdateTablePartitionSpecTx E tableName newSpecJSON newVersion)
            (\<lambda>e. ret (failure (''failed to update partition spec: '' @ pe_error E e)))
            (\<lambda>_. on_err (pg_InsertPartitionSpecTx E (tr_TableID existing) newVersion newSpecJSON
                           changeSummary)
               (\<lambda>e. ret (failure (''failed to record spec history: '' @ pe_error E e)))
               (\<lambda>_. commit_or_fail E))))"

definition cm_AlterTablePartitionSpec ::
    "pg_env \<Rightarrow> string \<Rightarrow> string \<Rightarrow> string \<Rightarrow> AlterResult act" where
  "cm_AlterTablePartitionSpec E tableName newSpecJSON changeSummary =
     with_locks [(True, tableName)]
       (on_pg (AlterTablePartitionSpec_locked E tableName newSpecJSON changeSummary))"

definition cm_GetTable :: "pg_env \<Rightarrow> string \<Rightarrow> (pg_error + TableRow option) act" where
  "cm_GetTable E tableName = with_locks [(False, tableName)] (on_pg (pg_GetTable E tableName))"

definition AlterTableSchema_locked ::
    "pg_env \<Rightarrow> string \<Rightarrow> string \<Rightarrow> string \<Rightarrow> pg \<Rightarrow> AlterResult \<times> pg" where
  "AlterTableSchema_locked E tableName newSchemaJSON changeSummary =
     with_existing E tableName (\<lambda>existing.
       with_tx E (\<lambda>e. failure (pe_error E e))
         (let newVersion = int32_of (tr_SchemaVersion existing + 1) in
          on_err (pg_UpdateTableSchema E tableName newSchemaJSON newVersion changeSummary)
            (\<lambda>e. ret (failure (''failed to update schema for: '' @ tableName)))
            (\<lambda>_. commit_or_fail E)))"

definition cm_AlterTableSchema ::
    "pg_env \<Rightarrow> string \<Rightarrow> string \<Rightarrow> string \<Rightarrow> AlterResult act" where
  "cm_AlterTableSchema E tableName newSchemaJSON changeSummary =
     with_locks [(True, tableName)]
       (on_pg (AlterTableSchema_locked E tableName newSchemaJSON changeSummary))"

definition RenameTable_locked :: "pg_env \<Rightarrow> string \<Rightarrow> string \<Rightarrow> pg \<Rightarrow> AlterResult \<times> pg" where
  "RenameTable_locked E oldName newName =
     on_err (pg_RenameTable E oldName newName) (\<lambda>e. ret (failure (pe_error E e)))
       (\<lambda>ok. if \<not> ok then ret (failure (''failed to rename '' @ oldName @ '' to '' @ newName))
          else ret success)"

definition cm_RenameTable :: "pg_env \<Rightarrow> string \<Rightarrow> string \<Rightarrow> AlterResult act" where
  "cm_RenameTable E oldName newName =
     with_locks [(True, oldName), (True, newName)] (on_pg (RenameTable_locked E oldName newName))"

definition DropTable_locked :: "pg_env \<Rightarrow> string \<Rightarrow> bool \<Rightarrow> pg \<Rightarrow> DropResult \<times> pg" where
  "DropTable_locked E tableName purge =
     with_tx E (\<lambda>e. failure (pe_error E e))
       (on_err (pg_DropTable E tableName purge) (\<lambda>e. ret (failure (pe_error E e)))
          (\<lambda>ok. if \<not> ok then ret (failure (''failed to drop table: '' @ tableName))
             else commit_or_fail E))"

definition cm_DropTable :: "pg_env \<Rightarrow> string \<Rightarrow> bool \<Rightarrow> DropResult act" where
  "cm_DropTable E tableName purge =
     with_locks [(True, tableName)] (on_pg (DropTable_locked E tableName purge))"

definition cm_ListTables ::
    "pg_env \<Rightarrow> string \<Rightarrow> int32 \<Rightarrow> string \<Rightarrow> (pg_error + TableRow list) act" where
  "cm_ListTables E namespace pageSize pageToken =
     unlocked (on_pg (pg_ListTables E namespace pageSize pageToken))"

end
