(* ===== verification/Partition_Registry.thy ===== *)
theory Partition_Registry
  imports Catalog_Manager
begin

text \<open>
  \<^verbatim>\<open>internal/catalog/partition_registry.go\<close>: reads of the partitions of a snapshot through
  the LRU cache, table statistics, and the commit of a snapshot. A nil slice of rows (the table does
  not exist) is \<open>None\<close>.
\<close>

record PartitionStats =
  TotalPartitions :: int64
  TotalRows :: int64
  TotalBytes :: int64
  AvgSizeBytes :: int64

record CommitResult =
  cr_Success :: bool
  cr_SnapshotID :: uint64
  cr_ErrorMsg :: string

definition commit_failed :: "string \<Rightarrow> CommitResult" where
  "commit_failed msg = \<lparr>cr_Success = False, cr_SnapshotID = 0, cr_ErrorMsg = msg\<rparr>"

definition makeCacheKey :: "string \<Rightarrow> uint64 \<Rightarrow> string" where
  "makeCacheKey tab snapshot = tab @ '':'' @ FormatUint snapshot"

definition resolveSnapshot :: "pg_env \<Rightarrow> string \<Rightarrow> uint64 \<Rightarrow> pg \<Rightarrow> (pg_error + uint64) \<times> pg" where
  "resolveSnapshot E tableName snapshotID =
     (if snapshotID \<noteq> 0 then ret (Inr snapshotID)
      else on_err (pg_GetCurrentSnapshot E tableName) (\<lambda>e. ret (Inl e)) (\<lambda>current. ret (Inr current)))"

subsection \<open>Reads\<close>

definition cache_Get :: "string \<Rightarrow> core \<Rightarrow> PartitionRow list option \<times> core" where
  "cache_Get key c = (case lru_Get key (c_cache c) of (v, l) \<Rightarrow> (v, c\<lparr>c_cache := l\<rparr>))"

definition cache_Put :: "string \<Rightarrow> PartitionRow list \<Rightarrow> core \<Rightarrow> core" where
  "cache_Put key rows c = c\<lparr>c_cache := lru_Put key rows (c_cache c)\<rparr>"

definition GetPartitions_query ::
    "server_env \<Rightarrow> string \<Rightarrow> uint64 \<Rightarrow> core \<Rightarrow> (pg_error + PartitionRow list option) \<times> core" where
  "GetPartitions_query S tableName readSnap =
     on_err (on_pg (pg_QueryPartitions (se_pg S) tableName readSnap)) (\<lambda>e. ret (Inl e))
       (\<lambda>rows c. case rows of
          None \<Rightarrow> (Inr None, c)
        | Some ps \<Rightarrow>
            (Inr (Some ps),
             if se_disableCache S then c else cache_Put (makeCacheKey tableName readSnap) ps c))"

definition GetPartitions_locked ::
    "server_env \<Rightarrow> string \<Rightarrow> uint64 \<Rightarrow> core \<Rightarrow> (pg_error + PartitionRow list option) \<times> core" where
  "GetPartitions_locked S tableName snapshotID =
     on_err (on_pg (resolveSnapshot (se_pg S) tableName snapshotID)) (\<lambda>e. ret (Inl e))
       (\<lambda>readSnap c.
          if se_disableCache S then GetPartitions_query S tableName readSnap c
          else
            (case cache_Get (makeCacheKey tableName readSnap) c of
               (Some cached, c') \<Rightarrow> (Inr (Some cached), c')
             | (None, c') \<Rightarrow> GetPartitions_query S tableName readSnap c'))"

definition reg_GetPartitions ::
    "server_env \<Rightarrow> string \<Rightarrow> uint64 \<Rightarrow> (pg_error + PartitionRow list option) act" where
  "reg_GetPartitions S tableName snapshotID =
     with_locks [(False, tableName)] (GetPartitions_locked S tableName snapshotID)"

definition GetPartitionsPaged_locked ::
    "pg_env \<Rightarrow> string \<Rightarrow> uint64 \<Rightarrow> int32 \<Rightarrow> int64 \<Rightarrow> pg \<Rightarrow>
     (pg_error + PartitionRow list option) \<times> pg" where
  "GetPartitionsPaged_locked E tableName snapshotID pageSize lastPartitionID =
     on_err (resolveSnapshot E tableName snapshotID) (\<lambda>e. ret (Inl e))
       (\<lambda>readSnap. on_err (pg_QueryPartitionsPaged E tableName readSnap pageSize lastPartitionID)
          (\<lambda>e. ret (Inl e)) (\<lambda>rows. ret (Inr rows)))"

definition reg_GetPartitionsPaged ::
    "pg_env \<Rightarrow> string \<Rightarrow> uint64 \<Rightarrow> int32 \<Rightarrow> int64 \<Rightarrow> (pg_error + PartitionRow list option) act" where
  "reg_GetPartitionsPaged E tableName snapshotID pageSize lastPartitionID =
     with_locks [(False, tableName)]
       (on_pg (GetPartitionsPaged_locked E tableName snapshotID pageSize lastPartitionID))"

definition zero_stats :: PartitionStats where
  "zero_stats = \<lparr>TotalPartitions = 0, TotalRows = 0, TotalBytes = 0, AvgSizeBytes = 0\<rparr>"

definition add_row :: "PartitionRow \<Rightarrow> PartitionStats \<Rightarrow> PartitionStats" where
  "add_row p st =
     st\<lparr>TotalRows := int64_of (TotalRows st + pr_RowCount p),
        TotalBytes := int64_of (TotalBytes st + pr_SizeBytes p)\<rparr>"

text \<open>Go's integer division truncates towards zero; the divisor is positive.\<close>

definition trunc_div :: "int \<Rightarrow> int \<Rightarrow> int" where
  "trunc_div a b = (if a < 0 then - ((- a) div b) else a div b)"

definition stats_of_rows :: "PartitionRow list \<Rightarrow> PartitionStats" where
  "stats_of_rows rows =
     (let st = fold add_row rows (zero_stats\<lparr>TotalPartitions := int (length rows)\<rparr>) in
      if TotalPartitions st > 0
      then st\<lparr>AvgSizeBytes := trunc_div (TotalBytes st) (TotalPartitions st)\<rparr> else st)"

definition GetStats_locked :: "pg_env \<Rightarrow> string \<Rightarrow> pg \<Rightarrow> (pg_error + PartitionStats) \<times> pg" where
  "GetStats_locked E tableName =
     on_err (resolveSnapshot E tableName 0) (\<lambda>e. ret (Inl e))
       (\<lambda>readSnap. on_err (pg_QueryPartitions E tableName readSnap) (\<lambda>e. ret (Inl e))
          (\<lambda>rows. ret (Inr (case rows of None \<Rightarrow> zero_stats | Some ps \<Rightarrow> stats_of_rows ps))))"

definition reg_GetStats :: "pg_env \<Rightarrow> string \<Rightarrow> (pg_error + PartitionStats) act" where
  "reg_GetStats E tableName = with_locks [(False, tableName)] (on_pg (GetStats_locked E tableName))"

subsection \<open>Commit\<close>

definition InvalidateTableCache :: "string \<Rightarrow> core \<Rightarrow> int \<times> core" where
  "InvalidateTableCache tableName c =
     (let pre = tableName @ '':'' in
      case lru_InvalidateIf (\<lambda>key. length key \<ge> length pre \<and> take (length pre) key = pre) (c_cache c) of
        (n, l) \<Rightarrow> (n, c\<lparr>c_cache := l\<rparr>))"

definition CacheSize :: "core \<Rightarrow> int" where
  "CacheSize c = lru_Size (c_cache c)"

definition CacheHits :: "core \<Rightarrow> uint64" where
  "CacheHits c = lru_Hits (c_cache c)"

definition CacheMisses :: "core \<Rightarrow> uint64" where
  "CacheMisses c = lru_Misses (c_cache c)"

text \<open>The two loops over the request, stopping at the first error.\<close>

fun insert_partitions :: "pg_env \<Rightarrow> string \<Rightarrow> uint64 \<Rightarrow> PartitionRow list \<Rightarrow> pg \<Rightarrow> (string + unit) \<times> pg" where
  "insert_partitions E tableName newSnap [] = ret (Inr ())"
| "insert_partitions E tableName newSnap (part # parts) =
     on_err (pg_InsertPartitionTx E tableName newSnap part)
       (\<lambda>e. ret (Inl (''failed to insert partition: '' @ pr_PartitionKey part)))
       (\<lambda>_. insert_partitions E tableName newSnap parts)"

fun mark_partitions :: "pg_env \<Rightarrow> string \<Rightarrow> uint64 \<Rightarrow> string list \<Rightarrow> pg \<Rightarrow> (string + unit) \<times> pg" where
  "mark_partitions E tableName newSnap [] = ret (Inr ())"
| "mark_partitions E tableName newSnap (key # keys) =
     on_err (pg_MarkPartitionDeletedTx E tableName key newSnap)
       (\<lambda>e. ret (Inl (''failed to mark partition deleted: '' @ key)))
       (\<lambda>_. mark_partitions E tableName newSnap keys)"

definition summaries_json :: "string list \<Rightarrow> string" where
  "summaries_json keys = json_print (JArr (map (\<lambda>k. JObj [(''partition_key'', JStr k)]) keys))"

definition manifest_path :: "string \<Rightarrow> uint64 \<Rightarrow> nat \<Rightarrow> string" where
  "manifest_path tableName newSnap manifestCount =
     ''iceberg://'' @ tableName @ ''/'' @ FormatUint newSnap @ ''/'' @ FormatInt (int manifestCount) @
     ''.avro''"

definition total_rows :: "PartitionRow list \<Rightarrow> int64" where
  "total_rows parts = fold (\<lambda>p n. int64_of (n + pr_RowCount p)) parts 0"

definition added_manifest ::
    "string \<Rightarrow> int64 \<Rightarrow> uint64 \<Rightarrow> int32 \<Rightarrow> nat \<Rightarrow> PartitionRow list \<Rightarrow> ManifestFileRow" where
  "added_manifest tableName tableID newSnap specVersion manifestCount parts =
     \<lparr>mf_ManifestFileID = 0, mf_TableID = tableID, mf_SnapshotID = int64_of_uint64 newSnap,
      mf_ManifestPath = manifest_path tableName newSnap manifestCount,
      mf_PartitionSpecID = specVersion,
      mf_AddedFilesCount = int32_of (int (length parts)), mf_DeletedFilesCount = 0,
      mf_AddedRowsCount = total_rows parts, mf_DeletedRowsCount = 0,
      mf_PartitionSummaries = summaries_json (map pr_PartitionKey parts)\<rparr>"

definition deleted_manifest ::
    "string \<Rightarrow> int64 \<Rightarrow> uint64 \<Rightarrow> int32 \<Rightarrow> nat \<Rightarrow> string list \<Rightarrow> ManifestFileRow" where
  "deleted_manifest tableName tableID newSnap specVersion manifestCount keys =
     \<lparr>mf_ManifestFileID = 0, mf_TableID = tableID, mf_SnapshotID = int64_of_uint64 newSnap,
      mf_ManifestPath = manifest_path tableName newSnap manifestCount,
      mf_PartitionSpecID = specVersion,
      mf_AddedFilesCount = 0, mf_DeletedFilesCount = int32_of (int (length keys)),
      mf_AddedRowsCount = 0, mf_DeletedRowsCount = 0,
      mf_PartitionSummaries = summaries_json keys\<rparr>"

text \<open>Write one manifest unless it is empty; the result is the new manifest count.\<close>

definition write_manifest ::
    "pg_env \<Rightarrow> bool \<Rightarrow> string \<Rightarrow> (nat \<Rightarrow> ManifestFileRow) \<Rightarrow> nat \<Rightarrow> pg \<Rightarrow> (string + nat) \<times> pg" where
  "write_manifest E nonempty msg mf manifestCount =
     (if nonempty
      then on_err (pg_InsertManifestFileTx E (mf manifestCount))
        (\<lambda>e. ret (Inl (msg @ pe_error E e))) (\<lambda>_. ret (Inr (Suc manifestCount)))
      else ret (Inr manifestCount))"

text \<open>The part of the transaction after the snapshot row is there.\<close>

definition commit_rows ::
    "pg_env \<Rightarrow> string \<Rightarrow> int32 \<Rightarrow> PartitionRow list \<Rightarrow> string list \<Rightarrow> uint64 \<Rightarrow> int64 \<Rightarrow> pg \<Rightarrow>
     CommitResult \<times> pg" where
  "commit_rows E tableName currentSpecVersion newPartitions deletedPartitionKeys newSnap tableID =
     on_err (insert_partitions E tableName newSnap newPartitions) (\<lambda>msg. ret (commit_failed msg)) (\<lambda>_.
     on_err (mark_partitions E tableName newSnap deletedPartitionKeys) (\<lambda>msg. ret (commit_failed msg)) (\<lambda>_.
     on_err (write_manifest E (newPartitions \<noteq> []) ''failed to insert added manifest: ''
               (\<lambda>n. added_manifest tableName tableID newSnap currentSpecVersion n newPartitions) 0)
       (\<lambda>msg. ret (commit_failed msg)) (\<lambda>n.
     on_err (write_manifest E (deletedPartitionKeys \<noteq> []) ''failed to insert deleted manifest: ''
               (\<lambda>n. deleted_manifest tableName tableID newSnap currentSpecVersion n deletedPartitionKeys) n)
       (\<lambda>msg. ret (commit_failed msg)) (\<lambda>manifestCount.
     on_err (pg_InsertManifestListTx E (int64_of_uint64 newSnap) tableID (int32_of (int manifestCount)))
       (\<lambda>e. ret (commit_failed (''failed to insert manifest list: '' @ pe_error E e))) (\<lambda>_.
     on_err (pg_UpdateTableSnapshotTx E tableName newSnap)
       (\<lambda>e. ret (commit_failed ''failed to update table snapshot pointer'')) (\<lambda>_.
     on_err (tx_Commit E) (\<lambda>e. ret (commit_failed (pe_error E e))) (\<lambda>_.
     ret \<lparr>cr_Success = True, cr_SnapshotID = newSnap, cr_ErrorMsg = []\<rparr>)))))))"

definition commit_tx ::
    "pg_env \<Rightarrow> string \<Rightarrow> int32 \<Rightarrow> uint64 \<Rightarrow> string \<Rightarrow> PartitionRow list \<Rightarrow> string list \<Rightarrow> pg \<Rightarrow>
     CommitResult \<times> pg" where
  "commit_tx E tableName currentSpecVersion parentSnapshotID operation newPartitions
       deletedPartitionKeys =
     with_tx E (\<lambda>e. commit_failed (pe_error E e))
       (on_err (pg_InsertSnapshotTx E tableName parentSnapshotID operation
                  (int32_of (int (length newPartitions))) (int32_of (int (length deletedPartitionKeys))))
          (\<lambda>e. ret (commit_failed (pe_error E e)))
          (\<lambda>(newSnap, tableID).
             if newSnap = 0 then ret (commit_failed ''failed to insert snapshot record'')
             else commit_rows E tableName currentSpecVersion newPartitions deletedPartitionKeys
               newSnap tableID))"

definition conflict_msg :: "uint64 \<Rightarrow> uint64 \<Rightarrow> string" where
  "conflict_msg parent current =
     ''conflict: snapshot '' @ FormatUint parent @ '' is no longer current (current='' @
     FormatUint current @ '')''"

definition CommitSnapshot_locked ::
    "pg_env \<Rightarrow> string \<Rightarrow> uint64 \<Rightarrow> string \<Rightarrow> PartitionRow list \<Rightarrow> string list \<Rightarrow> core \<Rightarrow>
     CommitResult \<times> core" where
  "CommitSnapshot_locked E tableName parentSnapshotID operation newPartitions deletedPartitionKeys =
     on_err (on_pg (pg_GetTableSpecVersion E tableName))
       (\<lambda>e. ret (commit_failed (''failed to get spec version: '' @ pe_error E e)))
       (\<lambda>currentSpecVersion.
     on_err (on_pg (pg_GetCurrentSnapshot E tableName)) (\<lambda>e. ret (commit_failed (pe_error E e)))
       (\<lambda>currentSnap.
          if \<not> ValidateParentSnapshot tableName parentSnapshotID currentSnap
          then ret (commit_failed (conflict_msg parentSnapshotID currentSnap))
          else (\<lambda>c.
            case on_pg (commit_tx E tableName currentSpecVersion parentSnapshotID operation
                          newPartitions deletedPartitionKeys) c of
              (r, c') \<Rightarrow>
                (r, if cr_Success r then snd (InvalidateTableCache tableName c') else c'))))"

definition reg_CommitSnapshot ::
    "pg_env \<Rightarrow> string \<Rightarrow> uint64 \<Rightarrow> string \<Rightarrow> PartitionRow list \<Rightarrow> string list \<Rightarrow> CommitResult act" where
  "reg_CommitSnapshot E tableName parentSnapshotID operation newPartitions deletedPartitionKeys =
     with_locks [(True, tableName)]
       (CommitSnapshot_locked E tableName parentSnapshotID operation newPartitions deletedPartitionKeys)"

end
