(* ===== verification/Version_Stores.thy ===== *)
theory Version_Stores
  imports Catalog_Manager Partition_Spec
begin

text \<open>
  The read side of versioned metadata: \<^verbatim>\<open>SchemaStore\<close> (\<^verbatim>\<open>schema_store.go\<close>),
  \<^verbatim>\<open>PartitionSpecStore\<close> (\<^verbatim>\<open>partition_spec_store.go\<close>) and
  \<^verbatim>\<open>ManifestStore\<close> (\<^verbatim>\<open>manifest_store.go\<close>). The first two take the shared lock of the
  table; the validation of specs is in \<open>Partition_Spec\<close>.
\<close>

subsection \<open>Schemas\<close>

record SchemaVersion =
  sv_Version :: int32
  sv_SchemaJSON :: string
  sv_ChangedAt :: string
  sv_ChangeSummary :: string

definition GetCurrentSchema_locked :: "pg_env \<Rightarrow> string \<Rightarrow> pg \<Rightarrow> (pg_error + SchemaVersion option) \<times> pg" where
  "GetCurrentSchema_locked E tableName =
     on_err (pg_GetTable E tableName) (\<lambda>e. ret (Inl e))
       (\<lambda>t. ret (Inr (map_option (\<lambda>tr. \<lparr>sv_Version = tr_SchemaVersion tr,
          sv_SchemaJSON = tr_SchemaJSON tr, sv_ChangedAt = [], sv_ChangeSummary = ''current''\<rparr>) t)))"

definition ss_GetCurrentSchema :: "pg_env \<Rightarrow> string \<Rightarrow> (pg_error + SchemaVersion option) act" where
  "ss_GetCurrentSchema E tableName =
     with_locks [(False, tableName)] (on_pg (GetCurrentSchema_locked E tableName))"

definition scan_history :: "pg_env \<Rightarrow> history_rec \<Rightarrow> SchemaVersion" where
  "scan_history E h =
     \<lparr>sv_Version = h_version h, sv_SchemaJSON = h_schema h,
      sv_ChangedAt = pe_timestamp E (h_changed_at h), sv_ChangeSummary = h_summary h\<rparr>"

text \<open>Any error of the row query is reported as "no such version".\<close>

definition GetSchemaAtVersion_locked ::
    "pg_env \<Rightarrow> string \<Rightarrow> int32 \<Rightarrow> pg \<Rightarrow> (pg_error + SchemaVersion option) \<times> pg" where
  "GetSchemaAtVersion_locked E tableName version =
     on_err (pg_GetTableID E tableName) (\<lambda>e. ret (Inl e)) (\<lambda>tableID.
       if tableID < 0 then ret (Inr None)
       else on_err (scan_row (pool_exec E [] (sql_select_history tableID version)))
         (\<lambda>e. ret (Inr None)) (\<lambda>h. ret (Inr (Some (scan_history E h)))))"

definition ss_GetSchemaAtVersion ::
    "pg_env \<Rightarrow> string \<Rightarrow> int32 \<Rightarrow> (pg_error + SchemaVersion option) act" where
  "ss_GetSchemaAtVersion E tableName version =
     with_locks [(False, tableName)] (on_pg (GetSchemaAtVersion_locked E tableName version))"

definition ListSchemaHistory_locked ::
    "pg_env \<Rightarrow> string \<Rightarrow> pg \<Rightarrow> (pg_error + SchemaVersion list) \<times> pg" where
  "ListSchemaHistory_locked E tableName =
     on_err (pg_GetTableID E tableName) (\<lambda>e. ret (Inl e)) (\<lambda>tableID.
       if tableID < 0 then ret (Inr [])
       else on_err (pool_exec E [] (sql_list_history tableID)) (\<lambda>e. ret (Inl e))
         (\<lambda>rows. ret (Inr (map (scan_history E) rows))))"

definition ss_ListSchemaHistory :: "pg_env \<Rightarrow> string \<Rightarrow> (pg_error + SchemaVersion list) act" where
  "ss_ListSchemaHistory E tableName =
     with_locks [(False, tableName)] (on_pg (ListSchemaHistory_locked E tableName))"

text \<open>\<^verbatim>\<open>strings.TrimSpace(s) == ""\<close>: every rune is white space.\<close>

definition space_len :: "string \<Rightarrow> nat" where
  "space_len s =
     (case map byte (take 3 s) of
        [] \<Rightarrow> 0
      | [a] \<Rightarrow> (if a \<in> {9, 10, 11, 12, 13, 32} then 1 else 0)
      | a # b # r \<Rightarrow>
          (if a \<in> {9, 10, 11, 12, 13, 32} then 1
           else if a = 194 \<and> b \<in> {133, 160} then 2
           else if (a = 225 \<and> b = 154 \<and> r = [128]) \<or>
             (a = 226 \<and> b = 128 \<and> (\<exists>c \<in> set r. (128 \<le> c \<and> c \<le> 138) \<or> c \<in> {168, 169, 175})) \<or>
             (a = 226 \<and> b = 129 \<and> r = [159]) \<or> (a = 227 \<and> b = 128 \<and> r = [128]) then 3
           else 0))"

function all_space :: "string \<Rightarrow> bool" where
  "all_space s =
     (if s = [] then True
      else if space_len s = 0 then False
      else all_space (drop (space_len s) s))"
  by pat_completeness auto
termination by (relation "measure length") auto

definition ValidateSchemaChange :: "string \<Rightarrow> string" where
  "ValidateSchemaChange proposedJSON =
     (if all_space proposedJSON then ''Proposed schema cannot be empty''
      else
        (case json_parse proposedJSON of
           Some (JObj ms) \<Rightarrow>
             (if \<not> list_all (\<lambda>p. any_ok (snd p)) ms then ''Proposed schema must be valid JSON object''
              else if ms = [] then ''Proposed schema cannot be empty''
              else [])
         | _ \<Rightarrow> ''Proposed schema must be valid JSON object''))"

declare all_space.simps [simp del]

subsection \<open>Partition specs\<close>

record PartitionSpecVersion =
  pv_Version :: int32
  pv_SpecJSON :: string
  pv_ChangedAt :: string
  pv_ChangeSummary :: string

definition GetCurrentSpec_locked ::
    "pg_env \<Rightarrow> string \<Rightarrow> pg \<Rightarrow> (pg_error + PartitionSpecVersion option) \<times> pg" where
  "GetCurrentSpec_locked E tableName =
     on_err (pg_GetTable E tableName) (\<lambda>e. ret (Inl e))
       (\<lambda>t. ret (Inr (map_option (\<lambda>tr. \<lparr>pv_Version = tr_PartitionSpecVersion tr,
          pv_SpecJSON = tr_PartitionSpec tr, pv_ChangedAt = [], pv_ChangeSummary = ''current''\<rparr>) t)))"

definition sp_GetCurrentSpec :: "pg_env \<Rightarrow> string \<Rightarrow> (pg_error + PartitionSpecVersion option) act" where
  "sp_GetCurrentSpec E tableName =
     with_locks [(False, tableName)] (on_pg (GetCurrentSpec_locked E tableName))"

definition spec_version :: "PartitionSpecRow \<Rightarrow> PartitionSpecVersion" where
  "spec_version r =
     \<lparr>pv_Version = psr_SpecVersion r, pv_SpecJSON = psr_SpecJSON r, pv_ChangedAt = psr_ChangedAt r,
      pv_ChangeSummary = psr_ChangeSummary r\<rparr>"

definition GetSpecAtVersion_locked ::
    "pg_env \<Rightarrow> string \<Rightarrow> int32 \<Rightarrow> pg \<Rightarrow> (pg_error + PartitionSpecVersion option) \<times> pg" where
  "GetSpecAtVersion_locked E tableName version =
     on_err (pg_GetTableID E tableName) (\<lambda>e. ret (Inl e)) (\<lambda>tableID.
       if tableID < 0 then ret (Inr None)
       else on_err (pg_GetPartitionSpecByVersion E tableID version) (\<lambda>e. ret (Inl e))
         (\<lambda>row. ret (Inr (map_option spec_version row))))"

definition sp_GetSpecAtVersion ::
    "pg_env \<Rightarrow> string \<Rightarrow> int32 \<Rightarrow> (pg_error + PartitionSpecVersion option) act" where
  "sp_GetSpecAtVersion E tableName version =
     with_locks [(False, tableName)] (on_pg (GetSpecAtVersion_locked E tableName version))"

definition ListSpecHistory_locked ::
    "pg_env \<Rightarrow> string \<Rightarrow> pg \<Rightarrow> (pg_error + PartitionSpecVersion list) \<times> pg" where
  "ListSpecHistory_locked E tableName =
     on_err (pg_GetTableID E tableName) (\<lambda>e. ret (Inl e)) (\<lambda>tableID.
       if tableID < 0 then ret (Inr [])
       else on_err (pg_ListPartitionSpecHistory E tableID) (\<lambda>e. ret (Inl e))
         (\<lambda>rows. ret (Inr (map spec_version rows))))"

definition sp_ListSpecHistory :: "pg_env \<Rightarrow> string \<Rightarrow> (pg_error + PartitionSpecVersion list) act" where
  "sp_ListSpecHistory E tableName =
     with_locks [(False, tableName)] (on_pg (ListSpecHistory_locked E tableName))"

subsection \<open>Manifests\<close>

definition ms_GetManifestList ::
    "pg_env \<Rightarrow> string \<Rightarrow> uint64 \<Rightarrow> (pg_error + (ManifestListRow \<times> ManifestFileRow list) option) act" where
  "ms_GetManifestList E tableName snapshotID = unlocked (on_pg (pg_GetManifestList E tableName snapshotID))"

definition ms_GetManifestFile ::
    "pg_env \<Rightarrow> string \<Rightarrow> int64 \<Rightarrow> (pg_error + ManifestFileRow option) act" where
  "ms_GetManifestFile E tableName manifestFileID =
     unlocked (on_pg (pg_GetManifestFile E tableName manifestFileID))"

end
