(* ===== verification/Ice_Config.thy ===== *)
theory Ice_Config
  imports Go_Strconv
begin

text \<open>
  \<^verbatim>\<open>internal/config/config.go\<close>: the configuration read from the environment. The
  environment is a function that gives the empty string for an unset variable, as
  \<^verbatim>\<open>os.Getenv\<close> does. Durations are nanoseconds in an \<^verbatim>\<open>int64\<close>.
\<close>

record Config =
  cfg_PGConnString :: string
  cfg_GRPCAddress :: string
  cfg_CacheCapacity :: int64
  cfg_PoolSize :: int64
  cfg_TxnTimeout :: int64
  cfg_DisableCache :: bool

definition Second :: int64 where
  "Second = 1000000000"

text \<open>\<^verbatim>\<open>if n, err := strconv.Atoi(v); err == nil && n > 0\<close>\<close>

definition positive_var :: "string \<Rightarrow> int64 option" where
  "positive_var v =
     (if v = [] then None
      else (case Atoi v of None \<Rightarrow> None | Some n \<Rightarrow> if n > 0 then Some n else None))"

definition FromEnv :: "(string \<Rightarrow> string) \<Rightarrow> Config" where
  "FromEnv getenv =
     \<lparr>cfg_PGConnString =
        (if getenv ''PG_CONN_STRING'' \<noteq> [] then getenv ''PG_CONN_STRING''
         else ''host=localhost port=5432 dbname=metadata user=metadata_user password=metadata_pass''),
      cfg_GRPCAddress =
        (if getenv ''GRPC_PORT'' \<noteq> [] then ''0.0.0.0:'' @ getenv ''GRPC_PORT''
         else if getenv ''GRPC_ADDRESS'' \<noteq> [] then getenv ''GRPC_ADDRESS''
         else ''0.0.0.0:50051''),
      cfg_CacheCapacity =
        (case positive_var (getenv ''CACHE_CAPACITY'') of Some n \<Rightarrow> n | None \<Rightarrow> 10000),
      cfg_PoolSize = (case positive_var (getenv ''POOL_SIZE'') of Some n \<Rightarrow> n | None \<Rightarrow> 20),
      cfg_TxnTimeout =
        (case positive_var (getenv ''TXN_TIMEOUT_SEC'') of
           Some n \<Rightarrow> int64_of (n * Second) | None \<Rightarrow> 300 * Second),
      cfg_DisableCache = getenv ''DISABLE_CACHE'' \<in> {''true'', ''1'', ''TRUE''}\<rparr>"

lemma positive_var_range: "positive_var v = Some n \<Longrightarrow> 0 < n \<and> in_int64 n"
  by (auto simp: positive_var_def Atoi_def ParseInt_range split: if_splits option.splits)

subsection \<open>Properties\<close>

lemma int64_of_overflow:
  assumes "2 ^ 63 \<le> x" "x < 2 ^ 64"
  shows "int64_of x < 0"
proof -
  have "(x + 2 ^ 63) mod 2 ^ 64 = (x - 2 ^ 63) mod 2 ^ 64"
    using mod_add_self2 [of "x - 2 ^ 63" "2 ^ 64"] by (simp add: add.commute)
  also have "\<dots> = x - 2 ^ 63" using assms by simp
  finally show ?thesis using assms by (simp add: int64_of_def signed_take_bit_eq_take_bit_shift take_bit_eq_mod)
qed

text \<open>
  C37: Whatever the environment holds, the cache capacity and the pool size are positive, and the
  transaction timeout is positive unless \<^verbatim>\<open>TXN_TIMEOUT_SEC\<close> is a number of seconds above
  9223372036. From there to 18446744073 the multiplication with \<^verbatim>\<open>time.Second\<close> overflows to a
  negative timeout, so that every transaction counts as expired at once.
\<close>

theorem FromEnv_bounds:
  "0 < cfg_CacheCapacity (FromEnv env) \<and> 0 < cfg_PoolSize (FromEnv env) \<and>
   ((\<forall>n. Atoi (env ''TXN_TIMEOUT_SEC'') = Some n \<longrightarrow> n \<le> 9223372036) \<longrightarrow>
      0 < cfg_TxnTimeout (FromEnv env)) \<and>
   (\<forall>n. Atoi (env ''TXN_TIMEOUT_SEC'') = Some n \<longrightarrow> 9223372036 < n \<longrightarrow> n \<le> 18446744073 \<longrightarrow>
      cfg_TxnTimeout (FromEnv env) < 0)"
proof -
  have fields: "cfg_CacheCapacity (FromEnv env) =
      (case positive_var (env ''CACHE_CAPACITY'') of Some n \<Rightarrow> n | None \<Rightarrow> 10000)"
    "cfg_PoolSize (FromEnv env) =
      (case positive_var (env ''POOL_SIZE'') of Some n \<Rightarrow> n | None \<Rightarrow> 20)"
    "cfg_TxnTimeout (FromEnv env) =
      (case positive_var (env ''TXN_TIMEOUT_SEC'') of
         Some n \<Rightarrow> int64_of (n * Second) | None \<Rightarrow> 300 * Second)"
    by (simp_all only: FromEnv_def Config.simps)
  have pos: "positive_var v = Some n \<Longrightarrow> 0 < n" for v n using positive_var_range by blast
  have scale: "0 < int64_of (n * Second)" if "0 < n" "n \<le> 9223372036" for n
  proof -
    have "int64_of (n * Second) = n * Second"
      using that by (intro int64_of_id) (simp add: in_int64_def Second_def)
    then show ?thesis using that by (simp add: Second_def)
  qed
  have atoi: "Atoi v = Some n" if "positive_var v = Some n" for v n
    using that by (simp add: positive_var_def split: if_splits option.splits)
  have "0 < cfg_CacheCapacity (FromEnv env)"
    unfolding fields using pos by (cases "positive_var (env ''CACHE_CAPACITY'')") simp_all
  moreover have "0 < cfg_PoolSize (FromEnv env)"
    unfolding fields using pos by (cases "positive_var (env ''POOL_SIZE'')") simp_all
  moreover have "0 < cfg_TxnTimeout (FromEnv env)"
    if "\<forall>n. Atoi (env ''TXN_TIMEOUT_SEC'') = Some n \<longrightarrow> n \<le> 9223372036"
    unfolding fields using that pos scale atoi
    by (cases "positive_var (env ''TXN_TIMEOUT_SEC'')") (simp_all add: Second_def)
  moreover have "cfg_TxnTimeout (FromEnv env) < 0"
    if n: "Atoi (env ''TXN_TIMEOUT_SEC'') = Some n" "9223372036 < n" "n \<le> 18446744073" for n
  proof -
    have "env ''TXN_TIMEOUT_SEC'' \<noteq> []" using n(1) by (auto simp: Atoi_def ParseInt_def)
    then have "positive_var (env ''TXN_TIMEOUT_SEC'') = Some n" using n by (simp add: positive_var_def)
    moreover have "int64_of (n * Second) < 0" using n by (intro int64_of_overflow) (simp_all add: Second_def)
    ultimately show ?thesis unfolding fields by simp
  qed
  ultimately show ?thesis by blast
qed

theorem FromEnv_bounds_witness:
  "0 < cfg_TxnTimeout (FromEnv (\<lambda>v. if v = ''TXN_TIMEOUT_SEC'' then ''60'' else [])) \<and>
   cfg_TxnTimeout (FromEnv (\<lambda>v. if v = ''TXN_TIMEOUT_SEC'' then ''9223372037'' else [])) < 0"
proof -
  have "Atoi ''60'' = Some 60" "Atoi ''9223372037'' = Some 9223372037"
    by (simp_all add: Atoi_def ParseInt_def parse_nat_def is_digit_def digit_val_def)
  with FromEnv_bounds [of "\<lambda>v. if v = ''TXN_TIMEOUT_SEC'' then ''60'' else []"]
    FromEnv_bounds [of "\<lambda>v. if v = ''TXN_TIMEOUT_SEC'' then ''9223372037'' else []"]
  show ?thesis by simp
qed

end
