(* ===== verification/Metadata_Server.thy ===== *)
theory Metadata_Server
  imports Partition_Registry Version_Stores Ice_Config
begin

text \<open>
  \<^verbatim>\<open>internal/server/metadata_server.go\<close>: the gRPC handlers. A handler takes the fields of
  its request that the code reads and gives a response or a gRPC status. Handlers that read the
  process clock take the time as an argument. Protobuf enums are open, so they are integers.
\<close>

subsection \<open>Messages\<close>

datatype grpc_code = InvalidArgument | NotFound | Internal

type_synonym status = "grpc_code \<times> string"

record ProtoColumnStats =
  pc_ColumnId :: int32
  pc_NullCount :: int64
  pc_NanCount :: int64
  pc_ValueCount :: int64
  pc_MinValue :: string
  pc_MaxValue :: string
  pc_SizeBytes :: int64

record PartitionInfo =
  pi_PartitionKey :: string
  pi_DataFilePath :: string
  pi_RowCount :: int64
  pi_SizeBytes :: int64
  pi_SnapshotId :: uint64
  pi_FileFormat :: string
  pi_ColumnStats :: "ProtoColumnStats list"

record TableMetadataResponse =
  tm_TableName :: string
  tm_SchemaJson :: string
  tm_CurrentSnapshotId :: uint64
  tm_SchemaVersion :: int32
  tm_Partitions :: "PartitionInfo list"
  tm_Properties :: "(string, string) gomap"
  tm_TotalRowCount :: int64
  tm_TotalSizeBytes :: int64

record ProtoField =
  pp_FieldId :: int32
  pp_SourceColumn :: string
  pp_Transform :: int32
  pp_TransformParam :: int32

type_synonym PartitionSpecProto = "ProtoField list"

datatype alteration =
  NewSchemaJson string
| Rename "string option"
| NewPartitionSpec "PartitionSpecProto option"
| NoAlteration

record TableSummary =
  tsu_TableName :: string
  tsu_CurrentSnapshotId :: uint64
  tsu_TotalPartitions :: int64

record ListTablesResponse =
  lt_Tables :: "TableSummary list"
  lt_NextPageToken :: string

record PartitionListResponse =
  pl_Partitions :: "PartitionInfo list"
  pl_NextPageToken :: string
  pl_TotalCount :: int64

record SnapshotDetail =
  sd_SnapshotId :: uint64
  sd_ParentSnapshotId :: uint64
  sd_Operation :: string
  sd_AddedPartitions :: int64
  sd_DeletedPartitions :: int64
  sd_CommittedAt :: string

record TransactionResponse =
  tn_TxnId :: uint64
  tn_ReadSnapshotId :: uint64

record PartitionSpecResponse =
  sr_TableName :: string
  sr_SpecVersion :: int32
  sr_Spec :: PartitionSpecProto
  sr_ChangedAt :: string
  sr_ChangeSummary :: string

record ColumnBounds =
  cb_ColumnId :: int32
  cb_MinValue :: string
  cb_MaxValue :: string
  cb_NullCount :: int64
  cb_NanCount :: int64
  cb_ValueCount :: int64

record ManifestListResponse =
  mr_SnapshotId :: uint64
  mr_ManifestCount :: int32
  mr_Manifests :: "ManifestFileRow list"

subsection \<open>Construction\<close>

definition defaultString :: "string \<Rightarrow> string \<Rightarrow> string" where
  "defaultString v fallback = (if v = [] then fallback else v)"

text \<open>\<^verbatim>\<open>New\<close>, once the connection to PostgreSQL is there.\<close>

definition NewServer :: "Config \<Rightarrow> pg \<Rightarrow> sys" where
  "NewServer cfg w =
     \<lparr>sys_locks = NewManager,
      sys_core = \<lparr>c_pg = w, c_cache = NewLRU (cfg_CacheCapacity cfg),
        c_mvcc = NewMVCCManager (cfg_TxnTimeout cfg)\<rparr>\<rparr>"

text \<open>Map keys are marshalled in sorted order.\<close>

definition propertiesToJSON :: "(string, string) gomap \<Rightarrow> string" where
  "propertiesToJSON props =
     (if props = [] then ''{}''
      else json_print (JObj (map (\<lambda>(k, v). (k, JStr v)) (sort_key fst props))))"

definition initialSpecJSON :: "string \<Rightarrow> string" where
  "initialSpecJSON rawSpec =
     (if rawSpec = [] then []
      else marshalSpec \<lparr>ps_Fields = [\<lparr>pf_FieldID = 1, pf_SourceColumn = rawSpec,
        pf_Transform = TransformIdentity, pf_TransformParam = None\<rparr>]\<rparr>)"

definition protoTransformToString :: "int32 \<Rightarrow> PartitionTransform" where
  "protoTransformToString t =
     (if t = 1 then TransformYear else if t = 2 then TransformMonth else if t = 3 then TransformDay
      else if t = 4 then TransformHour else if t = 5 then TransformBucket
      else if t = 6 then TransformTruncate else TransformIdentity)"

definition stringTransformToProto :: "PartitionTransform \<Rightarrow> int32" where
  "stringTransformToProto t =
     (if t = TransformYear then 1 else if t = TransformMonth then 2 else if t = TransformDay then 3
      else if t = TransformHour then 4 else if t = TransformBucket then 5
      else if t = TransformTruncate then 6 else 0)"

definition protoToField :: "ProtoField \<Rightarrow> PartitionField" where
  "protoToField f =
     \<lparr>pf_FieldID = pp_FieldId f, pf_SourceColumn = pp_SourceColumn f,
      pf_Transform = protoTransformToString (pp_Transform f),
      pf_TransformParam = (if pp_TransformParam f \<noteq> 0 then Some (pp_TransformParam f) else None)\<rparr>"

definition fieldToProto :: "PartitionField \<Rightarrow> ProtoField" where
  "fieldToProto f =
     \<lparr>pp_FieldId = int32_of (pf_FieldID f), pp_SourceColumn = pf_SourceColumn f,
      pp_Transform = stringTransformToProto (pf_Transform f),
      pp_TransformParam = (case pf_TransformParam f of None \<Rightarrow> 0 | Some p \<Rightarrow> int32_of p)\<rparr>"

definition protoToPartitionSpec :: "PartitionSpecProto \<Rightarrow> PartitionSpec" where
  "protoToPartitionSpec p = \<lparr>ps_Fields = map protoToField p\<rparr>"

definition partitionSpecToProto :: "PartitionSpec \<Rightarrow> PartitionSpecProto" where
  "partitionSpecToProto s = map fieldToProto (ps_Fields s)"

text \<open>A nil message gives a spec with a nil slice, which is marshalled as \<^verbatim>\<open>null\<close>.\<close>

definition proposed_json :: "PartitionSpecProto option \<Rightarrow> string" where
  "proposed_json p =
     (case p of
        None \<Rightarrow> json_print (JObj [(''fields'', JNull)])
      | Some fs \<Rightarrow> marshalSpec (protoToPartitionSpec fs))"

subsection \<open>Tables\<close>

abbreviation grpc :: "grpc_code \<Rightarrow> string \<Rightarrow> status + 'r" where
  "grpc code msg \<equiv> Inl (code, msg)"

text \<open>\<^verbatim>\<open>if err != nil { return nil, status.Error(codes.Internal, err.Error()) }\<close>\<close>

definition internal_or ::
    "server_env \<Rightarrow> (pg_error + 'a) act \<Rightarrow> ('a \<Rightarrow> (status + 'r) act) \<Rightarrow> (status + 'r) act" where
  "internal_or S m k =
     act_then m (\<lambda>r. case r of
        Inl e \<Rightarrow> act_ret (grpc Internal (pe_error (se_pg S) e))
      | Inr x \<Rightarrow> k x)"

definition srv_CreateTable ::
    "server_env \<Rightarrow> string \<Rightarrow> string \<Rightarrow> string \<Rightarrow> (string, string) gomap \<Rightarrow> (status + OpResult) act" where
  "srv_CreateTable S tableName schemaJson partitionSpec properties =
     act_then (cm_CreateTable (se_pg S) tableName schemaJson (initialSpecJSON partitionSpec)
                 (propertiesToJSON properties))
       (\<lambda>r. act_ret (Inr r))"

text \<open>The two conversions of column statistics; an empty list is a nil slice on both sides.\<close>

definition columnStatsToProto :: "ColumnStats list \<Rightarrow> ProtoColumnStats list" where
  "columnStatsToProto stats =
     map (\<lambda>cs. \<lparr>pc_ColumnId = cs_ColumnID cs, pc_NullCount = cs_NullCount cs, pc_NanCount = cs_NaNCount cs,
       pc_ValueCount = cs_ValueCount cs, pc_MinValue = cs_MinValue cs, pc_MaxValue = cs_MaxValue cs,
       pc_SizeBytes = cs_SizeBytes cs\<rparr>) stats"

definition protoToColumnStats :: "ProtoColumnStats list \<Rightarrow> ColumnStats list" where
  "protoToColumnStats proto =
     map (\<lambda>cs. \<lparr>cs_ColumnID = pc_ColumnId cs, cs_NullCount = pc_NullCount cs, cs_NaNCount = pc_NanCount cs,
       cs_ValueCount = pc_ValueCount cs, cs_MinValue = pc_MinValue cs, cs_MaxValue = pc_MaxValue cs,
       cs_SizeBytes = pc_SizeBytes cs\<rparr>) proto"

definition partition_info :: "PartitionRow \<Rightarrow> PartitionInfo" where
  "partition_info p =
     \<lparr>pi_PartitionKey = pr_PartitionKey p, pi_DataFilePath = pr_DataFilePath p,
      pi_RowCount = pr_RowCount p, pi_SizeBytes = pr_SizeBytes p,
      pi_SnapshotId = uint64_of_int64 (pr_SnapshotID p), pi_FileFormat = pr_FileFormat p,
      pi_ColumnStats = columnStatsToProto (pr_ColumnStats p)\<rparr>"

definition table_properties :: "string \<Rightarrow> (string, string) gomap option" where
  "table_properties raw =
     (if raw = [] then Some []
      else (case json_parse raw of None \<Rightarrow> None | Some j \<Rightarrow> dec_string_map j))"

definition table_metadata ::
    "TableRow \<Rightarrow> uint64 \<Rightarrow> PartitionRow list \<Rightarrow> (string, string) gomap \<Rightarrow> TableMetadataResponse" where
  "table_metadata t readSnapshot parts props =
     \<lparr>tm_TableName = tr_TableName t, tm_SchemaJson = tr_SchemaJSON t,
      tm_CurrentSnapshotId = readSnapshot, tm_SchemaVersion = tr_SchemaVersion t,
      tm_Partitions = map partition_info parts, tm_Properties = props,
      tm_TotalRowCount = fold (\<lambda>p n. int64_of (n + pr_RowCount p)) parts 0,
      tm_TotalSizeBytes = fold (\<lambda>p n. int64_of (n + pr_SizeBytes p)) parts 0\<rparr>"

definition srv_GetTableMetadata ::
    "server_env \<Rightarrow> string \<Rightarrow> uint64 \<Rightarrow> (status + TableMetadataResponse) act" where
  "srv_GetTableMetadata S tableName snapshotId =
     (if tableName = [] then act_ret (grpc InvalidArgument ''table_name is required'')
      else internal_or S (cm_GetTable (se_pg S) tableName) (\<lambda>tab.
        case tab of
          None \<Rightarrow> act_ret (grpc NotFound (''table not found: '' @ tableName))
        | Some t \<Rightarrow>
            (let readSnapshot =
                   (if snapshotId \<noteq> 0 then snapshotId
                    else if tr_CurrentSnapshotID t < 0 then 0
                    else uint64_of_int64 (tr_CurrentSnapshotID t)) in
             internal_or S (reg_GetPartitions S tableName readSnapshot) (\<lambda>parts.
               let parts = (case parts of None \<Rightarrow> [] | Some ps \<Rightarrow> ps) in
               case table_properties (tr_PropertiesJSON t) of
                 None \<Rightarrow> act_ret (grpc Internal ''failed to parse table properties JSON'')
               | Some props \<Rightarrow> act_ret (Inr (table_metadata t readSnapshot parts props))))))"

definition invalidate :: "string \<Rightarrow> int act" where
  "invalidate tableName = unlocked (InvalidateTableCache tableName)"

definition AlterSchema :: "server_env \<Rightarrow> string \<Rightarrow> string \<Rightarrow> (status + OpResult) act" where
  "AlterSchema S tableName newSchemaJson =
     internal_or S (ss_GetCurrentSchema (se_pg S) tableName) (\<lambda>current.
       if current \<noteq> None \<and> ValidateSchemaChange newSchemaJson \<noteq> []
       then act_ret (Inr (failure (ValidateSchemaChange newSchemaJson)))
       else act_then (cm_AlterTableSchema (se_pg S) tableName newSchemaJson
                        ''schema evolution via AlterTable'')
         (\<lambda>result. act_then (invalidate tableName) (\<lambda>_. act_ret (Inr result))))"

definition AlterName :: "server_env \<Rightarrow> string \<Rightarrow> string option \<Rightarrow> (status + OpResult) act" where
  "AlterName S tableName rename =
     (let newName = (case rename of None \<Rightarrow> [] | Some n \<Rightarrow> n) in
      if newName = [] then act_ret (grpc InvalidArgument ''new table name is required'')
      else act_then (cm_RenameTable (se_pg S) tableName newName) (\<lambda>result.
        act_then (invalidate tableName) (\<lambda>_. act_then (invalidate newName) (\<lambda>_.
          act_ret (Inr result)))))"

definition AlterSpec ::
    "server_env \<Rightarrow> string \<Rightarrow> PartitionSpecProto option \<Rightarrow> (status + OpResult) act" where
  "AlterSpec S tableName newSpec =
     internal_or S (sp_GetCurrentSpec (se_pg S) tableName) (\<lambda>current.
       let currentJSON = (case current of None \<Rightarrow> [] | Some v \<Rightarrow> pv_SpecJSON v) in
       case ValidateSpecChange currentJSON (proposed_json newSpec) of
         Some e \<Rightarrow> act_ret (Inr (failure
           (spec_error_text (se_quote S) (se_json_error S (proposed_json newSpec)) e)))
       | None \<Rightarrow>
           act_then (cm_AlterTablePartitionSpec (se_pg S) tableName (proposed_json newSpec)
                       ''partition spec evolution via AlterTable'')
             (\<lambda>result. act_then (invalidate tableName) (\<lambda>_. act_ret (Inr result))))"

definition srv_AlterTable :: "server_env \<Rightarrow> string \<Rightarrow> alteration \<Rightarrow> (status + OpResult) act" where
  "srv_AlterTable S tableName alt =
     (if tableName = [] then act_ret (grpc InvalidArgument ''table_name is required'')
      else
        (case alt of
           NewSchemaJson schema \<Rightarrow> AlterSchema S tableName schema
         | Rename rename \<Rightarrow> AlterName S tableName rename
         | NewPartitionSpec spec \<Rightarrow> AlterSpec S tableName spec
         | NoAlteration \<Rightarrow> act_ret (Inr (failure ''no alteration specified''))))"

definition srv_DropTable :: "server_env \<Rightarrow> string \<Rightarrow> bool \<Rightarrow> (status + OpResult) act" where
  "srv_DropTable S tableName purge =
     (if tableName = [] then act_ret (grpc InvalidArgument ''table_name is required'')
      else act_then (cm_DropTable (se_pg S) tableName purge) (\<lambda>result.
        if Success result then act_then (invalidate tableName) (\<lambda>_. act_ret (Inr result))
        else act_ret (Inr result)))"

text \<open>The loop over the rows of a page, one count query for each table with a snapshot.\<close>

fun table_summaries :: "server_env \<Rightarrow> TableRow list \<Rightarrow> (status + TableSummary list) act" where
  "table_summaries S [] = act_ret (Inr [])"
| "table_summaries S (t # ts) =
     (let currentSnapshotID =
            (if tr_CurrentSnapshotID t > 0 then uint64_of_int64 (tr_CurrentSnapshotID t) else 0);
          finish = (\<lambda>totalPartitions. act_then (table_summaries S ts) (\<lambda>r.
            case r of
              Inl st \<Rightarrow> act_ret (Inl st)
            | Inr rest \<Rightarrow> act_ret (Inr (\<lparr>tsu_TableName = tr_TableName t,
                tsu_CurrentSnapshotId = currentSnapshotID,
                tsu_TotalPartitions = totalPartitions\<rparr> # rest)))) in
      if currentSnapshotID > 0
      then internal_or S (unlocked (on_pg (pg_GetVisiblePartitionCount (se_pg S) (tr_TableName t)
             currentSnapshotID))) finish
      else finish 0)"

definition next_tables_token :: "int32 \<Rightarrow> string \<Rightarrow> nat \<Rightarrow> string" where
  "next_tables_token pageSize pageToken n =
     (if pageSize > 0 \<and> int n = pageSize
      then FormatInt (int64_of (page_offset pageToken + int n)) else [])"

definition srv_ListTables ::
    "server_env \<Rightarrow> string \<Rightarrow> int32 \<Rightarrow> string \<Rightarrow> (status + ListTablesResponse) act" where
  "srv_ListTables S namespace pageSize pageToken =
     internal_or S (cm_ListTables (se_pg S) namespace pageSize pageToken) (\<lambda>rows.
       act_then (table_summaries S rows) (\<lambda>r.
         case r of
           Inl st \<Rightarrow> act_ret (Inl st)
         | Inr tabs \<Rightarrow> act_ret (Inr \<lparr>lt_Tables = tabs,
             lt_NextPageToken = next_tables_token pageSize pageToken (length rows)\<rparr>)))"

subsection \<open>Partitions\<close>

definition partition_list :: "int32 \<Rightarrow> PartitionRow list \<Rightarrow> PartitionListResponse" where
  "partition_list pageSize rows =
     \<lparr>pl_Partitions = map (\<lambda>p. (partition_info p)\<lparr>pi_ColumnStats := []\<rparr>) rows,
      pl_NextPageToken =
        (if pageSize > 0 \<and> rows \<noteq> [] then FormatInt (pr_PartitionID (last rows)) else []),
      pl_TotalCount = int (length rows)\<rparr>"

definition srv_GetPartitions ::
    "server_env \<Rightarrow> string \<Rightarrow> uint64 \<Rightarrow> int32 \<Rightarrow> string \<Rightarrow> (status + PartitionListResponse) act" where
  "srv_GetPartitions S tableName snapshotId pageSize pageToken =
     internal_or S
       (if pageSize > 0
        then reg_GetPartitionsPaged (se_pg S) tableName snapshotId pageSize (page_offset pageToken)
        else reg_GetPartitions S tableName snapshotId)
       (\<lambda>rows. case rows of
          None \<Rightarrow> act_ret (grpc NotFound (''table not found: '' @ tableName))
        | Some ps \<Rightarrow> act_ret (Inr (partition_list pageSize ps)))"

definition srv_GetPartitionStats :: "server_env \<Rightarrow> string \<Rightarrow> (status + PartitionStats) act" where
  "srv_GetPartitionStats S tableName =
     (if tableName = [] then act_ret (grpc InvalidArgument ''table_name is required'')
      else internal_or S (reg_GetStats (se_pg S) tableName) (\<lambda>stats. act_ret (Inr stats)))"

definition protoToRow :: "PartitionInfo \<Rightarrow> PartitionRow" where
  "protoToRow p =
     \<lparr>pr_PartitionID = 0, pr_TableID = 0, pr_SnapshotID = 0,
      pr_PartitionKey = pi_PartitionKey p, pr_DataFilePath = pi_DataFilePath p,
      pr_FileFormat = defaultString (pi_FileFormat p) ''parquet'', pr_RowCount = pi_RowCount p,
      pr_SizeBytes = pi_SizeBytes p, pr_ColumnStats = protoToColumnStats (pi_ColumnStats p)\<rparr>"

definition srv_CommitSnapshot ::
    "server_env \<Rightarrow> string \<Rightarrow> PartitionInfo list \<Rightarrow> string list \<Rightarrow> uint64 \<Rightarrow> string \<Rightarrow>
     (status + CommitResult) act" where
  "srv_CommitSnapshot S tableName newPartitions deletedKeys parentSnapshotId operation =
     (case find (\<lambda>p. pi_RowCount p \<le> 0) newPartitions of
        Some p \<Rightarrow> act_ret (Inr (commit_failed
          (''partition '' @ se_quote S (pi_PartitionKey p) @ '': row_count must be > 0'')))
      | None \<Rightarrow>
          act_then (reg_CommitSnapshot (se_pg S) tableName parentSnapshotId
                      (defaultString operation ''append'') (map protoToRow newPartitions) deletedKeys)
            (\<lambda>r. act_ret (Inr r)))"

definition column_bounds :: "ColumnStats \<Rightarrow> ColumnBounds" where
  "column_bounds cs =
     \<lparr>cb_ColumnId = cs_ColumnID cs, cb_MinValue = cs_MinValue cs, cb_MaxValue = cs_MaxValue cs,
      cb_NullCount = cs_NullCount cs, cb_NanCount = cs_NaNCount cs,
      cb_ValueCount = cs_ValueCount cs\<rparr>"

definition srv_GetColumnStats ::
    "server_env \<Rightarrow> string \<Rightarrow> uint64 \<Rightarrow> (status + uint64 \<times> ColumnBounds list) act" where
  "srv_GetColumnStats S tableName snapshotId =
     (let finish = (\<lambda>snapshotID. internal_or S
            (unlocked (on_pg (pg_GetColumnStatsForSnapshot (se_pg S) tableName snapshotID)))
            (\<lambda>stats. act_ret (Inr (snapshotID, map column_bounds stats)))) in
      if tableName = [] then act_ret (grpc InvalidArgument ''table_name is required'')
      else if snapshotId \<noteq> 0 then finish snapshotId
      else internal_or S (unlocked (on_pg (pg_GetCurrentSnapshot (se_pg S) tableName))) (\<lambda>current.
        if current = 0 then act_ret (grpc NotFound (''table has no snapshots: '' @ tableName))
        else finish current))"

subsection \<open>Snapshots\<close>

definition snapshot_detail :: "SnapshotRow \<Rightarrow> SnapshotDetail" where
  "snapshot_detail s =
     \<lparr>sd_SnapshotId = uint64_of_int64 (sr_SnapshotID s),
      sd_ParentSnapshotId = uint64_of_int64 (sr_ParentSnapshotID s), sd_Operation = sr_Operation s,
      sd_AddedPartitions = sr_AddedFilesCount s, sd_DeletedPartitions = sr_DeletedFilesCount s,
      sd_CommittedAt = sr_CommittedAt s\<rparr>"

definition srv_GetSnapshot :: "server_env \<Rightarrow> string \<Rightarrow> uint64 \<Rightarrow> (status + SnapshotDetail) act" where
  "srv_GetSnapshot S tableName snapshotId =
     internal_or S (unlocked (on_pg (pg_GetSnapshot (se_pg S) tableName snapshotId))) (\<lambda>snap.
       case snap of
         None \<Rightarrow> act_ret (grpc NotFound ''snapshot not found'')
       | Some s \<Rightarrow> act_ret (Inr (snapshot_detail s)))"

definition srv_ListSnapshots :: "server_env \<Rightarrow> string \<Rightarrow> int32 \<Rightarrow> (status + SnapshotDetail list) act" where
  "srv_ListSnapshots S tableName limit =
     internal_or S (unlocked (on_pg (pg_ListSnapshots (se_pg S) tableName limit)))
       (\<lambda>snaps. act_ret (Inr (map snapshot_detail snaps)))"

subsection \<open>Transactions\<close>

definition mvcc_do :: "(mvcc \<Rightarrow> 'r \<times> mvcc) \<Rightarrow> 'r act" where
  "mvcc_do f = unlocked (\<lambda>c. case f (c_mvcc c) of (r, m) \<Rightarrow> (r, c\<lparr>c_mvcc := m\<rparr>))"

definition srv_BeginTransaction ::
    "server_env \<Rightarrow> time \<Rightarrow> string \<Rightarrow> string \<Rightarrow> int32 \<Rightarrow> (status + TransactionResponse) act" where
  "srv_BeginTransaction S now clientID tableName isolationLevel =
     (if clientID = [] then act_ret (grpc InvalidArgument ''client_id is required'')
      else if tableName = [] then act_ret (grpc InvalidArgument ''table_name is required'')
      else internal_or S (cm_GetTable (se_pg S) tableName) (\<lambda>tab.
        case tab of
          None \<Rightarrow> act_ret (grpc NotFound (''table not found: '' @ tableName))
        | Some t \<Rightarrow>
            (let readSnapshot =
                   (if tr_CurrentSnapshotID t > 0 then uint64_of_int64 (tr_CurrentSnapshotID t) else 0);
                 isolation = (if isolationLevel = 1 then ''read_committed'' else ''snapshot'') in
             internal_or S
               (unlocked (on_pg (pg_InsertTransaction (se_pg S) clientID (tr_TableID t) readSnapshot
                  isolation)))
               (\<lambda>txnID. act_then
                  (mvcc_do (\<lambda>m. ((), mvcc_RegisterTransaction now txnID readSnapshot m)))
                  (\<lambda>_. act_ret (Inr \<lparr>tn_TxnId = txnID, tn_ReadSnapshotId = readSnapshot\<rparr>))))))"

definition srv_CommitTransaction :: "server_env \<Rightarrow> time \<Rightarrow> uint64 \<Rightarrow> (status + OpResult) act" where
  "srv_CommitTransaction S now txnID =
     act_then (mvcc_do (mvcc_CommitTransaction now txnID)) (\<lambda>ok.
       if \<not> ok then act_ret (Inr (failure ''transaction not found or expired''))
       else internal_or S
         (unlocked (on_pg (pg_UpdateTransactionStatus (se_pg S) txnID ''committed'')))
         (\<lambda>_. act_ret (Inr success)))"

definition srv_AbortTransaction :: "server_env \<Rightarrow> uint64 \<Rightarrow> (status + OpResult) act" where
  "srv_AbortTransaction S txnID =
     act_then (mvcc_do (\<lambda>m. ((), mvcc_AbortTransaction txnID m))) (\<lambda>_.
       internal_or S (unlocked (on_pg (pg_UpdateTransactionStatus (se_pg S) txnID ''aborted'')))
         (\<lambda>_. act_ret (Inr success)))"

definition srv_Cleanup :: "time \<Rightarrow> int act" where
  "srv_Cleanup now = mvcc_do (mvcc_CleanupExpiredTransactions now)"

subsection \<open>Partition specs and manifests\<close>

definition spec_response :: "string \<Rightarrow> PartitionSpecVersion \<Rightarrow> PartitionSpecResponse option" where
  "spec_response tableName v =
     map_option (\<lambda>spec. \<lparr>sr_TableName = tableName, sr_SpecVersion = pv_Version v,
        sr_Spec = partitionSpecToProto spec, sr_ChangedAt = pv_ChangedAt v,
        sr_ChangeSummary = pv_ChangeSummary v\<rparr>)
       (unmarshalSpec (pv_SpecJSON v))"

definition srv_GetPartitionSpec ::
    "server_env \<Rightarrow> string \<Rightarrow> int32 \<Rightarrow> (status + PartitionSpecResponse) act" where
  "srv_GetPartitionSpec S tableName specVersion =
     (if tableName = [] then act_ret (grpc InvalidArgument ''table_name is required'')
      else internal_or S
        (if specVersion = 0 then sp_GetCurrentSpec (se_pg S) tableName
         else sp_GetSpecAtVersion (se_pg S) tableName specVersion)
        (\<lambda>sv. case sv of
           None \<Rightarrow> act_ret (grpc NotFound ''partition spec not found'')
         | Some v \<Rightarrow>
             (case spec_response tableName v of
                None \<Rightarrow> act_ret (grpc Internal ''corrupt spec JSON'')
              | Some r \<Rightarrow> act_ret (Inr r))))"

definition srv_ListPartitionSpecs ::
    "server_env \<Rightarrow> string \<Rightarrow> (status + PartitionSpecResponse list) act" where
  "srv_ListPartitionSpecs S tableName =
     (if tableName = [] then act_ret (grpc InvalidArgument ''table_name is required'')
      else internal_or S (sp_ListSpecHistory (se_pg S) tableName)
        (\<lambda>history. act_ret (Inr (List.map_filter (spec_response tableName) history))))"

definition srv_GetManifestList ::
    "server_env \<Rightarrow> string \<Rightarrow> uint64 \<Rightarrow> (status + ManifestListResponse) act" where
  "srv_GetManifestList S tableName snapshotId =
     (if tableName = [] then act_ret (grpc InvalidArgument ''table_name is required'')
      else if snapshotId = 0 then act_ret (grpc InvalidArgument ''snapshot_id is required'')
      else internal_or S (ms_GetManifestList (se_pg S) tableName snapshotId) (\<lambda>r.
        case r of
          None \<Rightarrow> act_ret (grpc NotFound ''manifest list not found for snapshot'')
        | Some (l, files) \<Rightarrow> act_ret (Inr \<lparr>mr_SnapshotId = snapshotId,
            mr_ManifestCount = ml_ManifestCount l, mr_Manifests = files\<rparr>)))"

definition srv_GetManifest :: "server_env \<Rightarrow> string \<Rightarrow> int64 \<Rightarrow> (status + ManifestFileRow) act" where
  "srv_GetManifest S tableName manifestFileId =
     (if tableName = [] then act_ret (grpc InvalidArgument ''table_name is required'')
      else if manifestFileId = 0 then act_ret (grpc InvalidArgument ''manifest_file_id is required'')
      else internal_or S (ms_GetManifestFile (se_pg S) tableName manifestFileId) (\<lambda>f.
        case f of
          None \<Rightarrow> act_ret (grpc NotFound ''manifest file not found'')
        | Some row \<Rightarrow> act_ret (Inr row)))"

end
