(* ===== verification/Db_Facts.thy ===== *)
theory Db_Facts
  imports PG_Client
begin

text \<open>
  How the database state moves: a small Hoare logic over the functions of the model, the effect of
  one statement inside and outside a transaction, and the growth of the sequences. Proofs about the
  catalog run the code symbolically with these rules.
\<close>

subsection \<open>Postconditions\<close>

definition hoare :: "('w \<Rightarrow> bool) \<Rightarrow> ('w \<Rightarrow> 'r \<times> 'w) \<Rightarrow> ('r \<Rightarrow> 'w \<Rightarrow> bool) \<Rightarrow> bool" where
  "hoare P m Q \<longleftrightarrow> (\<forall>w. P w \<longrightarrow> Q (fst (m w)) (snd (m w)))"

lemma hoareI: "(\<And>w r w'. P w \<Longrightarrow> m w = (r, w') \<Longrightarrow> Q r w') \<Longrightarrow> hoare P m Q"
  by (simp add: hoare_def)

lemma hoareD: "hoare P m Q \<Longrightarrow> P w \<Longrightarrow> m w = (r, w') \<Longrightarrow> Q r w'"
  unfolding hoare_def by (metis fst_conv snd_conv)

lemma hoare_pre: "hoare P m Q \<Longrightarrow> (\<And>w. P' w \<Longrightarrow> P w) \<Longrightarrow> hoare P' m Q"
  by (simp add: hoare_def)

lemma hoare_post: "hoare P m Q \<Longrightarrow> (\<And>r w. Q r w \<Longrightarrow> Q' r w) \<Longrightarrow> hoare P m Q'"
  by (simp add: hoare_def)

lemma hoare_ret: "(\<And>w. P w \<Longrightarrow> Q r w) \<Longrightarrow> hoare P (ret r) Q"
  by (simp add: hoare_def ret_def)

lemma hoare_ex: "(\<And>a. hoare (P a) m Q) \<Longrightarrow> hoare (\<lambda>w. \<exists>a. P a w) m Q"
  by (auto simp: hoare_def)

lemma hoare_conj: "(p \<Longrightarrow> hoare P m Q) \<Longrightarrow> hoare (\<lambda>w. p \<and> P w) m Q"
  by (auto simp: hoare_def)

text \<open>A checked call: \<open>A\<close> holds after an error, \<open>B\<close> after success.\<close>

definition checked :: "('w \<Rightarrow> bool) \<Rightarrow> ('w \<Rightarrow> ('e + 'a) \<times> 'w) \<Rightarrow> ('e \<Rightarrow> 'w \<Rightarrow> bool) \<Rightarrow> ('a \<Rightarrow> 'w \<Rightarrow> bool) \<Rightarrow> bool" where
  "checked P m A B \<longleftrightarrow> hoare P m (\<lambda>r w. case r of Inl e \<Rightarrow> A e w | Inr x \<Rightarrow> B x w)"

lemma checkedI:
  "(\<And>w e w'. P w \<Longrightarrow> m w = (Inl e, w') \<Longrightarrow> A e w') \<Longrightarrow> (\<And>w x w'. P w \<Longrightarrow> m w = (Inr x, w') \<Longrightarrow> B x w') \<Longrightarrow>
   checked P m A B"
  unfolding checked_def by (rule hoareI) (auto split: sum.split)

lemma checkedE:
  assumes "checked P m A B" "P w"
  shows "m w = (Inl e, w') \<Longrightarrow> A e w'" and "m w = (Inr x, w') \<Longrightarrow> B x w'"
  using hoareD [OF assms(1)[unfolded checked_def] assms(2)] by (force split: sum.splits)+

lemma hoare_on_err:
  assumes "checked P m A B" "\<And>e. hoare (A e) (h e) Q" "\<And>x. hoare (B x) (k x) Q"
  shows "hoare P (on_err m h k) Q"
proof (rule hoareI)
  fix w r w'
  assume P: "P w" and run: "on_err m h k w = (r, w')"
  from run show "Q r w'"
  proof (cases rule: on_err_cases)
    case (err e w1)
    then show ?thesis using checkedE(1) [OF assms(1) P] hoareD [OF assms(2)] by blast
  next
    case (ok x w1)
    then show ?thesis using checkedE(2) [OF assms(1) P] hoareD [OF assms(3)] by blast
  qed
qed

lemma checked_on_err:
  "checked P m A B \<Longrightarrow> (\<And>e. checked (A e) (h e) A' B') \<Longrightarrow> (\<And>x. checked (B x) (k x) A' B') \<Longrightarrow>
   checked P (on_err m h k) A' B'"
  unfolding checked_def [of _ _ A' B'] by (rule hoare_on_err)
    (simp_all add: checked_def)

lemma checked_weaken:
  "checked P m A B \<Longrightarrow> (\<And>e w. A e w \<Longrightarrow> A' e w) \<Longrightarrow> (\<And>x w. B x w \<Longrightarrow> B' x w) \<Longrightarrow> checked P m A' B'"
  unfolding checked_def by (erule hoare_post) (auto split: sum.splits)

lemma checked_ret_Inr: "(\<And>w. P w \<Longrightarrow> B x w) \<Longrightarrow> checked P (ret (Inr x)) A B"
  unfolding checked_def by (rule hoare_ret) simp

lemma checked_ret_Inl: "(\<And>w. P w \<Longrightarrow> A e w) \<Longrightarrow> checked P (ret (Inl e)) A B"
  unfolding checked_def by (rule hoare_ret) simp

lemma checked_ex: "(\<And>a. checked (P a) m A B) \<Longrightarrow> checked (\<lambda>w. \<exists>a. P a w) m A B"
  unfolding checked_def by (rule hoare_ex)

lemma checked_conj: "(p \<Longrightarrow> checked P m A B) \<Longrightarrow> checked (\<lambda>w. p \<and> P w) m A B"
  unfolding checked_def by (rule hoare_conj)

subsection \<open>Sequences only grow\<close>

definition seq_le :: "sequences \<Rightarrow> sequences \<Rightarrow> bool" where
  "seq_le a b \<longleftrightarrow>
     q_table a \<le> q_table b \<and> q_history a \<le> q_history b \<and> q_snapshot a \<le> q_snapshot b \<and>
     q_partition a \<le> q_partition b \<and> q_txn a \<le> q_txn b \<and> q_mfile a \<le> q_mfile b \<and>
     q_mlist a \<le> q_mlist b \<and> q_spec a \<le> q_spec b \<and>
     (q_table a < 2 ^ 63 \<longrightarrow> q_table b < 2 ^ 63) \<and>
     (q_snapshot a < 2 ^ 63 \<longrightarrow> q_snapshot b < 2 ^ 63) \<and>
     (q_partition a < 2 ^ 63 \<longrightarrow> q_partition b < 2 ^ 63)"

lemma seq_le_refl [simp]: "seq_le a a"
  by (simp add: seq_le_def)

lemma seq_le_trans [trans]: "seq_le a b \<Longrightarrow> seq_le b c \<Longrightarrow> seq_le a c"
  by (auto simp: seq_le_def)

text \<open>Every id in use was drawn from its sequence.\<close>

definition ids_below :: "database \<Rightarrow> sequences \<Rightarrow> bool" where
  "ids_below db sq \<longleftrightarrow>
     (\<forall>t \<in> set (d_tables db). t_id t \<le> q_table sq) \<and>
     (\<forall>p \<in> set (d_partitions db). p_id p \<le> q_partition sq) \<and>
     (\<forall>s \<in> set (d_snapshots db). s_id s \<le> q_snapshot sq)"

lemma ids_below_mono: "ids_below db sq \<Longrightarrow> seq_le sq sq' \<Longrightarrow> ids_below db sq'"
  by (fastforce simp: ids_below_def seq_le_def)

lemma ids_below_update_live:
  "(\<And>t. t_id (f t) = t_id t) \<Longrightarrow> ids_below db sq \<Longrightarrow> ids_below (snd (update_live name f db)) sq"
  by (auto simp: ids_below_def update_live_def)

definition grows :: "'a stmt \<Rightarrow> bool" where
  "grows st \<longleftrightarrow> (\<forall>now db sq.
     seq_le sq (snd (st now db sq)) \<and>
     (\<forall>x db'. fst (st now db sq) = Inr (x, db') \<longrightarrow> ids_below db sq \<longrightarrow> ids_below db' (snd (st now db sq))))"

lemma growsD:
  assumes "grows st" "st now db sq = (r, sq')"
  shows "seq_le sq sq'" "r = Inr (x, db') \<Longrightarrow> ids_below db sq \<Longrightarrow> ids_below db' sq'"
  using assms unfolding grows_def by (metis fst_conv snd_conv)+

lemma nextval_Some: "nextval n = Some i \<Longrightarrow> i = n + 1 \<and> n < 2 ^ 63 - 1"
  by (auto simp: nextval_def split: if_splits)

named_theorems grow_rules

lemma grows_query [grow_rules]: "grows (query f)"
  by (simp add: grows_def query_def)

lemma grows_selects [grow_rules]:
  "grows (sql_select_table name)" "grows (sql_select_table_id name)"
  "grows (sql_select_snapshot_pointer name)" "grows (sql_select_spec_version name)"
  "grows (sql_list_tables l off)" "grows (sql_partitions tid snap)"
  "grows (sql_partitions_paged tid snap i l)" "grows (sql_count_partitions tid snap)"
  "grows (sql_select_snapshot tid snap)" "grows (sql_list_snapshots tid l)"
  "grows (sql_select_manifest_list snap tid)" "grows (sql_list_manifest_files snap)"
  "grows (sql_select_manifest_file fid name)" "grows (sql_select_spec tid v)"
  "grows (sql_list_specs tid)" "grows (sql_select_history tid v)" "grows (sql_list_history tid)"
  by (simp_all add: grows_def query_def sql_select_table_def sql_select_table_id_def
      sql_select_snapshot_pointer_def sql_select_spec_version_def sql_list_tables_def
      sql_partitions_def sql_partitions_paged_def sql_count_partitions_def sql_select_snapshot_def
      sql_list_snapshots_def sql_select_manifest_list_def sql_list_manifest_files_def
      sql_select_manifest_file_def sql_select_spec_def sql_list_specs_def sql_select_history_def
      sql_list_history_def)

lemma grows_inserts [grow_rules]:
  "grows (sql_insert_table E name schema spec props)" "grows (sql_insert_history E tid v s m)"
  "grows (sql_insert_snapshot tid par opn a d)" "grows (sql_insert_partition E tid snap part st)"
  "grows (sql_insert_transaction c tid snap isol)" "grows (sql_insert_manifest_file E row)"
  "grows (sql_insert_manifest_list snap tid n)" "grows (sql_insert_spec E tid v s m)"
  by (force simp: grows_def seq_le_def ids_below_def sql_insert_table_def sql_insert_history_def
      sql_insert_snapshot_def sql_insert_partition_def sql_insert_transaction_def
      sql_insert_manifest_file_def sql_insert_manifest_list_def sql_insert_spec_def
      dest: nextval_Some split: option.split)+

lemma grows_update:
  "(\<And>now db sq. ids_below db sq \<Longrightarrow> ids_below (snd (g now db)) sq) \<Longrightarrow> grows (update g)"
  unfolding grows_def update_def by (auto simp: prod_eq_iff)

text \<open>A statement that is an error or another statement.\<close>

lemma grows_if: "grows st \<Longrightarrow> grows (\<lambda>now db sq. if c db then (Inl e, sq) else st now db sq)"
  by (simp add: grows_def)

lemma grows_updates [grow_rules]:
  "grows (sql_update_schema E name s v)" "grows (sql_update_spec E name s v)"
  "grows (sql_update_snapshot_pointer name snap)" "grows (sql_soft_delete name)"
  "grows (sql_rename old new)" "grows (sql_mark_deleted tid key snap)"
  "grows (sql_update_txn_status tid status c)"
proof -
  show "grows (sql_update_schema E name s v)"
    using grows_update [of "\<lambda>now. update_live name
        (\<lambda>t. t\<lparr>t_schema := s', t_schema_version := v, t_updated_at := now\<rparr>)" for s']
    by (simp add: grows_def sql_update_schema_def ids_below_update_live split: option.split)
  show "grows (sql_update_spec E name s v)"
    using grows_update [of "\<lambda>now. update_live name
        (\<lambda>t. t\<lparr>t_spec := s', t_spec_version := v, t_updated_at := now\<rparr>)" for s']
    by (simp add: grows_def sql_update_spec_def ids_below_update_live split: option.split)
  show "grows (sql_rename old new)"
    using grows_if [OF grows_update [of "\<lambda>now. update_live old (\<lambda>t. t\<lparr>t_name := new, t_updated_at := now\<rparr>)"],
        of "\<lambda>db. live_table old db \<noteq> None \<and> new \<noteq> old \<and> new \<in> set (map t_name (d_tables db))" UniqueViolation]
    by (simp add: grows_def sql_rename_def ids_below_update_live)
  show "grows (sql_update_snapshot_pointer name snap)" "grows (sql_soft_delete name)"
    by (simp_all add: sql_update_snapshot_pointer_def sql_soft_delete_def ids_below_update_live grows_update)
qed (auto simp: sql_mark_deleted_def sql_update_txn_status_def ids_below_def mark_deleted_def
      intro!: grows_update)

lemma grows_deletes [grow_rules]:
  "grows (sql_delete_manifest_files tid)" "grows (sql_delete_manifest_lists tid)"
  "grows (sql_delete_partitions tid)" "grows (sql_delete_history tid)"
  "grows (sql_delete_specs tid)" "grows (sql_delete_snapshots tid)" "grows (sql_delete_table name)"
proof -
  show "grows (sql_delete_snapshots tid)" "grows (sql_delete_table name)"
    by (auto simp: grows_def sql_delete_snapshots_def sql_delete_table_def Let_def ids_below_def)
qed (auto simp: sql_delete_manifest_files_def sql_delete_manifest_lists_def sql_delete_partitions_def
      sql_delete_history_def sql_delete_specs_def ids_below_def intro!: grows_update)

subsection \<open>Statements in a transaction\<close>

text \<open>
  \<open>in_tx db0 sq0 now db sq w\<close>: a healthy transaction that began at \<open>now\<close> and whose working copy is
  \<open>db\<close>; the committed database is \<open>db0\<close> and the sequences are \<open>sq\<close>, at least \<open>sq0\<close>. \<open>aborted\<close>: the
  transaction will not commit any more.
\<close>

definition in_tx :: "database \<Rightarrow> sequences \<Rightarrow> time \<Rightarrow> database \<Rightarrow> sequences \<Rightarrow> pg \<Rightarrow> bool" where
  "in_tx db0 sq0 now db sq w \<longleftrightarrow>
     pg_db w = db0 \<and> seq_le sq0 sq \<and> (ids_below db0 sq0 \<longrightarrow> ids_below db sq) \<and> pg_seq w = sq \<and>
     pg_tx w = Some \<lparr>tx_db = db, tx_now = now, tx_failed = False\<rparr>"

definition aborted :: "database \<Rightarrow> sequences \<Rightarrow> pg \<Rightarrow> bool" where
  "aborted db0 sq0 w \<longleftrightarrow> pg_db w = db0 \<and> seq_le sq0 (pg_seq w)"

lemma in_tx_aborted: "in_tx db0 sq0 now db sq w \<Longrightarrow> aborted db0 sq0 w"
  by (simp add: in_tx_def aborted_def)

lemma checked_tx_exec:
  assumes "grows st"
  shows "checked (in_tx db0 sq0 now db sq) (tx_exec E texts st)
    (\<lambda>e. aborted db0 sq0)
    (\<lambda>x w. \<exists>db' sq'. st now db sq = (Inr (x, db'), sq') \<and> in_tx db0 sq0 now db' sq' w)"
proof (rule checkedI)
  fix w e w'
  assume "in_tx db0 sq0 now db sq w" "tx_exec E texts st w = (Inl e, w')"
  moreover obtain r sq' where st: "st now db sq = (r, sq')" by (cases "st now db sq")
  moreover have "seq_le sq sq'" by (rule growsD(1) [OF assms st])
  ultimately show "aborted db0 sq0 w'"
    by (auto simp: tx_exec_def in_tx_def aborted_def pg_next_def Let_def
        split: if_splits sum.splits prod.splits intro: seq_le_trans)
next
  fix w x w'
  assume in_tx: "in_tx db0 sq0 now db sq w" and run: "tx_exec E texts st w = (Inr x, w')"
  obtain r sq' where st: "st now db sq = (r, sq')" by (cases "st now db sq")
  note le = growsD [OF assms st]
  from in_tx run st obtain db' where "r = Inr (x, db')"
    by (auto simp: tx_exec_def in_tx_def Let_def split: if_splits sum.splits prod.splits)
  with in_tx run st le show "\<exists>db' sq'. st now db sq = (Inr (x, db'), sq') \<and>
      in_tx db0 sq0 now db' sq' w'"
    by (auto simp: tx_exec_def in_tx_def pg_next_def Let_def split: if_splits intro: seq_le_trans)
qed

text \<open>The same with the effect of the statement spelled out by \<open>eff\<close>.\<close>

lemma checked_tx:
  assumes "grows st" "\<And>x db' sq'. st now db sq = (Inr (x, db'), sq') \<Longrightarrow> eff x db' sq'"
  shows "checked (in_tx db0 sq0 now db sq) (tx_exec E texts st) (\<lambda>e. aborted db0 sq0)
    (\<lambda>x w. \<exists>db' sq'. eff x db' sq' \<and> in_tx db0 sq0 now db' sq' w)"
  by (rule checked_weaken [OF checked_tx_exec [OF assms(1)]]) (use assms(2) in blast)+

text \<open>A single-row query in a transaction; \<open>sel\<close> is what it reads.\<close>

lemma checked_tx_row:
  assumes "st = query sel"
  shows "checked (in_tx db0 sq0 now db sq) (scan_row (tx_exec E texts st))
    (\<lambda>e w. aborted db0 sq0 w \<and> (e = NoRows \<longrightarrow> sel db = None))
    (\<lambda>x w. sel db = Some x \<and> in_tx db0 sq0 now db sq w)"
proof -
  have "grows st" by (simp add: assms grow_rules)
  note st = checked_tx_exec [OF this, of db0 sq0 now db sq E texts]
  show ?thesis
  proof (rule checkedI)
    fix w e w'
    assume pre: "in_tx db0 sq0 now db sq w" and run: "scan_row (tx_exec E texts st) w = (Inl e, w')"
    obtain r w1 where r: "tx_exec E texts st w = (r, w1)" by (cases "tx_exec E texts st w")
    show "aborted db0 sq0 w' \<and> (e = NoRows \<longrightarrow> sel db = None)"
    proof (cases r)
      case (Inl e')
      then have "e = e'" "w' = w1" using run r by (auto simp: scan_row_def)
      moreover have "e' \<noteq> NoRows"
        using r Inl pre by (auto simp: tx_exec_def in_tx_def assms query_def Let_def split: if_splits)
      ultimately show ?thesis using checkedE(1) [OF st pre] r Inl by simp
    next
      case (Inr x)
      with run r have "x = None" "w' = w1" by (auto simp: scan_row_def split: option.splits)
      with checkedE(2) [OF st pre] r Inr show ?thesis
        by (auto simp: assms query_def dest: in_tx_aborted)
    qed
  next
    fix w x w'
    assume pre: "in_tx db0 sq0 now db sq w" and run: "scan_row (tx_exec E texts st) w = (Inr x, w')"
    then have "tx_exec E texts st w = (Inr (Some x), w')"
      by (auto simp: scan_row_def split: prod.splits sum.splits option.splits)
    from checkedE(2) [OF st pre this] show "sel db = Some x \<and> in_tx db0 sq0 now db sq w'"
      by (auto simp: assms query_def)
  qed
qed

lemmas select_table_id_tx = checked_tx_row [OF sql_select_table_id_def]

subsection \<open>Whole transactions\<close>

text \<open>
  \<open>tx_post ok eff lost\<close>: the transaction has ended; either nothing was committed and the result is a
  failure, or \<open>eff\<close> holds of the committed database, and then the result is a success unless the
  answer to the commit was lost.
\<close>

definition tx_post ::
    "('r \<Rightarrow> bool) \<Rightarrow> bool \<Rightarrow> database \<Rightarrow> sequences \<Rightarrow> ('r \<Rightarrow> database \<Rightarrow> bool) \<Rightarrow> 'r \<Rightarrow> pg \<Rightarrow> bool" where
  "tx_post ok lost db0 sq0 eff r w \<longleftrightarrow>
     seq_le sq0 (pg_seq w) \<and> (ids_below db0 sq0 \<longrightarrow> ids_below (pg_db w) (pg_seq w)) \<and>
     ((\<not> ok r \<and> pg_db w = db0) \<or> (eff r (pg_db w) \<and> (ok r \<or> lost)))"

definition acks_lost :: "pg_env \<Rightarrow> bool" where
  "acks_lost E \<longleftrightarrow> (\<exists>n. pe_fault E n = FailAfter)"

lemma checked_Commit:
  "checked (in_tx db0 sq0 now db sq) (tx_Commit E)
     (\<lambda>e w. seq_le sq0 (pg_seq w) \<and> (ids_below db0 sq0 \<longrightarrow> ids_below (pg_db w) (pg_seq w)) \<and>
        (pg_db w = db0 \<or> (pg_db w = db \<and> acks_lost E)))
     (\<lambda>_ w. seq_le sq0 (pg_seq w) \<and> (ids_below db0 sq0 \<longrightarrow> ids_below (pg_db w) (pg_seq w)) \<and> pg_db w = db)"
  by (rule checkedI)
    (auto simp: tx_Commit_def in_tx_def pg_next_def acks_lost_def intro: ids_below_mono split: fault.splits)

text \<open>The usual end of a transaction: commit, then one of two results.\<close>

lemma commit_post:
  assumes "\<And>e. \<not> ok (bad e)" "ok good" "eff good db" "\<And>e. eff (bad e) db"
  shows "hoare (in_tx db0 sq0 now db sq)
    (on_err (tx_Commit E) (\<lambda>e. ret (bad e)) (\<lambda>_. ret good))
    (tx_post ok (acks_lost E) db0 sq0 eff)"
  by (rule hoare_on_err [OF checked_Commit]; rule hoare_ret) (use assms in \<open>auto simp: tx_post_def\<close>)

lemma aborted_post:
  "\<not> ok r \<Longrightarrow> hoare (aborted db0 sq0) (ret r) (tx_post ok lost db0 sq0 eff)"
  by (rule hoare_ret) (simp add: aborted_def tx_post_def ids_below_mono)

lemma in_tx_failed_post:
  "\<not> ok r \<Longrightarrow> hoare (in_tx db0 sq0 now db sq) (ret r) (tx_post ok lost db0 sq0 eff)"
  by (rule hoare_ret) (auto simp add: in_tx_def tx_post_def intro: ids_below_mono)

lemma tx_Rollback_simps [simp]:
  "pg_db (tx_Rollback w) = pg_db w" "pg_seq (tx_Rollback w) = pg_seq w" "pg_tx (tx_Rollback w) = None"
  by (auto simp: tx_Rollback_def pg_next_def split: option.split)

lemma with_tx_post:
  assumes "\<And>e. \<not> ok (h e)"
    and "\<And>now. hoare (in_tx (pg_db w) (pg_seq w) now (pg_db w) (pg_seq w)) body
      (tx_post ok lost (pg_db w) (pg_seq w) eff)"
    and "with_tx E h body w = (r, w')" "pg_tx w = None"
  shows "tx_post ok lost (pg_db w) (pg_seq w) eff r w'" "pg_tx w' = None"
proof -
  have "tx_post ok lost (pg_db w) (pg_seq w) eff r w' \<and> pg_tx w' = None"
    using assms(3) unfolding with_tx_def
  proof (cases rule: on_err_cases)
    case (err e w1)
    then show ?thesis using assms(1,4)
      by (auto simp: BeginTx_def tx_post_def pg_next_def split: if_splits)
  next
    case (ok x w1)
    obtain r2 w2 where b: "body w1 = (r2, w2)" by (cases "body w1")
    from ok(1) have "in_tx (pg_db w) (pg_seq w) (pe_clock E (pg_tick w)) (pg_db w) (pg_seq w) w1"
      by (auto simp: BeginTx_def in_tx_def pg_next_def split: if_splits)
    from hoareD [OF assms(2) this b] ok(2) b show ?thesis by (auto simp: tx_post_def)
  qed
  then show "tx_post ok lost (pg_db w) (pg_seq w) eff r w'" "pg_tx w' = None" by blast+
qed

subsection \<open>Statements of the pool\<close>

text \<open>A query changes nothing and answers from the committed database.\<close>

definition same_db :: "pg \<Rightarrow> pg \<Rightarrow> bool" where
  "same_db w w' \<longleftrightarrow> pg_db w' = pg_db w \<and> pg_seq w' = pg_seq w \<and> pg_tx w' = pg_tx w"

lemma same_db_refl [simp]: "same_db w w"
  by (simp add: same_db_def)

lemma same_db_trans: "same_db a b \<Longrightarrow> same_db b c \<Longrightarrow> same_db a c"
  by (simp add: same_db_def)

lemma pool_query:
  assumes "pool_exec E texts (query f) w = (r, w')"
  shows "same_db w w' \<and> (\<forall>x. r = Inr x \<longrightarrow> x = f (pg_db w)) \<and> r \<noteq> Inl NoRows"
  using assms by (auto simp: pool_exec_def query_def same_db_def pg_next_def split: if_splits)

lemma pool_row:
  assumes "scan_row (pool_exec E texts (query f)) w = (r, w')"
  shows "same_db w w' \<and> (\<forall>x. r = Inr x \<longrightarrow> f (pg_db w) = Some x) \<and>
    (r = Inl NoRows \<longrightarrow> f (pg_db w) = None)"
proof -
  obtain r1 w1 where m: "pool_exec E texts (query f) w = (r1, w1)" by (cases "pool_exec E texts (query f) w")
  from pool_query [OF m] assms m show ?thesis
    by (auto simp: scan_row_def split: sum.splits option.splits)
qed

text \<open>Any statement of the pool: it failed, or it ran and its answer may have been lost.\<close>

lemma pool_exec_cases:
  assumes "pool_exec E texts st w = (x, w')"
  obtains e where "x = Inl e" "pg_db w' = pg_db w" "pg_seq w' = pg_seq w" "pg_tx w' = pg_tx w"
  | e now where "x = Inl e" "st now (pg_db w) (pg_seq w) = (Inl e, pg_seq w')" "pg_db w' = pg_db w"
      "pg_tx w' = pg_tx w"
  | y now where "st now (pg_db w) (pg_seq w) = (Inr (y, pg_db w'), pg_seq w')" "pg_tx w' = pg_tx w"
      "x = Inr y \<or> (acks_lost E \<and> x = Inl ConnError)"
proof -
  obtain r sq where st: "st (pe_clock E (pg_tick w)) (pg_db w) (pg_seq w) = (r, sq)"
    by (cases "st (pe_clock E (pg_tick w)) (pg_db w) (pg_seq w)")
  show thesis
  proof (cases "pe_fault E (pg_tick w) = FailBefore \<or> \<not> list_all pg_text texts")
    case True
    with assms obtain e where "x = Inl e" "w' = pg_next w"
      by (auto simp: pool_exec_def split: if_splits)
    then show thesis by (intro that(1)) (simp_all add: pg_next_def)
  next
    case False
    show thesis
    proof (cases r)
      case (Inl e)
      with False assms st show thesis
        by (intro that(2) [of e "pe_clock E (pg_tick w)"]) (auto simp: pool_exec_def pg_next_def)
    next
      case (Inr yd)
      obtain y db where "yd = (y, db)" by (cases yd)
      with Inr False assms st show thesis
        by (intro that(3) [of "pe_clock E (pg_tick w)" y])
          (auto simp: pool_exec_def pg_next_def acks_lost_def split: if_splits)
    qed
  qed
qed

text \<open>The queries for a table and for its id.\<close>

lemma pg_GetTable_spec:
  assumes "pg_GetTable E name w = (r, w')"
  shows "same_db w w' \<and> (\<forall>x. r = Inr x \<longrightarrow> x = map_option table_row (live_table name (pg_db w)))"
  using assms unfolding pg_GetTable_def
proof (cases rule: on_err_cases)
  case (err e w1)
  from pool_row [OF err(1)[unfolded sql_select_table_def]] err(2) show ?thesis
    by (auto simp: on_no_rows_def ret_def split: if_splits)
next
  case (ok x w1)
  from pool_row [OF ok(1)[unfolded sql_select_table_def]] ok(2) show ?thesis
    by (auto simp: ret_def)
qed

definition table_id_of :: "string \<Rightarrow> database \<Rightarrow> int64" where
  "table_id_of name db = (case live_table name db of None \<Rightarrow> -1 | Some t \<Rightarrow> t_id t)"

lemma pg_GetTableID_spec:
  assumes "pg_GetTableID E name w = (r, w')"
  shows "same_db w w' \<and> (\<forall>x. r = Inr x \<longrightarrow> x = table_id_of name (pg_db w))"
  using assms unfolding pg_GetTableID_def
proof (cases rule: on_err_cases)
  case (err e w1)
  from pool_row [OF err(1)[unfolded sql_select_table_id_def]] err(2) show ?thesis
    by (auto simp: on_no_rows_def ret_def table_id_of_def split: if_splits)
next
  case (ok x w1)
  from pool_row [OF ok(1)[unfolded sql_select_table_id_def]] ok(2) show ?thesis
    by (auto simp: ret_def table_id_of_def)
qed

definition current_of :: "string \<Rightarrow> database \<Rightarrow> uint64" where
  "current_of name db =
     (case live_table name db of
        None \<Rightarrow> 0
      | Some t \<Rightarrow> if t_snapshot t < 0 then 0 else uint64_of_int64 (t_snapshot t))"

lemma pg_GetCurrentSnapshot_spec:
  assumes "pg_GetCurrentSnapshot E name w = (r, w')"
  shows "same_db w w' \<and> (\<forall>x. r = Inr x \<longrightarrow> x = current_of name (pg_db w))"
  using assms unfolding pg_GetCurrentSnapshot_def
proof (cases rule: on_err_cases)
  case (err e w1)
  from pool_row [OF err(1)[unfolded sql_select_snapshot_pointer_def]] err(2) show ?thesis
    by (auto simp: on_no_rows_def ret_def current_of_def split: if_splits)
next
  case (ok x w1)
  from pool_row [OF ok(1)[unfolded sql_select_snapshot_pointer_def]] ok(2) show ?thesis
    by (auto simp: ret_def current_of_def)
qed

lemma pg_GetTableSpecVersion_same: "pg_GetTableSpecVersion E name w = (r, w') \<Longrightarrow> same_db w w'"
  unfolding pg_GetTableSpecVersion_def
  by (erule on_err_cases) (use pool_row in \<open>fastforce simp: on_no_rows_def ret_def sql_select_spec_version_def\<close>)+

text \<open>The rows visible in a snapshot of a table, as the queries deliver them.\<close>

definition visible_rows :: "int64 \<Rightarrow> int64 \<Rightarrow> database \<Rightarrow> partition_rec list" where
  "visible_rows tid snap db = sort_key p_id (filter (visible tid snap) (d_partitions db))"

definition partitions_at :: "database \<Rightarrow> string \<Rightarrow> uint64 \<Rightarrow> PartitionRow list option" where
  "partitions_at db name snap =
     map_option (\<lambda>t. map scan_partition (visible_rows (t_id t) (int64_of_uint64 snap) db))
       (live_table name db)"

end
