(* ===== verification/Catalog_Effects.thy ===== *)
theory Catalog_Effects
  imports Catalog_Manager Db_Facts
begin

text \<open>
  What the operations of the catalog do to the database. Each \<open>X_effect\<close> gives the committed
  database of a successful operation in terms of the one before; the \<open>X_post\<close> lemmas run the code and
  show that it either leaves the committed database alone and reports a failure, or has its effect
  and reports success, except that a success is reported as a failure when the answer to the commit
  is lost.
\<close>

lemma Success_simps [simp]: "\<not> Success (failure m)" "Success success"
  by (simp_all add: failure_def success_def)

subsection \<open>Effects\<close>

definition new_table :: "int64 \<Rightarrow> string \<Rightarrow> string \<Rightarrow> string \<Rightarrow> string \<Rightarrow> time \<Rightarrow> table_rec" where
  "new_table i name schema spec props now =
     \<lparr>t_id = i, t_name = name, t_schema = schema, t_schema_version = 1, t_spec = spec,
      t_spec_version = 1, t_snapshot = 0, t_properties = props, t_updated_at = now,
      t_deleted = False\<rparr>"

definition new_spec :: "int64 \<Rightarrow> int64 \<Rightarrow> int32 \<Rightarrow> string \<Rightarrow> string \<Rightarrow> time \<Rightarrow> spec_rec" where
  "new_spec i tid version spec summary now =
     \<lparr>g_id = i, g_table = tid, g_version = version, g_spec = spec, g_changed_at = now,
      g_summary = summary\<rparr>"

definition new_history :: "int64 \<Rightarrow> int64 \<Rightarrow> int32 \<Rightarrow> string \<Rightarrow> string \<Rightarrow> time \<Rightarrow> history_rec" where
  "new_history i tid version schema summary now =
     \<lparr>h_id = i, h_table = tid, h_version = version, h_schema = schema, h_changed_at = now,
      h_summary = summary\<rparr>"

definition create_effect ::
    "pg_env \<Rightarrow> sequences \<Rightarrow> string \<Rightarrow> string \<Rightarrow> string \<Rightarrow> string \<Rightarrow> database \<Rightarrow> database \<Rightarrow> bool" where
  "create_effect E sq name schema spec props db db' \<longleftrightarrow>
     (\<exists>schema' spec' props' now.
        pe_jsonb E schema = Some schema' \<and> pe_jsonb E spec = Some spec' \<and>
        pe_jsonb E props = Some props' \<and> name \<notin> set (map t_name (d_tables db)) \<and>
        db' = db\<lparr>
          d_tables := d_tables db @ [new_table (q_table sq + 1) name schema' spec' props' now],
          d_specs := d_specs db @
            (if spec = [] \<or> spec = ''null'' then []
             else [new_spec (q_spec sq + 1) (q_table sq + 1) 1 spec' ''initial spec'' now])\<rparr>)"

definition alter_spec_effect ::
    "pg_env \<Rightarrow> sequences \<Rightarrow> string \<Rightarrow> string \<Rightarrow> string \<Rightarrow> database \<Rightarrow> database \<Rightarrow> bool" where
  "alter_spec_effect E sq name spec summary db db' \<longleftrightarrow>
     (\<exists>t spec' now. live_table name db = Some t \<and> pe_jsonb E spec = Some spec' \<and>
        (let v = int32_of (t_spec_version t + 1) in
         (t_id t, v) \<notin> set (map (\<lambda>g. (g_table g, g_version g)) (d_specs db)) \<and>
         db' = (snd (update_live name
             (\<lambda>t. t\<lparr>t_spec := spec', t_spec_version := v, t_updated_at := now\<rparr>) db))
           \<lparr>d_specs := d_specs db @ [new_spec (q_spec sq + 1) (t_id t) v spec' summary now]\<rparr>))"

definition alter_schema_effect ::
    "pg_env \<Rightarrow> sequences \<Rightarrow> string \<Rightarrow> string \<Rightarrow> string \<Rightarrow> database \<Rightarrow> database \<Rightarrow> bool" where
  "alter_schema_effect E sq name schema summary db db' \<longleftrightarrow>
     (\<exists>t schema' now. live_table name db = Some t \<and> pe_jsonb E schema = Some schema' \<and>
        (let v = int32_of (t_schema_version t + 1) in
         db' = (snd (update_live name
             (\<lambda>t. t\<lparr>t_schema := schema', t_schema_version := v, t_updated_at := now\<rparr>) db))
           \<lparr>d_history := d_history db @ [new_history (q_history sq + 1) (t_id t) v schema' summary now]\<rparr>))"

definition rename_effect :: "string \<Rightarrow> string \<Rightarrow> database \<Rightarrow> database \<Rightarrow> bool" where
  "rename_effect old new db db' \<longleftrightarrow>
     (\<exists>t now. live_table old db = Some t \<and>
        (new \<noteq> old \<longrightarrow> new \<notin> set (map t_name (d_tables db))) \<and>
        db' = snd (update_live old (\<lambda>t. t\<lparr>t_name := new, t_updated_at := now\<rparr>) db))"

definition soft_drop_effect :: "string \<Rightarrow> database \<Rightarrow> database \<Rightarrow> bool" where
  "soft_drop_effect name db db' \<longleftrightarrow>
     (\<exists>t now. live_table name db = Some t \<and>
        db' = snd (update_live name (\<lambda>t. t\<lparr>t_deleted := True, t_updated_at := now\<rparr>) db))"

definition purge_db :: "int64 \<Rightarrow> string \<Rightarrow> database \<Rightarrow> database" where
  "purge_db tid name db = db\<lparr>
     d_mfiles := filter (\<lambda>f. mf_TableID f \<noteq> tid) (d_mfiles db),
     d_mlists := filter (\<lambda>l. ml_TableID l \<noteq> tid) (d_mlists db),
     d_partitions := filter (\<lambda>p. p_table p \<noteq> tid) (d_partitions db),
     d_snapshots := filter (\<lambda>s. s_table s \<noteq> tid) (d_snapshots db),
     d_history := filter (\<lambda>h. h_table h \<noteq> tid) (d_history db),
     d_specs := filter (\<lambda>g. g_table g \<noteq> tid) (d_specs db),
     d_tables := filter (\<lambda>t. t_name t \<noteq> name) (d_tables db)\<rparr>"

definition purge_effect :: "string \<Rightarrow> database \<Rightarrow> database \<Rightarrow> bool" where
  "purge_effect name db db' \<longleftrightarrow>
     (\<exists>t. live_table name db = Some t \<and> (\<forall>x \<in> set (d_txns db). x_table x \<noteq> t_id t) \<and>
        db' = purge_db (t_id t) name db)"

definition drop_effect :: "bool \<Rightarrow> string \<Rightarrow> database \<Rightarrow> database \<Rightarrow> bool" where
  "drop_effect purge name db db' \<longleftrightarrow>
     (if purge then purge_effect name db db' else soft_drop_effect name db db')"

subsection \<open>Rows found by name\<close>

lemma live_table_Some:
  "live_table name db = Some t \<Longrightarrow> t \<in> set (d_tables db) \<and> t_name t = name \<and> \<not> t_deleted t"
  by (auto simp: live_table_def find_Some_iff is_live_def)

lemma live_table_None: "live_table name db = None \<longleftrightarrow> (\<forall>t \<in> set (d_tables db). \<not> is_live name t)"
  by (auto simp: live_table_def find_None_iff)

lemma update_live_count: "fst (update_live name f db) > 0 \<longleftrightarrow> live_table name db \<noteq> None"
  by (auto simp: update_live_def live_table_None filter_empty_conv)

subsection \<open>Running the operations\<close>

lemma pg_CreateTableTx_run:
  "checked (in_tx db0 sq0 now db sq) (pg_CreateTableTx E name schema spec props)
     (\<lambda>e. aborted db0 sq0)
     (\<lambda>x w.
        (\<not> snd x \<and> aborted db0 sq0 w) \<or>
        (snd x \<and> fst x = q_table sq + 1 \<and> name \<notin> set (map t_name (d_tables db)) \<and>
         (\<exists>schema' spec' props'. pe_jsonb E schema = Some schema' \<and> pe_jsonb E spec = Some spec' \<and>
           pe_jsonb E props = Some props' \<and>
           in_tx db0 sq0 now
             (db\<lparr>d_tables := d_tables db @ [new_table (fst x) name schema' spec' props' now]\<rparr>)
             (sq\<lparr>q_table := fst x\<rparr>) w)))"
proof -
  let ?st = "sql_insert_table E name schema spec props"
  have g: "grows ?st" by (rule grow_rules)
  note st = checked_tx_exec [OF g, of db0 sq0 now db sq E "[name, schema, spec, props]"]
  have row: "checked (in_tx db0 sq0 now db sq) (scan_row (tx_exec E [name, schema, spec, props] ?st))
      (\<lambda>e. aborted db0 sq0)
      (\<lambda>i w. \<exists>db' sq'. ?st now db sq = (Inr (Some i, db'), sq') \<and> in_tx db0 sq0 now db' sq' w)"
    (is "checked ?P ?m ?A ?B")
  proof (rule checkedI)
    fix w e w'
    assume pre: "?P w" and "?m w = (Inl e, w')"
    then show "aborted db0 sq0 w'"
      using checkedE [OF st pre]
      by (auto simp: scan_row_def split: prod.splits sum.splits option.splits dest!: in_tx_aborted)
  next
    fix w i w'
    assume pre: "?P w" and "?m w = (Inr i, w')"
    then have "tx_exec E [name, schema, spec, props] ?st w = (Inr (Some i), w')"
      by (auto simp: scan_row_def split: prod.splits sum.splits option.splits)
    from checkedE(2) [OF st pre this] show "?B i w'" .
  qed
  show ?thesis
    unfolding pg_CreateTableTx_def
  proof (rule checked_on_err [OF row])
    show "checked (aborted db0 sq0) (on_no_rows (0, False) e) (\<lambda>e. aborted db0 sq0)
        (\<lambda>x w. (\<not> snd x \<and> aborted db0 sq0 w) \<or> Q x w)" for e Q
      by (rule checkedI) (auto simp: on_no_rows_def ret_def split: if_splits)
  next
    fix i
    show "checked (?B i) (ret (Inr (i, True))) (\<lambda>e. aborted db0 sq0)
      (\<lambda>x w.
        (\<not> snd x \<and> aborted db0 sq0 w) \<or>
        (snd x \<and> fst x = q_table sq + 1 \<and> name \<notin> set (map t_name (d_tables db)) \<and>
         (\<exists>schema' spec' props'. pe_jsonb E schema = Some schema' \<and> pe_jsonb E spec = Some spec' \<and>
           pe_jsonb E props = Some props' \<and>
           in_tx db0 sq0 now
             (db\<lparr>d_tables := d_tables db @ [new_table (fst x) name schema' spec' props' now]\<rparr>)
             (sq\<lparr>q_table := fst x\<rparr>) w)))"
      by (rule checked_ret_Inr)
        (auto simp: sql_insert_table_def new_table_def split: option.splits if_splits
          dest!: nextval_Some)
  qed
qed

lemma pg_InsertPartitionSpecTx_run:
  "checked (in_tx db0 sq0 now db sq) (pg_InsertPartitionSpecTx E tid version spec summary)
     (\<lambda>e. aborted db0 sq0)
     (\<lambda>_ w. \<exists>spec'. pe_jsonb E spec = Some spec' \<and>
        (tid, version) \<notin> set (map (\<lambda>g. (g_table g, g_version g)) (d_specs db)) \<and>
        in_tx db0 sq0 now
          (db\<lparr>d_specs := d_specs db @ [new_spec (q_spec sq + 1) tid version spec' summary now]\<rparr>)
          (sq\<lparr>q_spec := q_spec sq + 1\<rparr>) w)"
  unfolding pg_InsertPartitionSpecTx_def
  by (rule checked_weaken [OF checked_tx_exec]) (auto intro: grow_rules simp: sql_insert_spec_def
      new_spec_def split: option.splits if_splits dest!: nextval_Some)

lemma commit_or_fail_run:
  "eff db \<Longrightarrow> hoare (in_tx db0 sq0 now db sq) (commit_or_fail E)
     (tx_post Success (acks_lost E) db0 sq0 (\<lambda>_. eff))"
  unfolding commit_or_fail_def by (rule commit_post) simp_all

lemma failure_post:
  "hoare (aborted db0 sq0) (ret (failure msg)) (tx_post Success lost db0 sq0 eff)"
  by (rule aborted_post) simp

text \<open>After the row of the table is there: the initial spec and the commit.\<close>

lemma CreateTable_tail_run:
  assumes "name \<notin> set (map t_name (d_tables db))"
    and "pe_jsonb E schema = Some schema'" "pe_jsonb E spec = Some spec'" "pe_jsonb E props = Some props'"
  shows "hoare (in_tx db sq now
      (db\<lparr>d_tables := d_tables db @ [new_table (q_table sq + 1) name schema' spec' props' now]\<rparr>)
      (sq\<lparr>q_table := q_table sq + 1\<rparr>))
    (if spec \<noteq> [] \<and> spec \<noteq> ''null''
     then on_err (pg_InsertPartitionSpecTx E (q_table sq + 1) 1 spec ''initial spec'')
       (\<lambda>e. ret (failure (''failed to record initial partition spec: '' @ pe_error E e)))
       (\<lambda>_. commit_or_fail E)
     else commit_or_fail E)
    (tx_post Success (acks_lost E) db sq (\<lambda>_. create_effect E sq name schema spec props db))"
    (is "hoare ?P _ ?Q")
proof (cases "spec = [] \<or> spec = ''null''")
  case True
  have "create_effect E sq name schema spec props db
      (db\<lparr>d_tables := d_tables db @ [new_table (q_table sq + 1) name schema' spec' props' now]\<rparr>)"
    unfolding create_effect_def using assms True by auto
  from commit_or_fail_run [of "create_effect E sq name schema spec props db", OF this] True
  show ?thesis by auto
next
  case False
  have "hoare ?P (on_err (pg_InsertPartitionSpecTx E (q_table sq + 1) 1 spec ''initial spec'')
       (\<lambda>e. ret (failure (''failed to record initial partition spec: '' @ pe_error E e)))
       (\<lambda>_. commit_or_fail E)) ?Q"
    by (rule hoare_on_err [OF pg_InsertPartitionSpecTx_run failure_post], rule hoare_ex,
        rule hoare_conj, rule hoare_conj, rule commit_or_fail_run)
      (use assms False in \<open>force simp: create_effect_def\<close>)
  with False show ?thesis by simp
qed

lemma CreateTable_post:
  assumes "CreateTable_locked E name schema spec props w = (r, w')" "pg_tx w = None"
  shows "tx_post Success (acks_lost E) (pg_db w) (pg_seq w)
      (\<lambda>_. create_effect E (pg_seq w) name schema spec props (pg_db w)) r w'" "pg_tx w' = None"
proof -
  let ?db = "pg_db w" and ?sq = "pg_seq w"
  let ?Q = "tx_post Success (acks_lost E) ?db ?sq (\<lambda>_::OpResult. create_effect E ?sq name schema spec props ?db)"
  have body: "hoare (in_tx ?db ?sq now ?db ?sq)
     (on_err (pg_CreateTableTx E name schema spec props)
          (\<lambda>e. ret (failure (''failed to create table: '' @ pe_error E e)))
          (\<lambda>(tableID, created).
             if \<not> created then ret (failure (''table already exists: '' @ name))
             else if spec \<noteq> [] \<and> spec \<noteq> ''null''
             then on_err (pg_InsertPartitionSpecTx E tableID 1 spec ''initial spec'')
               (\<lambda>e. ret (failure (''failed to record initial partition spec: '' @ pe_error E e)))
               (\<lambda>_. commit_or_fail E)
             else commit_or_fail E)) ?Q" (is "hoare _ (on_err _ _ ?k) _") for now
  proof (rule hoare_on_err [OF pg_CreateTableTx_run failure_post], rule hoareI)
    fix x :: "int64 \<times> bool" and v r1 v'
    obtain i created where x: "x = (i, created)" by (cases x)
    assume pre: "(\<not> snd x \<and> aborted ?db ?sq v) \<or>
        (snd x \<and> fst x = q_table ?sq + 1 \<and> name \<notin> set (map t_name (d_tables ?db)) \<and>
         (\<exists>schema' spec' props'. pe_jsonb E schema = Some schema' \<and> pe_jsonb E spec = Some spec' \<and>
           pe_jsonb E props = Some props' \<and>
           in_tx ?db ?sq now
             (?db\<lparr>d_tables := d_tables ?db @ [new_table (fst x) name schema' spec' props' now]\<rparr>)
             (?sq\<lparr>q_table := fst x\<rparr>) v))"
      and m: "?k x v = (r1, v')"
    show "?Q r1 v'"
    proof (cases created)
      case False
      with pre m x show ?thesis by (auto simp: ret_def tx_post_def aborted_def intro: ids_below_mono)
    next
      case True
      with pre x obtain schema' spec' props' where p: "name \<notin> set (map t_name (d_tables ?db))"
        "pe_jsonb E schema = Some schema'" "pe_jsonb E spec = Some spec'"
        "pe_jsonb E props = Some props'" and i: "i = q_table ?sq + 1"
        and v: "in_tx ?db ?sq now
             (?db\<lparr>d_tables := d_tables ?db @ [new_table i name schema' spec' props' now]\<rparr>)
             (?sq\<lparr>q_table := i\<rparr>) v" by auto
      from m True x i show ?thesis
        by (intro hoareD [OF CreateTable_tail_run [OF p] v [unfolded i]]) simp
    qed
  qed
  show "?Q r w'" "pg_tx w' = None"
    using with_tx_post [OF _ body assms(1)[unfolded CreateTable_locked_def] assms(2)] by simp_all
qed

subsection \<open>Alterations\<close>

lemma live_table_update:
  assumes "\<And>t. is_live name t \<Longrightarrow> is_live name (f t)"
  shows "live_table name (snd (update_live name f db)) = map_option f (live_table name db)"
proof -
  have "find (is_live name) (map (\<lambda>t. if is_live name t then f t else t) ts) =
      map_option f (find (is_live name) ts)" for ts
    using assms by (induction ts) auto
  then show ?thesis by (simp add: live_table_def update_live_def)
qed

lemma with_existing_post:
  assumes "with_existing E name k w = (r, w')" "pg_tx w = None"
    and "\<And>t w1. live_table name (pg_db w) = Some t \<Longrightarrow> same_db w w1 \<Longrightarrow> k (table_row t) w1 = (r, w') \<Longrightarrow>
      tx_post Success lost (pg_db w) (pg_seq w) eff r w' \<and> pg_tx w' = None"
  shows "tx_post Success lost (pg_db w) (pg_seq w) eff r w' \<and> pg_tx w' = None"
  using assms(1) unfolding with_existing_def
proof (cases rule: on_err_cases)
  case (err e w1)
  with pg_GetTable_spec [OF err(1)] assms(2) show ?thesis
    by (auto simp: ret_def same_db_def tx_post_def)
next
  case (ok x w1)
  note sp = pg_GetTable_spec [OF ok(1)]
  show ?thesis
  proof (cases "live_table name (pg_db w)")
    case None
    with ok sp assms(2) show ?thesis by (auto simp: ret_def same_db_def tx_post_def)
  next
    case (Some t)
    with ok sp show ?thesis by (intro assms(3) [OF Some]) auto
  qed
qed

lemma pg_UpdateTablePartitionSpecTx_run:
  "checked (in_tx db0 sq0 now db sq) (pg_UpdateTablePartitionSpecTx E name spec v)
     (\<lambda>e. aborted db0 sq0)
     (\<lambda>_ w. \<exists>spec'. pe_jsonb E spec = Some spec' \<and>
        in_tx db0 sq0 now (snd (update_live name
          (\<lambda>t. t\<lparr>t_spec := spec', t_spec_version := v, t_updated_at := now\<rparr>) db)) sq w)"
  unfolding pg_UpdateTablePartitionSpecTx_def
  by (rule checked_on_err [OF checked_tx_exec [OF grows_updates(2)]];
      rule checked_ret_Inl checked_ret_Inr)
    (auto simp: sql_update_spec_def update_def split: option.splits)

lemma AlterTablePartitionSpec_post:
  assumes "AlterTablePartitionSpec_locked E name spec summary w = (r, w')" "pg_tx w = None"
  shows "tx_post Success (acks_lost E) (pg_db w) (pg_seq w)
      (\<lambda>_. alter_spec_effect E (pg_seq w) name spec summary (pg_db w)) r w' \<and> pg_tx w' = None"
  using assms(1) unfolding AlterTablePartitionSpec_locked_def
proof (rule with_existing_post [OF _ assms(2)])
  fix t w1
  assume t: "live_table name (pg_db w) = Some t" and same: "same_db w w1"
    and run: "with_tx E (\<lambda>e. failure (pe_error E e))
      (let newVersion = int32_of (tr_PartitionSpecVersion (table_row t) + 1) in
          on_err (pg_UpdateTablePartitionSpecTx E name spec newVersion)
            (\<lambda>e. ret (failure (''failed to update partition spec: '' @ pe_error E e)))
            (\<lambda>_. on_err (pg_InsertPartitionSpecTx E (tr_TableID (table_row t)) newVersion spec summary)
               (\<lambda>e. ret (failure (''failed to record spec history: '' @ pe_error E e)))
               (\<lambda>_. commit_or_fail E))) w1 = (r, w')" (is "with_tx E _ ?body w1 = _")
  let ?db = "pg_db w1" and ?sq = "pg_seq w1"
  have t1: "live_table name ?db = Some t" using t same by (simp add: same_db_def)
  let ?eff = "alter_spec_effect E ?sq name spec summary ?db"
  have body: "hoare (in_tx ?db ?sq now ?db ?sq) ?body
      (tx_post Success (acks_lost E) ?db ?sq (\<lambda>_. ?eff))" for now
    unfolding Let_def
    by (rule hoare_on_err [OF pg_UpdateTablePartitionSpecTx_run failure_post], rule hoare_ex,
        rule hoare_conj, rule hoare_on_err [OF pg_InsertPartitionSpecTx_run failure_post],
        rule hoare_ex, rule hoare_conj, rule hoare_conj, rule commit_or_fail_run)
      (use t1 in \<open>force simp: alter_spec_effect_def table_row_def Let_def update_live_def\<close>)
  have "pg_tx w1 = None" using same assms(2) by (simp add: same_db_def)
  from with_tx_post [OF _ body run this] same
  show "tx_post Success (acks_lost E) (pg_db w) (pg_seq w)
      (\<lambda>_. alter_spec_effect E (pg_seq w) name spec summary (pg_db w)) r w' \<and> pg_tx w' = None"
    by (simp add: same_db_def)
qed

lemma pg_UpdateTableSchema_run:
  assumes "live_table name db = Some t"
  shows "checked (in_tx db0 sq0 now db sq) (pg_UpdateTableSchema E name schema v summary)
     (\<lambda>e. aborted db0 sq0)
     (\<lambda>_ w. \<exists>schema'. pe_jsonb E schema = Some schema' \<and>
        in_tx db0 sq0 now ((snd (update_live name
            (\<lambda>t. t\<lparr>t_schema := schema', t_schema_version := v, t_updated_at := now\<rparr>) db))
          \<lparr>d_history := d_history db @ [new_history (q_history sq + 1) (t_id t) v schema' summary now]\<rparr>)
          (sq\<lparr>q_history := q_history sq + 1\<rparr>) w)"
    (is "checked ?P _ ?A ?B")
proof -
  let ?f = "\<lambda>s t. t\<lparr>t_schema := s, t_schema_version := v, t_updated_at := now\<rparr>"
  have upd: "checked ?P (tx_exec E [schema, name] (sql_update_schema E name schema v)) ?A
      (\<lambda>_ w. \<exists>schema'. pe_jsonb E schema = Some schema' \<and>
        in_tx db0 sq0 now (snd (update_live name (?f schema') db)) sq w)"
    by (rule checked_weaken [OF checked_tx_exec [OF grows_updates(1)]])
      (auto simp: sql_update_schema_def update_def split: option.splits)
  have ins: "checked (in_tx db0 sq0 now (snd (update_live name (?f schema') db)) sq)
      (tx_exec E [schema, summary] (sql_insert_history E (t_id t) v schema summary)) ?A ?B"
    if "pe_jsonb E schema = Some schema'" for schema'
    by (rule checked_weaken [OF checked_tx_exec [OF grows_inserts(2)]])
      (use that in \<open>auto simp: sql_insert_history_def new_history_def update_live_def
        split: option.splits if_splits dest!: nextval_Some\<close>)
  have live: "live_table name (snd (update_live name (?f s) db)) = Some (?f s t)" for s
    using assms by (subst live_table_update) (auto simp: is_live_def)
  have pure: "checked (aborted db0 sq0) (ret (Inl e)) ?A ?B" for e
    by (rule checked_ret_Inl)
  show ?thesis
    unfolding pg_UpdateTableSchema_def
  proof (rule checked_on_err [OF upd pure], rule checked_ex, rule checked_conj,
      rule checked_on_err [OF select_table_id_tx])
    fix e
    show "checked (\<lambda>w. aborted db0 sq0 w \<and> (e = NoRows \<longrightarrow> P)) (ret (Inl e)) ?A ?B" for P
      by (rule checked_ret_Inl) simp
  next
    fix schema' i
    assume "pe_jsonb E schema = Some schema'"
    from ins [OF this] show "checked (\<lambda>w. map_option t_id (live_table name
        (snd (update_live name (?f schema') db))) = Some i \<and>
        in_tx db0 sq0 now (snd (update_live name (?f schema') db)) sq w)
      (tx_exec E [schema, summary] (sql_insert_history E i v schema summary)) ?A ?B"
      by (intro checked_conj) (simp add: live)
  qed
qed

lemma AlterTableSchema_post:
  assumes "AlterTableSchema_locked E name schema summary w = (r, w')" "pg_tx w = None"
  shows "tx_post Success (acks_lost E) (pg_db w) (pg_seq w)
      (\<lambda>_. alter_schema_effect E (pg_seq w) name schema summary (pg_db w)) r w' \<and> pg_tx w' = None"
  using assms(1) unfolding AlterTableSchema_locked_def
proof (rule with_existing_post [OF _ assms(2)])
  fix t w1
  assume t: "live_table name (pg_db w) = Some t" and same: "same_db w w1"
    and run: "with_tx E (\<lambda>e. failure (pe_error E e))
      (let newVersion = int32_of (tr_SchemaVersion (table_row t) + 1) in
          on_err (pg_UpdateTableSchema E name schema newVersion summary)
            (\<lambda>e. ret (failure (''failed to update schema for: '' @ name)))
            (\<lambda>_. commit_or_fail E)) w1 = (r, w')" (is "with_tx E _ ?body w1 = _")
  let ?db = "pg_db w1" and ?sq = "pg_seq w1"
  have t1: "live_table name ?db = Some t" using t same by (simp add: same_db_def)
  let ?eff = "alter_schema_effect E ?sq name schema summary ?db"
  have body: "hoare (in_tx ?db ?sq now ?db ?sq) ?body
      (tx_post Success (acks_lost E) ?db ?sq (\<lambda>_. ?eff))" for now
    unfolding Let_def
    by (rule hoare_on_err [OF pg_UpdateTableSchema_run [OF t1] failure_post], rule hoare_ex,
        rule hoare_conj, rule commit_or_fail_run)
      (use t1 in \<open>force simp: alter_schema_effect_def table_row_def Let_def\<close>)
  have "pg_tx w1 = None" using same assms(2) by (simp add: same_db_def)
  from with_tx_post [OF _ body run this] same
  show "tx_post Success (acks_lost E) (pg_db w) (pg_seq w)
      (\<lambda>_. alter_schema_effect E (pg_seq w) name schema summary (pg_db w)) r w' \<and> pg_tx w' = None"
    by (simp add: same_db_def)
qed

lemma sql_rename_result:
  assumes "sql_rename old new now db sq = (Inr (n, db'), sq')"
  shows "sq' = sq \<and> (if n > 0 then rename_effect old new db db' else db' = db)"
proof (cases "live_table old db")
  case None
  then have "snd (update_live old f db) = db" for f
    by (auto simp: update_live_def live_table_None intro!: database.equality map_idI)
  moreover have "\<not> fst (update_live old f db) > 0" for f
    using None update_live_count [of old f db] by simp
  moreover from assms None have "(n, db') = update_live old (\<lambda>t. t\<lparr>t_name := new, t_updated_at := now\<rparr>) db"
    "sq' = sq" by (simp_all add: sql_rename_def update_def)
  ultimately show ?thesis by (metis fst_conv snd_conv)
next
  case (Some t)
  let ?f = "\<lambda>t. t\<lparr>t_name := new, t_updated_at := now\<rparr>"
  from assms have "(n, db') = update_live old ?f db" "sq' = sq"
    and "new \<noteq> old \<longrightarrow> new \<notin> set (map t_name (d_tables db))"
    using Some by (auto simp: sql_rename_def update_def split: if_splits)
  moreover from this(1) have "n > 0" "db' = snd (update_live old ?f db)"
    using update_live_count [of old ?f db] Some by (metis fst_conv option.discI snd_conv)+
  ultimately show ?thesis using Some unfolding rename_effect_def by auto
qed

lemma RenameTable_post:
  assumes "RenameTable_locked E old new w = (r, w')"
  shows "seq_le (pg_seq w) (pg_seq w') \<and> pg_tx w' = pg_tx w \<and>
    (\<not> Success r \<and> pg_db w' = pg_db w \<or>
     rename_effect old new (pg_db w) (pg_db w') \<and> (Success r \<or> acks_lost E))"
proof -
  obtain x w1 where m: "pool_exec E [new, old] (sql_rename old new) w = (x, w1)"
    by (cases "pool_exec E [new, old] (sql_rename old new) w")
  have run: "w' = w1" "Success r \<longleftrightarrow> (\<exists>n. x = Inr n \<and> n > 0)"
    using assms m by (auto simp: RenameTable_locked_def pg_RenameTable_def on_err_def ret_def
        split: sum.splits if_splits)
  from m show ?thesis
  proof (cases rule: pool_exec_cases)
    case (1 e)
    then show ?thesis using run by simp
  next
    case (2 e now)
    moreover have "seq_le (pg_seq w) (pg_seq w1)"
      using grows_updates(5) 2(2) unfolding grows_def by (metis snd_conv)
    ultimately show ?thesis using run by simp
  next
    case (3 n now)
    from sql_rename_result [OF 3(1)] 3(2,3) run show ?thesis by (auto split: if_splits)
  qed
qed

subsection \<open>Drop\<close>

lemma soft_delete_run:
  "checked (in_tx db0 sq0 now db sq) (tx_exec E [name] (sql_soft_delete name)) (\<lambda>e. aborted db0 sq0)
     (\<lambda>n w. \<exists>db'. (n > 0 \<longrightarrow> soft_drop_effect name db db') \<and> in_tx db0 sq0 now db' sq w)"
proof (rule checked_weaken [OF checked_tx_exec [OF grows_updates(4)]])
  fix n w
  let ?f = "\<lambda>t. t\<lparr>t_deleted := True, t_updated_at := now\<rparr>"
  assume "\<exists>db' sq'. sql_soft_delete name now db sq = (Inr (n, db'), sq') \<and> in_tx db0 sq0 now db' sq' w"
  then have n: "n = fst (update_live name ?f db)" and
    w: "in_tx db0 sq0 now (snd (update_live name ?f db)) sq w"
    by (auto simp: sql_soft_delete_def update_def)
  have "soft_drop_effect name db (snd (update_live name ?f db))" if "n > 0"
    using that update_live_count [of name ?f db] n by (auto simp: soft_drop_effect_def)
  with w show "\<exists>db'. (n > 0 \<longrightarrow> soft_drop_effect name db db') \<and> in_tx db0 sq0 now db' sq w" by blast
qed

text \<open>A delete by table id in a transaction.\<close>

lemma delete_run:
  assumes "st = update (\<lambda>now db. ((), f db))" "grows st"
  shows "checked (in_tx db0 sq0 now db sq) (tx_exec E [] st) (\<lambda>e. aborted db0 sq0)
    (\<lambda>_. in_tx db0 sq0 now (f db) sq)"
  by (rule checked_weaken [OF checked_tx_exec [OF assms(2)]]) (auto simp: assms(1) update_def)

lemma delete_snapshots_run:
  "checked (in_tx db0 sq0 now db sq) (tx_exec E [] (sql_delete_snapshots tid)) (\<lambda>e. aborted db0 sq0)
    (\<lambda>_. in_tx db0 sq0 now (db\<lparr>d_snapshots := filter (\<lambda>s. s_table s \<noteq> tid) (d_snapshots db)\<rparr>) sq)"
  by (rule checked_weaken [OF checked_tx_exec [OF grows_deletes(6)]])
    (auto simp: sql_delete_snapshots_def Let_def split: if_splits)

lemma delete_table_run:
  "checked (in_tx db0 sq0 now db sq) (tx_exec E [name] (sql_delete_table name)) (\<lambda>e. aborted db0 sq0)
    (\<lambda>n w. (\<forall>t \<in> set (d_tables db). t_name t = name \<longrightarrow> \<not> table_referenced (t_id t) db) \<and>
       in_tx db0 sq0 now (db\<lparr>d_tables := filter (\<lambda>t. t_name t \<noteq> name) (d_tables db)\<rparr>) sq w)"
  by (rule checked_weaken [OF checked_tx_exec [OF grows_deletes(7)]])
    (auto simp: sql_delete_table_def list_ex_iff split: if_splits)

text \<open>The six deletes before the row of the table goes.\<close>

definition purge_rows :: "int64 \<Rightarrow> database \<Rightarrow> database" where
  "purge_rows tid db = (purge_db tid [] db)\<lparr>d_tables := d_tables db\<rparr>"

lemma purge_rows_simps [simp]:
  "d_tables (purge_rows tid db) = d_tables db" "d_txns (purge_rows tid db) = d_txns db"
  "live_table name (purge_rows tid db) = live_table name db"
  "(purge_rows tid db)\<lparr>d_tables := filter (\<lambda>t. t_name t \<noteq> name) (d_tables db)\<rparr> = purge_db tid name db"
  by (simp_all add: purge_rows_def purge_db_def live_table_def)

lemma purge_referenced: "table_referenced tid (purge_rows tid db) \<longleftrightarrow> (\<exists>x \<in> set (d_txns db). x_table x = tid)"
  by (auto simp: table_referenced_def purge_rows_def purge_db_def)

lemmas delete_runs =
  delete_run [OF sql_delete_manifest_files_def grows_deletes(1)]
  delete_run [OF sql_delete_manifest_lists_def grows_deletes(2)]
  delete_run [OF sql_delete_partitions_def grows_deletes(3)] delete_snapshots_run
  delete_run [OF sql_delete_history_def grows_deletes(4)]
  delete_run [OF sql_delete_specs_def grows_deletes(5)]

lemma pg_DropTable_run:
  "checked (in_tx db0 sq0 now db sq) (pg_DropTable E name purge) (\<lambda>e. aborted db0 sq0)
     (\<lambda>ok w. aborted db0 sq0 w \<and> (ok \<longrightarrow> (\<exists>db'. drop_effect purge name db db' \<and> in_tx db0 sq0 now db' sq w)))"
    (is "checked ?P _ ?A ?B")
proof (cases purge)
  case False
  have fin: "checked (in_tx db0 sq0 now db' sq) (ret (Inr (n > 0))) ?A ?B"
    if "n > 0 \<longrightarrow> soft_drop_effect name db db'" for n :: int and db'
    by (rule checked_ret_Inr) (use that False in \<open>auto simp: drop_effect_def dest: in_tx_aborted\<close>)
  have bad: "checked (aborted db0 sq0) (ret (Inl e)) ?A ?B" for e
    by (rule checked_ret_Inl)
  from False have "pg_DropTable E name purge =
      on_err (tx_exec E [name] (sql_soft_delete name)) (\<lambda>e. ret (Inl e)) (\<lambda>n. ret (Inr (n > 0)))"
    by (simp add: pg_DropTable_def)
  then show ?thesis
    by (simp only:) (rule checked_on_err [OF soft_delete_run bad], rule checked_ex, rule checked_conj, rule fin)
next
  case True
  have bad: "checked (aborted db0 sq0) (ret (Inl e)) ?A ?B" for e
    by (rule checked_ret_Inl)
  have fin: "checked (\<lambda>w. (\<forall>t' \<in> set (d_tables (purge_rows (t_id t) db)). t_name t' = name \<longrightarrow>
          \<not> table_referenced (t_id t') (purge_rows (t_id t) db)) \<and>
        in_tx db0 sq0 now ((purge_rows (t_id t) db)\<lparr>d_tables :=
          filter (\<lambda>t. t_name t \<noteq> name) (d_tables (purge_rows (t_id t) db))\<rparr>) sq w)
      (ret (Inr (n > 0))) ?A ?B"
    if t: "live_table name db = Some t" for n :: int and t
  proof (rule checked_conj)
    assume "\<forall>t' \<in> set (d_tables (purge_rows (t_id t) db)). t_name t' = name \<longrightarrow>
          \<not> table_referenced (t_id t') (purge_rows (t_id t) db)"
    then have "\<not> table_referenced (t_id t) (purge_rows (t_id t) db)"
      using live_table_Some [OF t] by simp
    then have "drop_effect purge name db (purge_db (t_id t) name db)"
      using t True by (auto simp: drop_effect_def purge_effect_def purge_referenced)
    then show "checked (in_tx db0 sq0 now ((purge_rows (t_id t) db)\<lparr>d_tables :=
          filter (\<lambda>t. t_name t \<noteq> name) (d_tables (purge_rows (t_id t) db))\<rparr>) sq)
        (ret (Inr (n > 0))) ?A ?B"
      by (intro checked_ret_Inr) (auto dest: in_tx_aborted)
  qed
  have dels: "checked (in_tx db0 sq0 now db sq)
       (on_err (tx_exec E [] (sql_delete_manifest_files (t_id t))) (\<lambda>e. ret (Inl e)) (\<lambda>_.
        on_err (tx_exec E [] (sql_delete_manifest_lists (t_id t))) (\<lambda>e. ret (Inl e)) (\<lambda>_.
        on_err (tx_exec E [] (sql_delete_partitions (t_id t))) (\<lambda>e. ret (Inl e)) (\<lambda>_.
        on_err (tx_exec E [] (sql_delete_snapshots (t_id t))) (\<lambda>e. ret (Inl e)) (\<lambda>_.
        on_err (tx_exec E [] (sql_delete_history (t_id t))) (\<lambda>e. ret (Inl e)) (\<lambda>_.
        on_err (tx_exec E [] (sql_delete_specs (t_id t))) (\<lambda>e. ret (Inl e)) (\<lambda>_.
        on_err (tx_exec E [name] (sql_delete_table name)) (\<lambda>e. ret (Inl e))
          (\<lambda>n. ret (Inr (n > 0)))))))))) ?A ?B"
    if t: "live_table name db = Some t" for t
  proof -
    have all: "purge_rows (t_id t) db = db\<lparr>
       d_mfiles := filter (\<lambda>f. mf_TableID f \<noteq> t_id t) (d_mfiles db),
       d_mlists := filter (\<lambda>l. ml_TableID l \<noteq> t_id t) (d_mlists db),
       d_partitions := filter (\<lambda>p. p_table p \<noteq> t_id t) (d_partitions db),
       d_snapshots := filter (\<lambda>s. s_table s \<noteq> t_id t) (d_snapshots db),
       d_history := filter (\<lambda>h. h_table h \<noteq> t_id t) (d_history db),
       d_specs := filter (\<lambda>g. g_table g \<noteq> t_id t) (d_specs db)\<rparr>"
      by (simp add: purge_rows_def purge_db_def)
    show ?thesis
      by (rule checked_on_err [OF delete_runs(1) bad], rule checked_on_err [OF delete_runs(2) bad],
          rule checked_on_err [OF delete_runs(3) bad], rule checked_on_err [OF delete_runs(4) bad],
          rule checked_on_err [OF delete_runs(5) bad], rule checked_on_err [OF delete_runs(6) bad],
          rule checked_on_err [OF delete_table_run bad])
        (use fin [OF t] in \<open>simp add: all\<close>)
  qed
  show ?thesis
    unfolding pg_DropTable_def if_P [OF True]
  proof (rule checked_on_err [OF select_table_id_tx])
    show "checked (\<lambda>w. aborted db0 sq0 w \<and> (e = NoRows \<longrightarrow> P)) (on_no_rows False e) ?A ?B" for e P
      by (rule checkedI) (auto simp: on_no_rows_def ret_def split: if_splits)
    show "checked (\<lambda>w. map_option t_id (live_table name db) = Some i \<and> in_tx db0 sq0 now db sq w)
       (on_err (tx_exec E [] (sql_delete_manifest_files i)) (\<lambda>e. ret (Inl e)) (\<lambda>_.
        on_err (tx_exec E [] (sql_delete_manifest_lists i)) (\<lambda>e. ret (Inl e)) (\<lambda>_.
        on_err (tx_exec E [] (sql_delete_partitions i)) (\<lambda>e. ret (Inl e)) (\<lambda>_.
        on_err (tx_exec E [] (sql_delete_snapshots i)) (\<lambda>e. ret (Inl e)) (\<lambda>_.
        on_err (tx_exec E [] (sql_delete_history i)) (\<lambda>e. ret (Inl e)) (\<lambda>_.
        on_err (tx_exec E [] (sql_delete_specs i)) (\<lambda>e. ret (Inl e)) (\<lambda>_.
        on_err (tx_exec E [name] (sql_delete_table name)) (\<lambda>e. ret (Inl e))
          (\<lambda>n. ret (Inr (n > 0)))))))))) ?A ?B" for i
      by (rule checked_conj) (use dels in auto)
  qed
qed

lemma DropTable_post:
  assumes "DropTable_locked E name purge w = (r, w')" "pg_tx w = None"
  shows "tx_post Success (acks_lost E) (pg_db w) (pg_seq w)
      (\<lambda>_. drop_effect purge name (pg_db w)) r w' \<and> pg_tx w' = None"
proof -
  let ?db = "pg_db w" and ?sq = "pg_seq w"
  let ?Q = "tx_post Success (acks_lost E) ?db ?sq (\<lambda>_. drop_effect purge name ?db)"
  have body: "hoare (in_tx ?db ?sq now ?db ?sq)
     (on_err (pg_DropTable E name purge) (\<lambda>e. ret (failure (pe_error E e)))
          (\<lambda>ok. if \<not> ok then ret (failure (''failed to drop table: '' @ name))
             else commit_or_fail E)) ?Q" (is "hoare _ (on_err _ _ ?k) _") for now
  proof (rule hoare_on_err [OF pg_DropTable_run failure_post])
    fix ok
    show "hoare (\<lambda>w. aborted ?db ?sq w \<and>
        (ok \<longrightarrow> (\<exists>db'. drop_effect purge name ?db db' \<and> in_tx ?db ?sq now db' ?sq w))) (?k ok) ?Q"
    proof (cases ok)
      case True
      have "hoare (\<lambda>w. \<exists>db'. drop_effect purge name ?db db' \<and> in_tx ?db ?sq now db' ?sq w)
          (commit_or_fail E) ?Q"
        by (rule hoare_ex, rule hoare_conj, rule commit_or_fail_run)
      then show ?thesis unfolding if_not_P [OF not_not [THEN iffD2, OF True]]
        by (rule hoare_pre) (use True in blast)
    next
      case False
      show ?thesis unfolding if_P [OF False]
        by (rule hoare_pre [OF failure_post]) simp
    qed
  qed
  show ?thesis
    using with_tx_post [OF _ body assms(1)[unfolded DropTable_locked_def] assms(2)] by simp
qed

end
