(* ===== verification/Snapshot_Commit.thy ===== *)
theory Snapshot_Commit
  imports Partition_Registry Catalog_Effects
begin

text \<open>
  What \<^verbatim>\<open>CommitSnapshot\<close> does to the database: \<open>commit_effect\<close> gives the committed
  database of a successful commit in terms of the one before, and \<open>commit_tx_post\<close> runs the
  transaction of the code and shows that it has exactly this effect or none.
\<close>

subsection \<open>The effect\<close>

definition new_partition :: "int64 \<Rightarrow> int64 \<Rightarrow> int64 \<Rightarrow> PartitionRow \<Rightarrow> string \<Rightarrow> partition_rec" where
  "new_partition i tid n part stats =
     \<lparr>p_id = i, p_table = tid, p_snapshot = n, p_key = pr_PartitionKey part,
      p_path = pr_DataFilePath part, p_format = pr_FileFormat part, p_rows = pr_RowCount part,
      p_bytes = pr_SizeBytes part, p_stats = stats, p_deleted = False, p_deleted_snapshot = None\<rparr>"

fun new_partitions ::
    "pg_env \<Rightarrow> int64 \<Rightarrow> int64 \<Rightarrow> int64 \<Rightarrow> PartitionRow list \<Rightarrow> partition_rec list option" where
  "new_partitions E tid n i [] = Some []"
| "new_partitions E tid n i (p # ps) =
     (case pe_jsonb E (marshalColumnStats (pr_ColumnStats p)) of
        None \<Rightarrow> None
      | Some stats \<Rightarrow>
          map_option (Cons (new_partition (i + 1) tid n p stats)) (new_partitions E tid n (i + 1) ps))"

definition mark_all :: "int64 \<Rightarrow> string list \<Rightarrow> int64 \<Rightarrow> partition_rec \<Rightarrow> partition_rec" where
  "mark_all tid keys n p =
     (if p_table p = tid \<and> p_key p \<in> set keys \<and> \<not> p_deleted p
      then p\<lparr>p_deleted := True, p_deleted_snapshot := Some n\<rparr> else p)"

definition commit_manifests ::
    "string \<Rightarrow> int64 \<Rightarrow> uint64 \<Rightarrow> int32 \<Rightarrow> PartitionRow list \<Rightarrow> string list \<Rightarrow> ManifestFileRow list" where
  "commit_manifests name tid snap specver parts keys =
     (if parts = [] then [] else [added_manifest name tid snap specver 0 parts]) @
     (if keys = [] then []
      else [deleted_manifest name tid snap specver (if parts = [] then 0 else 1) keys])"

fun stored_manifests :: "pg_env \<Rightarrow> int64 \<Rightarrow> ManifestFileRow list \<Rightarrow> ManifestFileRow list option" where
  "stored_manifests E i [] = Some []"
| "stored_manifests E i (f # fs) =
     (case pe_jsonb E (mf_PartitionSummaries f) of
        None \<Rightarrow> None
      | Some s \<Rightarrow>
          map_option (Cons (f\<lparr>mf_ManifestFileID := i + 1, mf_PartitionSummaries := s\<rparr>))
            (stored_manifests E (i + 1) fs))"

definition commit_effect ::
    "pg_env \<Rightarrow> sequences \<Rightarrow> string \<Rightarrow> int32 \<Rightarrow> uint64 \<Rightarrow> string \<Rightarrow> PartitionRow list \<Rightarrow> string list \<Rightarrow>
     database \<Rightarrow> database \<Rightarrow> bool" where
  "commit_effect E sq name specver parent opn parts keys db db' \<longleftrightarrow>
     (\<exists>t now rows mfs.
        let n = q_snapshot sq + 1; tid = t_id t;
            manifests = commit_manifests name tid (uint64_of_int64 n) specver parts keys in
        live_table name db = Some t \<and> n < 2 ^ 63 \<and>
        new_partitions E tid n (q_partition sq) parts = Some rows \<and>
        stored_manifests E (q_mfile sq) manifests = Some mfs \<and>
        n \<notin> ml_SnapshotID ` set (d_mlists db) \<and>
        db' = (snd (update_live name (\<lambda>t. t\<lparr>t_snapshot := n, t_updated_at := now\<rparr>) db))
          \<lparr>d_snapshots := d_snapshots db @
             [\<lparr>s_id = n, s_table = tid, s_parent = int64_of_uint64 parent, s_committed_at = now,
               s_operation = opn, s_added = int32_of (int (length parts)),
               s_deleted = int32_of (int (length keys))\<rparr>],
           d_partitions := map (mark_all tid keys n) (d_partitions db @ rows),
           d_mfiles := d_mfiles db @ mfs,
           d_mlists := d_mlists db @
             [\<lparr>ml_ManifestListID = q_mlist sq + 1, ml_SnapshotID = n, ml_TableID = tid,
               ml_ManifestCount = int (length manifests)\<rparr>]\<rparr>)"

subsection \<open>The loops\<close>

lemma live_table_more [simp]:
  "live_table name (db\<lparr>d_partitions := x\<rparr>) = live_table name db"
  "live_table name (db\<lparr>d_snapshots := y\<rparr>) = live_table name db"
  "live_table name (db\<lparr>d_mfiles := z\<rparr>) = live_table name db"
  "live_table name (db\<lparr>d_mlists := u\<rparr>) = live_table name db"
  by (simp_all add: live_table_def)

lemma pg_InsertPartitionTx_run:
  assumes "live_table name db = Some t"
  shows "checked (in_tx db0 sq0 now db sq) (pg_InsertPartitionTx E name snap part)
     (\<lambda>e. aborted db0 sq0)
     (\<lambda>_ w. \<exists>stats. pe_jsonb E (marshalColumnStats (pr_ColumnStats part)) = Some stats \<and>
        in_tx db0 sq0 now
          (db\<lparr>d_partitions := d_partitions db @
             [new_partition (q_partition sq + 1) (t_id t) (int64_of_uint64 snap) part stats]\<rparr>)
          (sq\<lparr>q_partition := q_partition sq + 1\<rparr>) w)"
    (is "checked ?P _ ?A ?B")
  unfolding pg_InsertPartitionTx_def
proof (rule checked_on_err [OF select_table_id_tx])
  show "checked (\<lambda>w. aborted db0 sq0 w \<and> (e = NoRows \<longrightarrow> P)) (ret (Inl e)) ?A ?B" for e P
    by (rule checked_ret_Inl) simp
  let ?st = "marshalColumnStats (pr_ColumnStats part)"
  have ins: "checked ?P (tx_exec E [pr_PartitionKey part, pr_DataFilePath part, pr_FileFormat part, ?st]
       (sql_insert_partition E (t_id t) (int64_of_uint64 snap) part ?st)) ?A ?B"
    by (rule checked_weaken [OF checked_tx_exec [OF grows_inserts(4)]])
      (auto simp: sql_insert_partition_def new_partition_def split: option.splits if_splits
        dest!: nextval_Some)
  show "checked (\<lambda>w. map_option t_id (live_table name db) = Some i \<and> ?P w)
     (let statsJSON = ?st in
          tx_exec E [pr_PartitionKey part, pr_DataFilePath part, pr_FileFormat part, statsJSON]
            (sql_insert_partition E i (int64_of_uint64 snap) part statsJSON)) ?A ?B" for i
    unfolding Let_def by (rule checked_conj) (use ins assms in simp)
qed

lemma insert_partitions_run:
  assumes "live_table name db = Some t"
  shows "checked (in_tx db0 sq0 now db sq) (insert_partitions E name snap parts)
     (\<lambda>e. aborted db0 sq0)
     (\<lambda>_ w. \<exists>rows. new_partitions E (t_id t) (int64_of_uint64 snap) (q_partition sq) parts = Some rows \<and>
        in_tx db0 sq0 now (db\<lparr>d_partitions := d_partitions db @ rows\<rparr>)
          (sq\<lparr>q_partition := q_partition sq + int (length parts)\<rparr>) w)"
  using assms
proof (induction parts arbitrary: db sq)
  case Nil
  show ?case by simp (rule checked_ret_Inr, simp)
next
  case (Cons p ps)
  have bad: "checked (aborted db0 sq0) (ret (Inl msg)) (\<lambda>e. aborted db0 sq0) B" for msg :: string and B :: "unit \<Rightarrow> _"
    by (rule checked_ret_Inl)
  show ?case
    unfolding insert_partitions.simps
  proof (rule checked_on_err [OF pg_InsertPartitionTx_run [OF Cons.prems] bad],
      rule checked_ex, rule checked_conj)
    fix stats
    assume st: "pe_jsonb E (marshalColumnStats (pr_ColumnStats p)) = Some stats"
    let ?db = "db\<lparr>d_partitions := d_partitions db @
       [new_partition (q_partition sq + 1) (t_id t) (int64_of_uint64 snap) p stats]\<rparr>"
    have "live_table name ?db = Some t" using Cons.prems by simp
    from Cons.IH [OF this, of "sq\<lparr>q_partition := q_partition sq + 1\<rparr>"]
    show "checked (in_tx db0 sq0 now ?db (sq\<lparr>q_partition := q_partition sq + 1\<rparr>))
        (insert_partitions E name snap ps) (\<lambda>e. aborted db0 sq0)
        (\<lambda>_ w. \<exists>rows. new_partitions E (t_id t) (int64_of_uint64 snap) (q_partition sq) (p # ps) =
            Some rows \<and>
          in_tx db0 sq0 now (db\<lparr>d_partitions := d_partitions db @ rows\<rparr>)
            (sq\<lparr>q_partition := q_partition sq + int (length (p # ps))\<rparr>) w)"
      by (rule checked_weaken) (auto simp: st add.assoc)
  qed
qed

lemma mark_all_Cons: "mark_all tid (k # ks) n p = mark_all tid ks n (mark_deleted tid k n p)"
  by (auto simp: mark_all_def mark_deleted_def)

lemma mark_all_Nil [simp]: "mark_all tid [] n p = p"
  by (simp add: mark_all_def)

lemma pg_MarkPartitionDeletedTx_run:
  assumes "live_table name db = Some t"
  shows "checked (in_tx db0 sq0 now db sq) (pg_MarkPartitionDeletedTx E name key snap)
     (\<lambda>e. aborted db0 sq0)
     (\<lambda>_. in_tx db0 sq0 now
        (db\<lparr>d_partitions := map (mark_deleted (t_id t) key (int64_of_uint64 snap)) (d_partitions db)\<rparr>) sq)"
    (is "checked ?P _ ?A ?B")
  unfolding pg_MarkPartitionDeletedTx_def
proof (rule checked_on_err [OF select_table_id_tx])
  show "checked (\<lambda>w. aborted db0 sq0 w \<and> (e = NoRows \<longrightarrow> P)) (ret (Inl e)) ?A ?B" for e P
    by (rule checked_ret_Inl) simp
  have upd: "checked ?P (tx_exec E [key] (sql_mark_deleted (t_id t) key (int64_of_uint64 snap))) ?A ?B"
    by (rule checked_weaken [OF checked_tx_exec [OF grows_updates(6)]])
      (auto simp: sql_mark_deleted_def update_def)
  show "checked (\<lambda>w. map_option t_id (live_table name db) = Some i \<and> ?P w)
     (tx_exec E [key] (sql_mark_deleted i key (int64_of_uint64 snap))) ?A ?B" for i
    by (rule checked_conj) (use upd assms in simp)
qed

lemma mark_partitions_run:
  assumes "live_table name db = Some t"
  shows "checked (in_tx db0 sq0 now db sq) (mark_partitions E name snap keys) (\<lambda>e. aborted db0 sq0)
     (\<lambda>_. in_tx db0 sq0 now
        (db\<lparr>d_partitions := map (mark_all (t_id t) keys (int64_of_uint64 snap)) (d_partitions db)\<rparr>) sq)"
  using assms
proof (induction keys arbitrary: db)
  case Nil
  show ?case by simp (rule checked_ret_Inr, simp)
next
  case (Cons k ks)
  have bad: "checked (aborted db0 sq0) (ret (Inl msg)) (\<lambda>e. aborted db0 sq0) B" for msg :: string and B :: "unit \<Rightarrow> _"
    by (rule checked_ret_Inl)
  let ?db = "db\<lparr>d_partitions := map (mark_deleted (t_id t) k (int64_of_uint64 snap)) (d_partitions db)\<rparr>"
  have "live_table name ?db = Some t" using Cons.prems by simp
  from Cons.IH [OF this] show ?case
    unfolding mark_partitions.simps
    by (intro checked_on_err [OF pg_MarkPartitionDeletedTx_run [OF Cons.prems] bad])
      (erule checked_weaken, simp_all add: comp_def mark_all_Cons)
qed

subsection \<open>Manifests and pointer\<close>

lemma update_live_more [simp]:
  "snd (update_live name f (db\<lparr>d_partitions := x\<rparr>)) = (snd (update_live name f db))\<lparr>d_partitions := x\<rparr>"
  "snd (update_live name f (db\<lparr>d_snapshots := y\<rparr>)) = (snd (update_live name f db))\<lparr>d_snapshots := y\<rparr>"
  "snd (update_live name f (db\<lparr>d_mfiles := z\<rparr>)) = (snd (update_live name f db))\<lparr>d_mfiles := z\<rparr>"
  "snd (update_live name f (db\<lparr>d_mlists := u\<rparr>)) = (snd (update_live name f db))\<lparr>d_mlists := u\<rparr>"
  by (simp_all add: update_live_def)

lemma write_manifest_run:
  "checked (in_tx db0 sq0 now db sq) (write_manifest E nonempty msg mf n) (\<lambda>e. aborted db0 sq0)
     (\<lambda>n' w. n' = (if nonempty then Suc n else n) \<and>
        (\<exists>fs. stored_manifests E (q_mfile sq) (if nonempty then [mf n] else []) = Some fs \<and>
          in_tx db0 sq0 now (db\<lparr>d_mfiles := d_mfiles db @ fs\<rparr>)
            (sq\<lparr>q_mfile := q_mfile sq + (if nonempty then 1 else 0)\<rparr>) w))"
    (is "checked ?P _ ?A ?B")
proof (cases nonempty)
  case False
  then show ?thesis unfolding write_manifest_def by simp (rule checked_ret_Inr, simp)
next
  case True
  have ins: "checked ?P (pg_InsertManifestFileTx E (mf n)) (\<lambda>e. aborted db0 sq0)
     (\<lambda>_ w. \<exists>fs. stored_manifests E (q_mfile sq) [mf n] = Some fs \<and>
        in_tx db0 sq0 now (db\<lparr>d_mfiles := d_mfiles db @ fs\<rparr>) (sq\<lparr>q_mfile := q_mfile sq + 1\<rparr>) w)"
    unfolding pg_InsertManifestFileTx_def
    by (rule checked_weaken [OF checked_tx_exec [OF grows_inserts(6)]])
      (auto simp: sql_insert_manifest_file_def split: option.splits if_splits dest!: nextval_Some)
  have bad: "checked (aborted db0 sq0) (ret (Inl m)) (\<lambda>e. aborted db0 sq0) B"
    for m :: string and B :: "nat \<Rightarrow> pg \<Rightarrow> bool" by (rule checked_ret_Inl)
  show ?thesis
    unfolding write_manifest_def if_P [OF True]
    by (rule checked_on_err [OF ins bad], rule checked_ret_Inr) simp
qed

lemma pg_InsertManifestListTx_run:
  "checked (in_tx db0 sq0 now db sq) (pg_InsertManifestListTx E snap tid cnt) (\<lambda>e. aborted db0 sq0)
     (\<lambda>_ w. snap \<notin> ml_SnapshotID ` set (d_mlists db) \<and>
        in_tx db0 sq0 now
          (db\<lparr>d_mlists := d_mlists db @ [\<lparr>ml_ManifestListID = q_mlist sq + 1, ml_SnapshotID = snap,
               ml_TableID = tid, ml_ManifestCount = cnt\<rparr>]\<rparr>)
          (sq\<lparr>q_mlist := q_mlist sq + 1\<rparr>) w)"
  unfolding pg_InsertManifestListTx_def
  by (rule checked_weaken [OF checked_tx_exec [OF grows_inserts(7)]])
    (auto simp: sql_insert_manifest_list_def split: option.splits if_splits dest!: nextval_Some)

lemma pg_UpdateTableSnapshotTx_run:
  "checked (in_tx db0 sq0 now db sq) (pg_UpdateTableSnapshotTx E name snap) (\<lambda>e. aborted db0 sq0)
     (\<lambda>_. in_tx db0 sq0 now (snd (update_live name
        (\<lambda>t. t\<lparr>t_snapshot := int64_of_uint64 snap, t_updated_at := now\<rparr>) db)) sq)"
  unfolding pg_UpdateTableSnapshotTx_def
  by (rule checked_on_err [OF checked_tx_exec [OF grows_updates(3)]];
      rule checked_ret_Inl checked_ret_Inr)
    (auto simp: sql_update_snapshot_pointer_def update_def)

lemma stored_manifests_append:
  "stored_manifests E i (fs @ gs) =
   (case stored_manifests E i fs of
      None \<Rightarrow> None
    | Some as \<Rightarrow> map_option ((@) as) (stored_manifests E (i + int (length fs)) gs))"
proof (induction E i fs rule: stored_manifests.induct)
  case (1 E i)
  then show ?case by (cases "stored_manifests E i gs") simp_all
next
  case (2 E i f fs)
  then show ?case
    by (cases "stored_manifests E (i + (1 + int (length fs))) gs")
      (auto simp: add.assoc split: option.splits)
qed

lemma pg_InsertSnapshotTx_run:
  assumes "0 \<le> q_snapshot sq"
  shows "checked (in_tx db0 sq0 now db sq) (pg_InsertSnapshotTx E name parent opn a d)
     (\<lambda>e. aborted db0 sq0)
     (\<lambda>x w. (fst x = 0 \<and> aborted db0 sq0 w) \<or>
        (\<exists>t. live_table name db = Some t \<and> q_snapshot sq + 1 < 2 ^ 63 \<and>
           fst x = uint64_of_int64 (q_snapshot sq + 1) \<and> snd x = t_id t \<and>
           in_tx db0 sq0 now
             (db\<lparr>d_snapshots := d_snapshots db @ [\<lparr>s_id = q_snapshot sq + 1, s_table = t_id t,
                s_parent = int64_of_uint64 parent, s_committed_at = now, s_operation = opn,
                s_added = a, s_deleted = d\<rparr>]\<rparr>)
             (sq\<lparr>q_snapshot := q_snapshot sq + 1\<rparr>) w))"
    (is "checked ?P _ ?A ?B")
  unfolding pg_InsertSnapshotTx_def
proof (rule checked_on_err [OF select_table_id_tx])
  show "checked (\<lambda>w. aborted db0 sq0 w \<and> (e = NoRows \<longrightarrow> P)) (on_no_rows (0, 0) e) ?A ?B" for e P
    by (rule checkedI) (auto simp: on_no_rows_def ret_def split: if_splits)
  have ins: "checked ?P (tx_exec E [opn] (sql_insert_snapshot (t_id t) (int64_of_uint64 parent) opn a d)) ?A
      (\<lambda>i w. i = q_snapshot sq + 1 \<and> q_snapshot sq + 1 < 2 ^ 63 \<and> in_tx db0 sq0 now
         (db\<lparr>d_snapshots := d_snapshots db @ [\<lparr>s_id = q_snapshot sq + 1, s_table = t_id t,
                s_parent = int64_of_uint64 parent, s_committed_at = now, s_operation = opn,
                s_added = a, s_deleted = d\<rparr>]\<rparr>)
         (sq\<lparr>q_snapshot := q_snapshot sq + 1\<rparr>) w)" for t
    by (rule checked_weaken [OF checked_tx_exec [OF grows_inserts(3)]])
      (auto simp: sql_insert_snapshot_def split: option.splits if_splits dest!: nextval_Some)
  have bad: "checked (aborted db0 sq0) (ret (Inl e)) ?A ?B" for e by (rule checked_ret_Inl)
  show "checked (\<lambda>w. map_option t_id (live_table name db) = Some i \<and> ?P w)
     (on_err (tx_exec E [opn] (sql_insert_snapshot i (int64_of_uint64 parent) opn a d))
        (\<lambda>e. ret (Inl e))
        (\<lambda>rawID. ret (Inr (if rawID < 0 then 0 else uint64_of_int64 rawID, i)))) ?A ?B" for i
  proof (rule checked_conj)
    assume "map_option t_id (live_table name db) = Some i"
    then obtain t where t: "live_table name db = Some t" "t_id t = i" by auto
    show "checked ?P (on_err (tx_exec E [opn] (sql_insert_snapshot i (int64_of_uint64 parent) opn a d))
        (\<lambda>e. ret (Inl e))
        (\<lambda>rawID. ret (Inr (if rawID < 0 then 0 else uint64_of_int64 rawID, i)))) ?A ?B"
      unfolding t(2) [symmetric]
      by (rule checked_on_err [OF ins bad], rule checked_conj, rule checked_ret_Inr)
        (use assms t in auto)
  qed
qed

subsection \<open>The transaction\<close>

lemma commit_failed_post:
  "hoare (aborted db0 sq0) (ret (commit_failed msg)) (tx_post cr_Success lost db0 sq0 eff)"
  by (rule aborted_post) (simp add: commit_failed_def)

text \<open>The state after the two loops.\<close>

abbreviation rows_db :: "int64 \<Rightarrow> string list \<Rightarrow> int64 \<Rightarrow> partition_rec list \<Rightarrow> database \<Rightarrow> database" where
  "rows_db tid keys n rows db \<equiv>
     db\<lparr>d_partitions := map (mark_all tid keys n) (d_partitions db @ rows)\<rparr>"

lemma commit_manifest_run:
  assumes live: "live_table name db = Some t"
    and eff: "\<And>mfs r. stored_manifests E (q_mfile sq)
          (commit_manifests name tid snap specver parts keys) = Some mfs \<Longrightarrow>
        int64_of_uint64 snap \<notin> ml_SnapshotID ` set (d_mlists db) \<Longrightarrow>
        (cr_Success r \<longrightarrow> cr_SnapshotID r = snap) \<Longrightarrow>
        eff r ((snd (update_live name
            (\<lambda>t. t\<lparr>t_snapshot := int64_of_uint64 snap, t_updated_at := now\<rparr>) db))
          \<lparr>d_mfiles := d_mfiles db @ mfs,
           d_mlists := d_mlists db @
             [\<lparr>ml_ManifestListID = q_mlist sq + 1, ml_SnapshotID = int64_of_uint64 snap,
               ml_TableID = tid,
               ml_ManifestCount = int (length (commit_manifests name tid snap specver parts keys))\<rparr>]\<rparr>)"
  shows "hoare (in_tx db0 sq0 now db sq)
    (on_err (write_manifest E (parts \<noteq> []) ''failed to insert added manifest: ''
               (\<lambda>n. added_manifest name tid snap specver n parts) 0)
       (\<lambda>msg. ret (commit_failed msg)) (\<lambda>n.
     on_err (write_manifest E (keys \<noteq> []) ''failed to insert deleted manifest: ''
               (\<lambda>n. deleted_manifest name tid snap specver n keys) n)
       (\<lambda>msg. ret (commit_failed msg)) (\<lambda>manifestCount.
     on_err (pg_InsertManifestListTx E (int64_of_uint64 snap) tid (int32_of (int manifestCount)))
       (\<lambda>e. ret (commit_failed (''failed to insert manifest list: '' @ pe_error E e))) (\<lambda>_.
     on_err (pg_UpdateTableSnapshotTx E name snap)
       (\<lambda>e. ret (commit_failed ''failed to update table snapshot pointer'')) (\<lambda>_.
     on_err (tx_Commit E) (\<lambda>e. ret (commit_failed (pe_error E e))) (\<lambda>_.
     ret \<lparr>cr_Success = True, cr_SnapshotID = snap, cr_ErrorMsg = []\<rparr>))))))
    (tx_post cr_Success (acks_lost E) db0 sq0 eff)"
proof (rule hoare_on_err [OF write_manifest_run commit_failed_post], rule hoare_conj, rule hoare_ex,
    rule hoare_conj)
  fix n fs
  assume n: "n = (if parts \<noteq> [] then Suc 0 else 0)" and fs: "stored_manifests E (q_mfile sq)
      (if parts \<noteq> [] then [added_manifest name tid snap specver 0 parts] else []) = Some fs"
  let ?c = "if parts \<noteq> [] then 1 else 0"
  have all: "stored_manifests E (q_mfile sq) (commit_manifests name tid snap specver parts keys) =
      Some (fs @ gs)"
    if "stored_manifests E (q_mfile sq + ?c) (if keys \<noteq> [] then
        [deleted_manifest name tid snap specver n keys] else []) = Some gs" for gs
    using fs that n by (simp add: commit_manifests_def stored_manifests_append split: if_splits)
  have len: "int32_of (int n') = int (length (commit_manifests name tid snap specver parts keys))"
    if "n' = (if keys \<noteq> [] then Suc n else n)" for n'
    using that n by (auto simp: commit_manifests_def in_int32_def)
  show "hoare (in_tx db0 sq0 now (db\<lparr>d_mfiles := d_mfiles db @ fs\<rparr>) (sq\<lparr>q_mfile := q_mfile sq + ?c\<rparr>))
    (on_err (write_manifest E (keys \<noteq> []) ''failed to insert deleted manifest: ''
               (\<lambda>n. deleted_manifest name tid snap specver n keys) n)
       (\<lambda>msg. ret (commit_failed msg)) (\<lambda>manifestCount.
     on_err (pg_InsertManifestListTx E (int64_of_uint64 snap) tid (int32_of (int manifestCount)))
       (\<lambda>e. ret (commit_failed (''failed to insert manifest list: '' @ pe_error E e))) (\<lambda>_.
     on_err (pg_UpdateTableSnapshotTx E name snap)
       (\<lambda>e. ret (commit_failed ''failed to update table snapshot pointer'')) (\<lambda>_.
     on_err (tx_Commit E) (\<lambda>e. ret (commit_failed (pe_error E e))) (\<lambda>_.
     ret \<lparr>cr_Success = True, cr_SnapshotID = snap, cr_ErrorMsg = []\<rparr>)))))
    (tx_post cr_Success (acks_lost E) db0 sq0 eff)"
  proof (rule hoare_on_err [OF write_manifest_run commit_failed_post], rule hoare_conj, rule hoare_ex,
      rule hoare_conj, rule hoare_on_err [OF pg_InsertManifestListTx_run commit_failed_post],
      rule hoare_conj, rule hoare_on_err [OF pg_UpdateTableSnapshotTx_run commit_failed_post])
    fix n' gs
    assume n': "n' = (if keys \<noteq> [] then Suc n else n)"
      and gs: "stored_manifests E (q_mfile (sq\<lparr>q_mfile := q_mfile sq + ?c\<rparr>))
        (if keys \<noteq> [] then [deleted_manifest name tid snap specver n keys] else []) = Some gs"
      and fresh: "int64_of_uint64 snap \<notin> ml_SnapshotID ` set (d_mlists
        (db\<lparr>d_mfiles := d_mfiles db @ fs, d_mfiles := d_mfiles (db\<lparr>d_mfiles := d_mfiles db @ fs\<rparr>) @ gs\<rparr>))"
    let ?db = "(snd (update_live name
          (\<lambda>t. t\<lparr>t_snapshot := int64_of_uint64 snap, t_updated_at := now\<rparr>) db))
        \<lparr>d_mfiles := d_mfiles db @ fs @ gs, d_mlists := d_mlists db @
           [\<lparr>ml_ManifestListID = q_mlist sq + 1, ml_SnapshotID = int64_of_uint64 snap,
             ml_TableID = tid, ml_ManifestCount = int32_of (int n')\<rparr>]\<rparr>"
    have "stored_manifests E (q_mfile sq) (commit_manifests name tid snap specver parts keys) =
        Some (fs @ gs)" using gs by (intro all) simp
    moreover have "int64_of_uint64 snap \<notin> ml_SnapshotID ` set (d_mlists db)" using fresh by simp
    ultimately have "eff r ?db" if "cr_Success r \<longrightarrow> cr_SnapshotID r = snap" for r
      unfolding len [OF n'] using eff that by blast
    then show "hoare (in_tx db0 sq0 now (snd (update_live name
          (\<lambda>t. t\<lparr>t_snapshot := int64_of_uint64 snap, t_updated_at := now\<rparr>)
          (db\<lparr>d_mfiles := d_mfiles db @ fs,
              d_mfiles := d_mfiles (db\<lparr>d_mfiles := d_mfiles db @ fs\<rparr>) @ gs,
              d_mlists := d_mlists (db\<lparr>d_mfiles := d_mfiles db @ fs,
                d_mfiles := d_mfiles (db\<lparr>d_mfiles := d_mfiles db @ fs\<rparr>) @ gs\<rparr>) @
              [\<lparr>ml_ManifestListID = q_mlist (sq\<lparr>q_mfile := q_mfile sq + ?c,
                  q_mfile := q_mfile (sq\<lparr>q_mfile := q_mfile sq + ?c\<rparr>) + (if keys \<noteq> [] then 1 else 0)\<rparr>) + 1,
                ml_SnapshotID = int64_of_uint64 snap, ml_TableID = tid,
                ml_ManifestCount = int32_of (int n')\<rparr>]\<rparr>))) sq')
      (on_err (tx_Commit E) (\<lambda>e. ret (commit_failed (pe_error E e)))
         (\<lambda>_. ret \<lparr>cr_Success = True, cr_SnapshotID = snap, cr_ErrorMsg = []\<rparr>))
      (tx_post cr_Success (acks_lost E) db0 sq0 eff)" for sq'
      by (intro commit_post) (simp_all add: commit_failed_def)
  qed
qed

lemma commit_rows_run:
  assumes live: "live_table name db = Some t" and n: "n = q_snapshot sq + 1" "0 < n" "n < 2 ^ 63"
  shows "hoare (in_tx db sq now
      (db\<lparr>d_snapshots := d_snapshots db @ [\<lparr>s_id = n, s_table = t_id t,
         s_parent = int64_of_uint64 parent, s_committed_at = now, s_operation = opn,
         s_added = int32_of (int (length parts)), s_deleted = int32_of (int (length keys))\<rparr>]\<rparr>)
      (sq\<lparr>q_snapshot := n\<rparr>))
    (commit_rows E name specver parts keys (uint64_of_int64 n) (t_id t))
    (tx_post cr_Success (acks_lost E) db sq (\<lambda>r db'.
       (cr_Success r \<longrightarrow> cr_SnapshotID r = uint64_of_int64 n) \<and>
       commit_effect E sq name specver parent opn parts keys db db'))"
    (is "hoare (in_tx db sq now ?db1 _) _ (tx_post _ _ _ _ ?eff)")
proof -
  let ?snap = "uint64_of_int64 n"
  have snap: "int64_of_uint64 ?snap = n" using n by (simp add: in_int64_def)
  have live1: "live_table name ?db1 = Some t" using live by simp
  show ?thesis
    unfolding commit_rows_def
  proof (rule hoare_on_err [OF insert_partitions_run [OF live1] commit_failed_post], rule hoare_ex,
      rule hoare_conj)
    fix rows
    assume rows: "new_partitions E (t_id t) (int64_of_uint64 ?snap)
        (q_partition (sq\<lparr>q_snapshot := n\<rparr>)) parts = Some rows"
    let ?db2 = "?db1\<lparr>d_partitions := d_partitions ?db1 @ rows\<rparr>"
    have live2: "live_table name ?db2 = Some t" using live by simp
    show "hoare (in_tx db sq now ?db2 (sq\<lparr>q_snapshot := n,
          q_partition := q_partition (sq\<lparr>q_snapshot := n\<rparr>) + int (length parts)\<rparr>))
      (on_err (mark_partitions E name ?snap keys) (\<lambda>msg. ret (commit_failed msg)) (\<lambda>_.
       on_err (write_manifest E (parts \<noteq> []) ''failed to insert added manifest: ''
               (\<lambda>n. added_manifest name (t_id t) ?snap specver n parts) 0)
       (\<lambda>msg. ret (commit_failed msg)) (\<lambda>n.
     on_err (write_manifest E (keys \<noteq> []) ''failed to insert deleted manifest: ''
               (\<lambda>n. deleted_manifest name (t_id t) ?snap specver n keys) n)
       (\<lambda>msg. ret (commit_failed msg)) (\<lambda>manifestCount.
     on_err (pg_InsertManifestListTx E (int64_of_uint64 ?snap) (t_id t) (int32_of (int manifestCount)))
       (\<lambda>e. ret (commit_failed (''failed to insert manifest list: '' @ pe_error E e))) (\<lambda>_.
     on_err (pg_UpdateTableSnapshotTx E name ?snap)
       (\<lambda>e. ret (commit_failed ''failed to update table snapshot pointer'')) (\<lambda>_.
     on_err (tx_Commit E) (\<lambda>e. ret (commit_failed (pe_error E e))) (\<lambda>_.
     ret \<lparr>cr_Success = True, cr_SnapshotID = ?snap, cr_ErrorMsg = []\<rparr>)))))))
      (tx_post cr_Success (acks_lost E) db sq ?eff)"
    proof (rule hoare_on_err [OF mark_partitions_run [OF live2] commit_failed_post],
        rule commit_manifest_run [where t = t])
      show "live_table name (?db2\<lparr>d_partitions :=
          map (mark_all (t_id t) keys (int64_of_uint64 ?snap)) (d_partitions ?db2)\<rparr>) = Some t"
        using live by simp
    next
      fix mfs and r :: CommitResult
      let ?ms = "commit_manifests name (t_id t) ?snap specver parts keys"
      let ?fin = "\<lambda>db'. (snd (update_live name
            (\<lambda>t. t\<lparr>t_snapshot := n, t_updated_at := now\<rparr>) db'))
          \<lparr>d_mfiles := d_mfiles db' @ mfs, d_mlists := d_mlists db' @
             [\<lparr>ml_ManifestListID = q_mlist sq + 1, ml_SnapshotID = n, ml_TableID = t_id t,
               ml_ManifestCount = int (length ?ms)\<rparr>]\<rparr>"
      assume "stored_manifests E (q_mfile (sq\<lparr>q_snapshot := n,
          q_partition := q_partition (sq\<lparr>q_snapshot := n\<rparr>) + int (length parts)\<rparr>)) ?ms = Some mfs"
        and "int64_of_uint64 ?snap \<notin> ml_SnapshotID ` set (d_mlists (?db2\<lparr>d_partitions :=
          map (mark_all (t_id t) keys (int64_of_uint64 ?snap)) (d_partitions ?db2)\<rparr>))"
        and ok: "cr_Success r \<longrightarrow> cr_SnapshotID r = ?snap"
      then have "commit_effect E sq name specver parent opn parts keys db
          (?fin (?db2\<lparr>d_partitions := map (mark_all (t_id t) keys n) (d_partitions ?db2)\<rparr>))"
        unfolding commit_effect_def Let_def n(1) [symmetric]
        by (intro exI [of _ t] exI [of _ now] exI [of _ rows] exI [of _ mfs])
          (use live rows n snap [unfolded n(1)] in simp)
      with ok show "?eff r ((snd (update_live name
            (\<lambda>t. t\<lparr>t_snapshot := int64_of_uint64 ?snap, t_updated_at := now\<rparr>)
            (?db2\<lparr>d_partitions := map (mark_all (t_id t) keys (int64_of_uint64 ?snap)) (d_partitions ?db2)\<rparr>)))
          \<lparr>d_mfiles := d_mfiles (?db2\<lparr>d_partitions :=
               map (mark_all (t_id t) keys (int64_of_uint64 ?snap)) (d_partitions ?db2)\<rparr>) @ mfs,
           d_mlists := d_mlists (?db2\<lparr>d_partitions :=
               map (mark_all (t_id t) keys (int64_of_uint64 ?snap)) (d_partitions ?db2)\<rparr>) @
             [\<lparr>ml_ManifestListID = q_mlist (sq\<lparr>q_snapshot := n,
                 q_partition := q_partition (sq\<lparr>q_snapshot := n\<rparr>) + int (length parts)\<rparr>) + 1,
               ml_SnapshotID = int64_of_uint64 ?snap, ml_TableID = t_id t,
               ml_ManifestCount = int (length ?ms)\<rparr>]\<rparr>)"
        by (simp add: snap)
    qed
  qed
qed

lemma commit_tx_post:
  assumes "commit_tx E name specver parent opn parts keys w = (r, w')" "pg_tx w = None"
    and sq: "0 \<le> q_snapshot (pg_seq w)"
  shows "tx_post cr_Success (acks_lost E) (pg_db w) (pg_seq w) (\<lambda>r db'.
      (cr_Success r \<longrightarrow> cr_SnapshotID r = uint64_of_int64 (q_snapshot (pg_seq w) + 1)) \<and>
      commit_effect E (pg_seq w) name specver parent opn parts keys (pg_db w) db') r w' \<and>
    pg_tx w' = None"
proof -
  let ?db = "pg_db w" and ?sq = "pg_seq w"
  let ?n = "q_snapshot ?sq + 1"
  let ?Q = "tx_post cr_Success (acks_lost E) ?db ?sq (\<lambda>r db'.
      (cr_Success r \<longrightarrow> cr_SnapshotID r = uint64_of_int64 ?n) \<and>
      commit_effect E ?sq name specver parent opn parts keys ?db db')"
  have body: "hoare (in_tx ?db ?sq now ?db ?sq)
     (on_err (pg_InsertSnapshotTx E name parent opn (int32_of (int (length parts)))
         (int32_of (int (length keys))))
        (\<lambda>e. ret (commit_failed (pe_error E e)))
        (\<lambda>(newSnap, tableID).
           if newSnap = 0 then ret (commit_failed ''failed to insert snapshot record'')
           else commit_rows E name specver parts keys newSnap tableID)) ?Q" for now
  proof (rule hoare_on_err [OF pg_InsertSnapshotTx_run [OF sq] commit_failed_post], rule hoareI)
    fix x :: "uint64 \<times> int64" and v r1 v'
    assume pre: "(fst x = 0 \<and> aborted ?db ?sq v) \<or>
        (\<exists>t. live_table name ?db = Some t \<and> ?n < 2 ^ 63 \<and> fst x = uint64_of_int64 ?n \<and> snd x = t_id t \<and>
           in_tx ?db ?sq now
             (?db\<lparr>d_snapshots := d_snapshots ?db @ [\<lparr>s_id = ?n, s_table = t_id t,
                s_parent = int64_of_uint64 parent, s_committed_at = now, s_operation = opn,
                s_added = int32_of (int (length parts)), s_deleted = int32_of (int (length keys))\<rparr>]\<rparr>)
             (?sq\<lparr>q_snapshot := ?n\<rparr>) v)"
      and m: "(case x of (newSnap, tableID) \<Rightarrow>
           if newSnap = 0 then ret (commit_failed ''failed to insert snapshot record'')
           else commit_rows E name specver parts keys newSnap tableID) v = (r1, v')"
    obtain newSnap tableID where x: "x = (newSnap, tableID)" by (cases x)
    show "?Q r1 v'"
    proof (cases "newSnap = 0")
      case True
      have no: "uint64_of_int64 ?n \<noteq> 0" if "?n < 2 ^ 63"
        using that sq by (subst uint64_of_int64_eq_0) (auto simp: in_int64_def)
      with pre x True have "aborted ?db ?sq v" by auto
      with m x True show ?thesis 
        by (auto simp: ret_def tx_post_def aborted_def commit_failed_def intro: ids_below_mono)
    next
      case False
      with pre x obtain t where t: "live_table name ?db = Some t" "?n < 2 ^ 63"
        "newSnap = uint64_of_int64 ?n" "tableID = t_id t"
        and v: "in_tx ?db ?sq now
             (?db\<lparr>d_snapshots := d_snapshots ?db @ [\<lparr>s_id = ?n, s_table = t_id t,
                s_parent = int64_of_uint64 parent, s_committed_at = now, s_operation = opn,
                s_added = int32_of (int (length parts)), s_deleted = int32_of (int (length keys))\<rparr>]\<rparr>)
             (?sq\<lparr>q_snapshot := ?n\<rparr>) v" by auto
      from sq have "0 < ?n" by simp
      from hoareD [OF commit_rows_run [OF t(1) refl this t(2)] v] m False x t show ?thesis by simp
    qed
  qed
  have "\<And>e. \<not> cr_Success (commit_failed (pe_error E e))" by (simp add: commit_failed_def)
  from with_tx_post [OF this body assms(1)[unfolded commit_tx_def] assms(2)] show ?thesis by blast
qed

text \<open>
  The whole operation on the shared state. It leaves the transaction table alone, commits only on top
  of the current snapshot, and drops the cache entries of the table when it reports success.
\<close>

lemma on_pg_simps [simp]:
  "on_pg m c = (r, c') \<longleftrightarrow> (\<exists>w. m (c_pg c) = (r, w) \<and> c' = c\<lparr>c_pg := w\<rparr>)"
  by (auto simp: on_pg_def split: prod.split)

lemma CommitSnapshot_post:
  assumes run: "CommitSnapshot_locked E name parent opn parts keys c = (r, c')"
    and c: "pg_tx (c_pg c) = None" "0 \<le> q_snapshot (pg_seq (c_pg c))"
  shows "c_mvcc c' = c_mvcc c \<and> pg_tx (c_pg c') = None \<and>
    seq_le (pg_seq (c_pg c)) (pg_seq (c_pg c')) \<and>
    (ids_below (pg_db (c_pg c)) (pg_seq (c_pg c)) \<longrightarrow> ids_below (pg_db (c_pg c')) (pg_seq (c_pg c'))) \<and>
    c_cache c' = (if cr_Success r then c_cache (snd (InvalidateTableCache name c)) else c_cache c) \<and>
    (\<not> cr_Success r \<and> pg_db (c_pg c') = pg_db (c_pg c) \<or>
     (\<exists>specver. commit_effect E (pg_seq (c_pg c)) name specver parent opn parts keys
        (pg_db (c_pg c)) (pg_db (c_pg c'))) \<and>
     parent = current_of name (pg_db (c_pg c)) \<and>
     (cr_Success r \<longrightarrow> cr_SnapshotID r = uint64_of_int64 (q_snapshot (pg_seq (c_pg c)) + 1)) \<and>
     (cr_Success r \<or> acks_lost E))"
  using run unfolding CommitSnapshot_locked_def
proof (cases rule: on_err_cases)
  case (err e c1)
  then show ?thesis using pg_GetTableSpecVersion_same c
    by (auto simp: ret_def commit_failed_def same_db_def)
next
  case (ok specver c1)
  obtain w1 where w1: "pg_GetTableSpecVersion E name (c_pg c) = (Inr specver, w1)"
    "c1 = c\<lparr>c_pg := w1\<rparr>" using ok(1) by auto
  note s1 = pg_GetTableSpecVersion_same [OF w1(1)]
  from ok(2) show ?thesis
  proof (cases rule: on_err_cases)
    case (err e c2)
    then show ?thesis using pg_GetCurrentSnapshot_spec s1 c w1(2)
      by (fastforce simp: ret_def commit_failed_def same_db_def)
  next
    case (ok current c2)
    obtain w2 where w2: "pg_GetCurrentSnapshot E name w1 = (Inr current, w2)" "c2 = c\<lparr>c_pg := w2\<rparr>"
      using ok(1) w1(2) by auto
    from pg_GetCurrentSnapshot_spec [OF w2(1)] s1 have same: "same_db (c_pg c) w2"
      and cur: "current = current_of name (pg_db (c_pg c))" by (auto simp: same_db_def)
    show ?thesis
    proof (cases "parent = current")
      case False
      with ok(2) w2(2) same c show ?thesis
        by (auto simp: ValidateParentSnapshot_def ret_def commit_failed_def same_db_def)
    next
      case True
      obtain r3 w3 where w3: "commit_tx E name specver parent opn parts keys w2 = (r3, w3)"
        by (cases "commit_tx E name specver parent opn parts keys w2")
      have "pg_tx w2 = None" "0 \<le> q_snapshot (pg_seq w2)" using same c by (simp_all add: same_db_def)
      note post = commit_tx_post [OF w3 this]
      have eq: "on_pg (commit_tx E name specver parent opn parts keys) c2 = (r3, c\<lparr>c_pg := w3\<rparr>)"
        using w2(2) w3 by simp
      from ok(2) True have r: "r = r3"
        "c' = (if cr_Success r3 then snd (InvalidateTableCache name (c\<lparr>c_pg := w3\<rparr>)) else c\<lparr>c_pg := w3\<rparr>)"
        by (auto simp: ValidateParentSnapshot_def eq [unfolded True] simp del: on_pg_simps)
      have inv: "snd (InvalidateTableCache name (c\<lparr>c_pg := w3\<rparr>)) =
          (snd (InvalidateTableCache name c))\<lparr>c_pg := w3\<rparr>"
        "c_mvcc (snd (InvalidateTableCache name c)) = c_mvcc c"
        by (simp_all add: InvalidateTableCache_def Let_def split: prod.split)
      from post same cur True show ?thesis
        unfolding r by (auto simp: tx_post_def same_db_def inv)
    qed
  qed
qed

end
