(* ===== verification/Db_Invariant.thy ===== *)
theory Db_Invariant
  imports Snapshot_Commit
begin

text \<open>
  The invariant of the committed database. \<open>store_inv\<close> speaks of the snapshot pointers of the
  tables (their \<open>heads\<close>) and the rows of snapshots, partitions and manifests: ids grow, the snapshots
  of a table form one chain that ends at its pointer, every partition belongs to a snapshot of its
  table and is deleted by a later one, and every snapshot has one manifest list with the right count.
  \<open>db_inv\<close> adds that table names are unique. Each effect of an operation preserves it.
\<close>

subsection \<open>Definitions\<close>

definition ids_upto :: "('a \<Rightarrow> int) \<Rightarrow> int \<Rightarrow> 'a list \<Rightarrow> bool" where
  "ids_upto f n xs \<longleftrightarrow> sorted_wrt (<) (map f xs) \<and> (\<forall>x \<in> set xs. 0 < f x \<and> f x \<le> n)"

type_synonym heads = "(int64 \<times> int64) list"

definition heads :: "database \<Rightarrow> heads" where
  "heads db = map (\<lambda>t. (t_id t, t_snapshot t)) (d_tables db)"

definition snapshots_of :: "int64 \<Rightarrow> snapshot_rec list \<Rightarrow> snapshot_rec list" where
  "snapshots_of tid ss = filter (\<lambda>s. s_table s = tid) ss"

text \<open>The snapshots of a table are a chain from 0 to its pointer.\<close>

definition chain_ok :: "int64 \<Rightarrow> snapshot_rec list \<Rightarrow> bool" where
  "chain_ok cur xs \<longleftrightarrow> map s_parent xs = butlast (0 # map s_id xs) \<and> cur = last (0 # map s_id xs)"

definition is_snapshot :: "int64 \<Rightarrow> int64 \<Rightarrow> snapshot_rec list \<Rightarrow> bool" where
  "is_snapshot tid n ss \<longleftrightarrow> (\<exists>s \<in> set ss. s_id s = n \<and> s_table s = tid)"

definition partition_ok :: "heads \<Rightarrow> snapshot_rec list \<Rightarrow> partition_rec \<Rightarrow> bool" where
  "partition_ok hs ss p \<longleftrightarrow>
     p_table p \<in> fst ` set hs \<and> is_snapshot (p_table p) (p_snapshot p) ss \<and>
     (p_deleted p \<longleftrightarrow> p_deleted_snapshot p \<noteq> None) \<and>
     (\<forall>d. p_deleted_snapshot p = Some d \<longrightarrow> p_snapshot p \<le> d \<and> is_snapshot (p_table p) d ss)"

definition manifests_ok :: "snapshot_rec list \<Rightarrow> ManifestFileRow list \<Rightarrow> ManifestListRow list \<Rightarrow> bool" where
  "manifests_ok ss ms ls \<longleftrightarrow>
     map (\<lambda>l. (ml_TableID l, ml_SnapshotID l)) ls = map (\<lambda>s. (s_table s, s_id s)) ss \<and>
     (\<forall>f \<in> set ms. is_snapshot (mf_TableID f) (mf_SnapshotID f) ss) \<and>
     (\<forall>l \<in> set ls. ml_ManifestCount l =
        int (length (filter (\<lambda>f. mf_SnapshotID f = ml_SnapshotID l) ms)))"

definition store_inv ::
    "heads \<Rightarrow> partition_rec list \<Rightarrow> snapshot_rec list \<Rightarrow> ManifestFileRow list \<Rightarrow> ManifestListRow list \<Rightarrow>
     sequences \<Rightarrow> bool" where
  "store_inv hs ps ss ms ls sq \<longleftrightarrow>
     0 \<le> q_table sq \<and> 0 \<le> q_partition sq \<and> 0 \<le> q_snapshot sq \<and>
     q_table sq < 2 ^ 63 \<and> q_partition sq < 2 ^ 63 \<and> q_snapshot sq < 2 ^ 63 \<and>
     ids_upto fst (q_table sq) hs \<and> ids_upto p_id (q_partition sq) ps \<and>
     ids_upto s_id (q_snapshot sq) ss \<and>
     (\<forall>h \<in> set hs. chain_ok (snd h) (snapshots_of (fst h) ss)) \<and>
     (\<forall>s \<in> set ss. s_table s \<in> fst ` set hs) \<and>
     (\<forall>p \<in> set ps. partition_ok hs ss p) \<and> manifests_ok ss ms ls"

definition db_inv :: "database \<Rightarrow> sequences \<Rightarrow> bool" where
  "db_inv db sq \<longleftrightarrow>
     distinct (map t_name (d_tables db)) \<and>
     store_inv (heads db) (d_partitions db) (d_snapshots db) (d_mfiles db) (d_mlists db) sq"

subsection \<open>Identifiers\<close>

lemma ids_upto_mono: "ids_upto f n xs \<Longrightarrow> n \<le> m \<Longrightarrow> ids_upto f m xs"
  by (force simp: ids_upto_def)

lemma ids_upto_append:
  "ids_upto f n xs \<Longrightarrow> ids_upto f m ys \<Longrightarrow> n \<le> m \<Longrightarrow> \<forall>y \<in> set ys. n < f y \<Longrightarrow> ids_upto f m (xs @ ys)"
  by (force simp: ids_upto_def sorted_wrt_append)

lemma ids_upto_filter: "ids_upto f n xs \<Longrightarrow> ids_upto f n (filter P xs)"
  by (auto simp: ids_upto_def sorted_wrt_map intro: sorted_wrt_filter)

lemma ids_upto_map: "ids_upto f n (map g xs) \<longleftrightarrow> ids_upto (f \<circ> g) n xs"
  by (simp add: ids_upto_def)

lemma ids_upto_cong: "(\<And>x. x \<in> set xs \<Longrightarrow> f x = g x) \<Longrightarrow> ids_upto f n xs = ids_upto g n xs"
  by (simp add: ids_upto_def cong: map_cong)

lemma ids_upto_distinct: "ids_upto f n xs \<Longrightarrow> distinct (map f xs)"
  by (simp add: ids_upto_def strict_sorted_iff)

lemma ids_upto_sorted: "ids_upto f n xs \<Longrightarrow> sorted (map f xs)"
  by (simp add: ids_upto_def strict_sorted_iff)

lemma ids_upto_inj: "ids_upto f n xs \<Longrightarrow> x \<in> set xs \<Longrightarrow> y \<in> set xs \<Longrightarrow> f x = f y \<Longrightarrow> x = y"
  by (metis distinct_map ids_upto_distinct inj_onD)

text \<open>Sorting by id changes nothing.\<close>

lemma sort_key_ids: "ids_upto f n xs \<Longrightarrow> sort_key f xs = xs"
  by (simp add: ids_upto_sorted sort_key_id_if_sorted)

lemma ids_upto_single: "0 < f x \<Longrightarrow> f x \<le> n \<Longrightarrow> ids_upto f n [x]"
  by (simp add: ids_upto_def)

subsection \<open>Chains\<close>

lemma chain_le:
  assumes "ids_upto s_id n ss" "chain_ok cur (snapshots_of tid ss)" "is_snapshot tid m ss"
  shows "0 < m \<and> m \<le> cur"
proof -
  let ?xs = "snapshots_of tid ss"
  have ids: "ids_upto s_id n ?xs" unfolding snapshots_of_def by (rule ids_upto_filter [OF assms(1)])
  from assms(3) obtain s where s: "s \<in> set ?xs" "s_id s = m"
    by (auto simp: is_snapshot_def snapshots_of_def)
  then have ne: "?xs \<noteq> []" by auto
  have cur: "cur = s_id (last ?xs)" using assms(2) ne by (simp add: chain_ok_def last_map)
  have "s_id s \<le> s_id (last ?xs)"
  proof (cases "s = last ?xs")
    case False
    have split: "?xs = butlast ?xs @ [last ?xs]" using ne by simp
    with s(1) False have "s \<in> set (butlast ?xs)" by (metis Un_iff empty_iff empty_set insert_iff list.simps(15) set_append)
    moreover have "sorted_wrt (\<lambda>a b. s_id a < s_id b) (butlast ?xs @ [last ?xs])"
      using ids split by (simp add: ids_upto_def sorted_wrt_map)
    ultimately show ?thesis by (auto simp: sorted_wrt_append)
  qed simp
  with s cur ids show ?thesis by (auto simp: ids_upto_def)
qed

lemma chain_append:
  assumes "chain_ok cur xs" "s_parent s = cur"
  shows "chain_ok (s_id s) (xs @ [s])"
  using assms by (cases xs rule: rev_cases) (auto simp: chain_ok_def butlast_append)

lemma snapshots_of_append [simp]: "snapshots_of tid (ss @ [s]) = snapshots_of tid ss @ (if s_table s = tid then [s] else [])"
  by (simp add: snapshots_of_def)

lemma is_snapshot_append: "is_snapshot tid m ss \<Longrightarrow> is_snapshot tid m (ss @ ss')"
  by (auto simp: is_snapshot_def)

subsection \<open>Effects that leave the store alone\<close>

lemma store_inv_seq:
  assumes "store_inv hs ps ss ms ls sq" "seq_le sq sq'"
  shows "store_inv hs ps ss ms ls sq'"
proof -
  have "q_table sq \<le> q_table sq'" "q_partition sq \<le> q_partition sq'" "q_snapshot sq \<le> q_snapshot sq'"
    "q_table sq' < 2 ^ 63" "q_partition sq' < 2 ^ 63" "q_snapshot sq' < 2 ^ 63"
    using assms by (simp_all add: seq_le_def store_inv_def)
  with assms show ?thesis unfolding store_inv_def by (auto intro: ids_upto_mono)
qed

lemma heads_update_live:
  "(\<And>t. t_id (f t) = t_id t \<and> t_snapshot (f t) = t_snapshot t) \<Longrightarrow>
   heads (snd (update_live name f db)) = heads db"
  by (simp add: heads_def update_live_def)

lemma heads_more [simp]:
  "heads (db\<lparr>d_specs := a\<rparr>) = heads db" "heads (db\<lparr>d_history := b\<rparr>) = heads db"
  "heads (db\<lparr>d_partitions := x\<rparr>) = heads db" "heads (db\<lparr>d_snapshots := y\<rparr>) = heads db"
  "heads (db\<lparr>d_mfiles := z\<rparr>) = heads db" "heads (db\<lparr>d_mlists := u\<rparr>) = heads db"
  "heads (db\<lparr>d_txns := v\<rparr>) = heads db"
  by (simp_all add: heads_def)

text \<open>Two databases with the same heads and the same rows below them.\<close>

definition same_store :: "database \<Rightarrow> database \<Rightarrow> bool" where
  "same_store db db' \<longleftrightarrow>
     heads db' = heads db \<and> d_partitions db' = d_partitions db \<and> d_snapshots db' = d_snapshots db \<and>
     d_mfiles db' = d_mfiles db \<and> d_mlists db' = d_mlists db"

lemma update_live_fields [simp]:
  "d_partitions (snd (update_live name f db)) = d_partitions db"
  "d_snapshots (snd (update_live name f db)) = d_snapshots db"
  "d_mfiles (snd (update_live name f db)) = d_mfiles db"
  "d_mlists (snd (update_live name f db)) = d_mlists db"
  "d_specs (snd (update_live name f db)) = d_specs db"
  "d_history (snd (update_live name f db)) = d_history db"
  "d_txns (snd (update_live name f db)) = d_txns db"
  by (simp_all add: update_live_def)

lemma names_update_live:
  "(\<And>t. t_name (f t) = t_name t) \<Longrightarrow>
   map t_name (d_tables (snd (update_live name f db))) = map t_name (d_tables db)"
  by (simp add: update_live_def)

lemma alter_spec_same:
  "alter_spec_effect E sq name spec m db db' \<Longrightarrow>
   same_store db db' \<and> map t_name (d_tables db') = map t_name (d_tables db)"
  by (auto simp: alter_spec_effect_def same_store_def Let_def heads_update_live names_update_live)

lemma alter_schema_same:
  "alter_schema_effect E sq name schema m db db' \<Longrightarrow>
   same_store db db' \<and> map t_name (d_tables db') = map t_name (d_tables db)"
  by (auto simp: alter_schema_effect_def same_store_def Let_def heads_update_live names_update_live)

lemma soft_drop_same:
  "soft_drop_effect name db db' \<Longrightarrow>
   same_store db db' \<and> map t_name (d_tables db') = map t_name (d_tables db)"
  by (auto simp: soft_drop_effect_def same_store_def heads_update_live names_update_live)

lemma rename_same: "rename_effect old new db db' \<Longrightarrow> same_store db db'"
  by (auto simp: rename_effect_def same_store_def heads_update_live)

lemma rename_names:
  assumes "distinct (map t_name (d_tables db))" "rename_effect old new db db'"
  shows "distinct (map t_name (d_tables db'))"
proof -
  obtain now where new: "new \<noteq> old \<longrightarrow> new \<notin> set (map t_name (d_tables db))"
    and db': "db' = snd (update_live old (\<lambda>t. t\<lparr>t_name := new, t_updated_at := now\<rparr>) db)"
    using assms(2) by (auto simp: rename_effect_def)
  let ?g = "\<lambda>t. if is_live old t then new else t_name t"
  have "map t_name (d_tables db') = map ?g (d_tables db)"
    by (simp add: db' update_live_def)
  moreover have "inj_on ?g (set (d_tables db))"
  proof (rule inj_onI)
    fix x y
    assume xy: "x \<in> set (d_tables db)" "y \<in> set (d_tables db)" "?g x = ?g y"
    have "t_name x = t_name y"
      using xy new by (cases "new = old") (auto simp: is_live_def split: if_splits)
    then show "x = y" using assms(1) xy by (metis distinct_map inj_onD)
  qed
  ultimately show ?thesis using assms(1) by (simp add: distinct_map)
qed

lemma same_store_inv:
  "same_store db db' \<Longrightarrow> distinct (map t_name (d_tables db')) \<Longrightarrow> db_inv db sq \<Longrightarrow> db_inv db' sq"
  by (simp add: same_store_def db_inv_def)

lemma db_inv_seq: "db_inv db sq \<Longrightarrow> seq_le sq sq' \<Longrightarrow> db_inv db sq'"
  unfolding db_inv_def by (blast intro: store_inv_seq)

subsection \<open>Create and purge\<close>

lemma create_inv:
  assumes inv: "db_inv db sq" and eff: "create_effect E sq name schema spec props db db'"
    and sq': "seq_le sq sq'" "ids_below db' sq'"
  shows "db_inv db' sq'"
proof -
  obtain a b c now where new: "name \<notin> set (map t_name (d_tables db))"
    and db': "d_tables db' = d_tables db @ [new_table (q_table sq + 1) name a b c now]"
      "d_partitions db' = d_partitions db" "d_snapshots db' = d_snapshots db"
      "d_mfiles db' = d_mfiles db" "d_mlists db' = d_mlists db"
    using eff by (auto simp: create_effect_def)
  have st: "store_inv (heads db) (d_partitions db) (d_snapshots db) (d_mfiles db) (d_mlists db) sq'"
    using inv sq' by (auto simp: db_inv_def intro: store_inv_seq)
  have "q_table sq < q_table sq'" using sq'(2) by (simp add: ids_below_def db' new_table_def)
  note sq' = this sq'(1)
  have hs: "heads db' = heads db @ [(q_table sq + 1, 0)]" by (simp add: db' heads_def new_table_def)
  have tids: "s_table s \<le> q_table sq" if "s \<in> set (d_snapshots db)" for s
    using inv that by (force simp: db_inv_def store_inv_def ids_upto_def)
  have none: "snapshots_of (q_table sq + 1) (d_snapshots db) = []"
    using tids by (force simp: snapshots_of_def filter_empty_conv)
  have "ids_upto fst (q_table sq') (heads db @ [(q_table sq + 1, 0)])"
    using inv sq' by (intro ids_upto_append [of _ "q_table sq"])
      (auto simp: db_inv_def store_inv_def intro!: ids_upto_single)
  moreover have "\<forall>p \<in> set (d_partitions db). partition_ok (heads db @ [(q_table sq + 1, 0)]) (d_snapshots db) p"
    using st by (auto simp: store_inv_def partition_ok_def)
  ultimately have "store_inv (heads db') (d_partitions db') (d_snapshots db') (d_mfiles db') (d_mlists db') sq'"
    using st none unfolding hs by (auto simp: store_inv_def db' chain_ok_def)
  then show ?thesis using inv new by (simp add: db_inv_def db' new_table_def)
qed

lemma heads_purge:
  assumes "distinct (map t_name (d_tables db))" "ids_upto fst n (heads db)" "live_table name db = Some t"
  shows "heads (purge_db (t_id t) name db) = filter (\<lambda>h. fst h \<noteq> t_id t) (heads db)"
proof -
  have t: "t \<in> set (d_tables db)" "t_name t = name" using live_table_Some [OF assms(3)] by auto
  have "t_name u \<noteq> name \<longleftrightarrow> t_id u \<noteq> t_id t" if u: "u \<in> set (d_tables db)" for u
  proof -
    have "t_name u = t_name t \<longleftrightarrow> u = t" using assms(1) t(1) u by (auto simp: distinct_map inj_on_def)
    moreover have "ids_upto t_id n (d_tables db)"
      using assms(2) by (simp add: heads_def ids_upto_map comp_def)
    then have "t_id u = t_id t \<longleftrightarrow> u = t" using t(1) u ids_upto_inj by metis
    ultimately show ?thesis using t(2) by simp
  qed
  then show ?thesis
    by (simp add: heads_def purge_db_def filter_map comp_def cong: filter_cong)
qed

lemma map_filter_pair:
  "map f xs = map g ys \<Longrightarrow> map f (filter (\<lambda>x. P (f x)) xs) = map g (filter (\<lambda>y. P (g y)) ys)"
  by (drule arg_cong [where f = "filter P"]) (simp add: filter_map comp_def)

lemma purge_inv:
  assumes inv: "db_inv db sq" and eff: "purge_effect name db db'"
  shows "db_inv db' sq"
proof -
  from eff obtain t where t: "live_table name db = Some t" and db': "db' = purge_db (t_id t) name db"
    by (auto simp: purge_effect_def)
  let ?tid = "t_id t"
  have st: "store_inv (heads db) (d_partitions db) (d_snapshots db) (d_mfiles db) (d_mlists db) sq"
    and names: "distinct (map t_name (d_tables db))" using inv by (auto simp: db_inv_def)
  have hs: "heads db' = filter (\<lambda>h. fst h \<noteq> ?tid) (heads db)"
    unfolding db' using st by (intro heads_purge [OF names _ t]) (auto simp: store_inv_def)
  let ?ss = "filter (\<lambda>s. s_table s \<noteq> ?tid) (d_snapshots db)"
  have snap: "is_snapshot i m ?ss \<longleftrightarrow> i \<noteq> ?tid \<and> is_snapshot i m (d_snapshots db)" for i m
    by (auto simp: is_snapshot_def)
  have of: "snapshots_of i ?ss = snapshots_of i (d_snapshots db)" if "i \<noteq> ?tid" for i
    using that by (auto simp: snapshots_of_def intro!: filter_cong)
  have mf: "manifests_ok ?ss (filter (\<lambda>f. mf_TableID f \<noteq> ?tid) (d_mfiles db))
      (filter (\<lambda>l. ml_TableID l \<noteq> ?tid) (d_mlists db))"
  proof -
    have ok: "manifests_ok (d_snapshots db) (d_mfiles db) (d_mlists db)"
      and ids: "ids_upto s_id (q_snapshot sq) (d_snapshots db)" using st by (auto simp: store_inv_def)
    have pairs: "map (\<lambda>l. (ml_TableID l, ml_SnapshotID l)) (d_mlists db) =
        map (\<lambda>s. (s_table s, s_id s)) (d_snapshots db)" using ok by (simp add: manifests_ok_def)
    have "filter (\<lambda>f. mf_TableID f \<noteq> ?tid \<and> mf_SnapshotID f = ml_SnapshotID l) (d_mfiles db) =
        filter (\<lambda>f. mf_SnapshotID f = ml_SnapshotID l) (d_mfiles db)"
      if l: "l \<in> set (d_mlists db)" "ml_TableID l \<noteq> ?tid" for l
    proof (rule filter_cong [OF refl])
      fix f assume f: "f \<in> set (d_mfiles db)"
      have "(ml_TableID l, ml_SnapshotID l) \<in> set (map (\<lambda>s. (s_table s, s_id s)) (d_snapshots db))"
        using l(1) pairs by (metis (no_types, lifting) image_eqI set_map)
      moreover have "is_snapshot (mf_TableID f) (mf_SnapshotID f) (d_snapshots db)"
        using ok f by (simp add: manifests_ok_def)
      ultimately show "(mf_TableID f \<noteq> ?tid \<and> mf_SnapshotID f = ml_SnapshotID l) \<longleftrightarrow>
          (mf_SnapshotID f = ml_SnapshotID l)"
        using l(2) ids_upto_inj [OF ids] by (auto simp: is_snapshot_def) metis
    qed
    note counts = this
    have "map (\<lambda>l. (ml_TableID l, ml_SnapshotID l)) (filter (\<lambda>l. ml_TableID l \<noteq> ?tid) (d_mlists db)) =
        map (\<lambda>s. (s_table s, s_id s)) ?ss"
      using map_filter_pair [OF pairs, of "\<lambda>x. fst x \<noteq> ?tid"] by simp
    moreover have "\<forall>f \<in> set (filter (\<lambda>f. mf_TableID f \<noteq> ?tid) (d_mfiles db)).
        is_snapshot (mf_TableID f) (mf_SnapshotID f) ?ss"
      using ok unfolding manifests_ok_def snap by simp
    moreover have "\<forall>l \<in> set (filter (\<lambda>l. ml_TableID l \<noteq> ?tid) (d_mlists db)). ml_ManifestCount l =
        int (length (filter (\<lambda>f. mf_SnapshotID f = ml_SnapshotID l)
          (filter (\<lambda>f. mf_TableID f \<noteq> ?tid) (d_mfiles db))))"
    proof
      fix l assume "l \<in> set (filter (\<lambda>l. ml_TableID l \<noteq> ?tid) (d_mlists db))"
      then have l: "l \<in> set (d_mlists db)" "ml_TableID l \<noteq> ?tid" by simp_all
      have "ml_ManifestCount l =
          int (length (filter (\<lambda>f. mf_SnapshotID f = ml_SnapshotID l) (d_mfiles db)))"
        using ok l(1) unfolding manifests_ok_def by blast
      with counts [OF l] show "ml_ManifestCount l =
          int (length (filter (\<lambda>f. mf_SnapshotID f = ml_SnapshotID l)
            (filter (\<lambda>f. mf_TableID f \<noteq> ?tid) (d_mfiles db))))"
        by (simp only: filter_filter)
    qed
    ultimately show ?thesis unfolding manifests_ok_def by blast
  qed
  have keep: "i \<in> fst ` set (heads db')" if "i \<in> fst ` set (heads db)" "i \<noteq> ?tid" for i
    using that unfolding hs by auto
  have part: "partition_ok (heads db') ?ss p" if "p \<in> set (d_partitions db)" "p_table p \<noteq> ?tid" for p
  proof -
    have "partition_ok (heads db) (d_snapshots db) p" using st that(1) unfolding store_inv_def by blast
    then show ?thesis using that(2) keep unfolding partition_ok_def snap by blast
  qed
  have fields: "d_partitions db' = filter (\<lambda>p. p_table p \<noteq> ?tid) (d_partitions db)"
    "d_snapshots db' = ?ss" "d_mfiles db' = filter (\<lambda>f. mf_TableID f \<noteq> ?tid) (d_mfiles db)"
    "d_mlists db' = filter (\<lambda>l. ml_TableID l \<noteq> ?tid) (d_mlists db)"
    by (simp_all add: db' purge_db_def)
  have "\<forall>h \<in> set (heads db'). chain_ok (snd h) (snapshots_of (fst h) ?ss)"
    using st unfolding hs store_inv_def by (simp add: of)
  moreover have "\<forall>s \<in> set ?ss. s_table s \<in> fst ` set (heads db')"
    using st keep unfolding store_inv_def by auto
  moreover have "ids_upto fst (q_table sq) (heads db')" "ids_upto s_id (q_snapshot sq) ?ss"
    "ids_upto p_id (q_partition sq) (d_partitions db')"
    using st unfolding hs store_inv_def fields by (blast intro: ids_upto_filter)+
  moreover have "\<forall>p \<in> set (d_partitions db'). partition_ok (heads db') ?ss p"
    using part by (simp add: fields)
  ultimately have "store_inv (heads db') (d_partitions db') (d_snapshots db') (d_mfiles db') (d_mlists db') sq"
    using st mf unfolding store_inv_def fields(2-4) by blast
  moreover have "distinct (map t_name (d_tables db'))"
    using names by (simp add: db' purge_db_def distinct_map inj_on_def)
  ultimately show ?thesis by (simp add: db_inv_def)
qed

subsection \<open>Commit\<close>

text \<open>What a commit leaves in the rows, seen through the fields the invariant reads.\<close>

lemma new_partitions_spec:
  assumes "new_partitions E tid n i parts = Some rows"
  shows "map p_id rows = [i + 1..i + int (length parts)]"
    and "\<forall>p \<in> set rows. p_table p = tid \<and> p_snapshot p = n \<and> \<not> p_deleted p \<and> p_deleted_snapshot p = None"
    and "map p_key rows = map pr_PartitionKey parts"
  using assms
proof (induction parts arbitrary: i rows)
  case (Cons p ps)
  {
    case 1
    then show ?case using Cons.IH(1) [of "i + 1"]
      by (auto simp: new_partition_def add.assoc upto_rec1 split: option.splits)
  next
    case 2
    then show ?case using Cons.IH(2) [of "i + 1"]
      by (auto simp: new_partition_def split: option.splits)
  next
    case 3
    then show ?case using Cons.IH(3) [of "i + 1"]
      by (auto simp: new_partition_def split: option.splits)
  }
qed simp_all

lemma stored_manifests_spec:
  assumes "stored_manifests E i fs = Some ms"
  shows "length ms = length fs" "map (\<lambda>f. (mf_TableID f, mf_SnapshotID f)) ms = map (\<lambda>f. (mf_TableID f, mf_SnapshotID f)) fs"
  using assms by (induction fs arbitrary: i ms) (auto split: option.splits)

lemma mark_all_fields [simp]:
  "p_id (mark_all tid keys n p) = p_id p" "p_table (mark_all tid keys n p) = p_table p"
  "p_snapshot (mark_all tid keys n p) = p_snapshot p" "p_key (mark_all tid keys n p) = p_key p"
  by (simp_all add: mark_all_def)

lemma db_inv_below: "db_inv db sq \<Longrightarrow> ids_below db sq"
  by (fastforce simp: db_inv_def store_inv_def ids_below_def ids_upto_def heads_def)

lemma heads_commit:
  assumes "ids_upto fst m (heads db)" "live_table name db = Some t" "distinct (map t_name (d_tables db))"
  shows "heads (snd (update_live name (\<lambda>t. t\<lparr>t_snapshot := n, t_updated_at := now\<rparr>) db)) =
    map (\<lambda>h. if fst h = t_id t then (fst h, n) else h) (heads db)"
proof -
  have t: "t \<in> set (d_tables db)" "is_live name t" using live_table_Some [OF assms(2)] by (auto simp: is_live_def)
  have "ids_upto t_id m (d_tables db)" using assms(1) by (simp add: heads_def ids_upto_map comp_def)
  then have "is_live name u \<longleftrightarrow> t_id u = t_id t" if "u \<in> set (d_tables db)" for u
    using that t assms(3) ids_upto_inj [of t_id m "d_tables db" u t]
    by (auto simp: is_live_def distinct_map inj_on_def)
  then show ?thesis by (auto simp: heads_def update_live_def)
qed

text \<open>Everything the invariant needs to know of a commit.\<close>

lemma commit_effect_fields:
  assumes eff: "commit_effect E sq name specver parent opn parts keys db db'" and inv: "db_inv db sq"
  obtains t rows mfs s where "live_table name db = Some t" "t \<in> set (d_tables db)"
    "heads db' = map (\<lambda>h. if fst h = t_id t then (fst h, q_snapshot sq + 1) else h) (heads db)"
    "map t_name (d_tables db') = map t_name (d_tables db)"
    "new_partitions E (t_id t) (q_snapshot sq + 1) (q_partition sq) parts = Some rows"
    "d_partitions db' = map (mark_all (t_id t) keys (q_snapshot sq + 1)) (d_partitions db @ rows)"
    "d_snapshots db' = d_snapshots db @ [s]" "s_id s = q_snapshot sq + 1" "s_table s = t_id t"
    "s_parent s = int64_of_uint64 parent" "q_snapshot sq + 1 < 2 ^ 63"
    "d_mfiles db' = d_mfiles db @ mfs"
    "map (\<lambda>f. (mf_TableID f, mf_SnapshotID f)) mfs =
       replicate ((if parts = [] then 0 else 1) + (if keys = [] then 0 else 1)) (t_id t, q_snapshot sq + 1)"
    "\<exists>i. d_mlists db' = d_mlists db @ [\<lparr>ml_ManifestListID = i, ml_SnapshotID = q_snapshot sq + 1,
       ml_TableID = t_id t, ml_ManifestCount = int (length mfs)\<rparr>]"
proof -
  obtain t now rows mfs where e: "live_table name db = Some t" "q_snapshot sq + 1 < 2 ^ 63"
      "new_partitions E (t_id t) (q_snapshot sq + 1) (q_partition sq) parts = Some rows"
      "stored_manifests E (q_mfile sq) (commit_manifests name (t_id t)
         (uint64_of_int64 (q_snapshot sq + 1)) specver parts keys) = Some mfs"
    and tabs: "d_tables db' = d_tables (snd (update_live name
        (\<lambda>t. t\<lparr>t_snapshot := q_snapshot sq + 1, t_updated_at := now\<rparr>) db))"
    and parts: "d_partitions db' = map (mark_all (t_id t) keys (q_snapshot sq + 1)) (d_partitions db @ rows)"
    and snaps: "d_snapshots db' = d_snapshots db @
             [\<lparr>s_id = q_snapshot sq + 1, s_table = t_id t, s_parent = int64_of_uint64 parent, s_committed_at = now,
               s_operation = opn, s_added = int32_of (int (length parts)),
               s_deleted = int32_of (int (length keys))\<rparr>]"
    and mf: "d_mfiles db' = d_mfiles db @ mfs"
    and ml: "d_mlists db' = d_mlists db @
             [\<lparr>ml_ManifestListID = q_mlist sq + 1, ml_SnapshotID = q_snapshot sq + 1, ml_TableID = t_id t,
               ml_ManifestCount = int (length (commit_manifests name (t_id t)
                 (uint64_of_int64 (q_snapshot sq + 1)) specver parts keys))\<rparr>]"
    using eff unfolding commit_effect_def Let_def by auto
  have ids: "ids_upto fst (q_table sq) (heads db)" "distinct (map t_name (d_tables db))"
    and sq: "0 \<le> q_snapshot sq" using inv by (auto simp: db_inv_def store_inv_def)
  have "heads db' = heads (snd (update_live name
        (\<lambda>t. t\<lparr>t_snapshot := q_snapshot sq + 1, t_updated_at := now\<rparr>) db))"
    by (simp add: heads_def tabs)
  then have hs: "heads db' = map (\<lambda>h. if fst h = t_id t then (fst h, q_snapshot sq + 1) else h) (heads db)"
    by (simp add: heads_commit [OF ids(1) e(1) ids(2)])
  have names: "map t_name (d_tables db') = map t_name (d_tables db)"
    unfolding tabs by (rule names_update_live) simp
  have int: "in_int64 (q_snapshot sq + 1)" using sq e(2) by (simp add: in_int64_def)
  have pairs: "map (\<lambda>f. (mf_TableID f, mf_SnapshotID f)) mfs =
       replicate ((if parts = [] then 0 else 1) + (if keys = [] then 0 else 1)) (t_id t, q_snapshot sq + 1)"
    using stored_manifests_spec(2) [OF e(4)] int
    by (simp add: commit_manifests_def added_manifest_def deleted_manifest_def)
  show thesis
    by (rule that [OF e(1) conjunct1 [OF live_table_Some [OF e(1)]] hs names e(3) parts snaps _ _ _ e(2) mf pairs])
      (simp_all add: ml stored_manifests_spec(1) [OF e(4)])
qed

lemma partition_ok_more:
  "partition_ok hs ss p \<Longrightarrow> fst ` set hs \<subseteq> fst ` set hs' \<Longrightarrow> partition_ok hs' (ss @ ss') p"
  unfolding partition_ok_def by (blast intro: is_snapshot_append)

lemma partition_ok_mark:
  assumes "partition_ok hs ss p" "is_snapshot tid n ss" "p_table p = tid \<Longrightarrow> p_snapshot p \<le> n"
  shows "partition_ok hs ss (mark_all tid keys n p)"
  using assms by (auto simp: partition_ok_def mark_all_def)

lemma manifests_ok_append:
  assumes ok: "manifests_ok ss ms ls" and ids: "ids_upto s_id q ss" and n: "q < s_id s"
    and mfs: "map (\<lambda>f. (mf_TableID f, mf_SnapshotID f)) mfs = replicate k (s_table s, s_id s)"
    and l: "ml_TableID l = s_table s" "ml_SnapshotID l = s_id s" "ml_ManifestCount l = int (length mfs)"
  shows "manifests_ok (ss @ [s]) (ms @ mfs) (ls @ [l])"
proof -
  have mem: "mf_TableID f = s_table s \<and> mf_SnapshotID f = s_id s" if "f \<in> set mfs" for f
  proof -
    have "(mf_TableID f, mf_SnapshotID f) \<in> set (replicate k (s_table s, s_id s))"
      using that mfs by (metis (no_types, lifting) image_eqI set_map)
    then show ?thesis by (simp split: if_splits)
  qed
  have old: "i \<noteq> s_id s" if "is_snapshot t i ss" for t i
    using that ids n by (auto simp: is_snapshot_def ids_upto_def)
  have pairs: "map (\<lambda>l. (ml_TableID l, ml_SnapshotID l)) ls = map (\<lambda>s. (s_table s, s_id s)) ss"
    and files: "\<forall>f \<in> set ms. is_snapshot (mf_TableID f) (mf_SnapshotID f) ss"
    and counts: "\<forall>l \<in> set ls. ml_ManifestCount l = int (length (filter (\<lambda>f. mf_SnapshotID f = ml_SnapshotID l) ms))"
    using ok by (simp_all add: manifests_ok_def)
  have lists: "is_snapshot (ml_TableID l') (ml_SnapshotID l') ss" if "l' \<in> set ls" for l'
  proof -
    have "(ml_TableID l', ml_SnapshotID l') \<in> set (map (\<lambda>s. (s_table s, s_id s)) ss)"
      using that unfolding pairs [symmetric] by simp
    then show ?thesis by (auto simp: is_snapshot_def)
  qed
  have "\<forall>f \<in> set (ms @ mfs). is_snapshot (mf_TableID f) (mf_SnapshotID f) (ss @ [s])"
    using files mem by (auto intro: is_snapshot_append) (auto simp: is_snapshot_def)
  moreover have "filter (\<lambda>f. mf_SnapshotID f = s_id s) ms = []" "filter (\<lambda>f. mf_SnapshotID f = s_id s) mfs = mfs"
    using files old mem by (auto simp: filter_empty_conv filter_id_conv)
  moreover have "filter (\<lambda>f. mf_SnapshotID f = ml_SnapshotID l') mfs = []" if "l' \<in> set ls" for l'
    using mem old [OF lists [OF that]] by (auto simp: filter_empty_conv)
  ultimately show ?thesis
    using pairs counts l by (simp add: manifests_ok_def)
qed

lemma pointer_of:
  assumes "db_inv db sq" "live_table name db = Some t"
  shows "int64_of_uint64 (current_of name db) = t_snapshot t" "0 \<le> t_snapshot t \<and> t_snapshot t \<le> q_snapshot sq"
proof -
  have t: "(t_id t, t_snapshot t) \<in> set (heads db)"
    using live_table_Some [OF assms(2)] by (auto simp: heads_def)
  let ?xs = "snapshots_of (t_id t) (d_snapshots db)"
  have inv: "ids_upto s_id (q_snapshot sq) (d_snapshots db)" "chain_ok (t_snapshot t) ?xs"
    "0 \<le> q_snapshot sq" "q_snapshot sq < 2 ^ 63"
    using assms(1) t by (auto simp: db_inv_def store_inv_def)
  have "set ?xs \<subseteq> set (d_snapshots db)" by (auto simp: snapshots_of_def)
  moreover have "t_snapshot t = 0 \<or> (\<exists>s \<in> set ?xs. t_snapshot t = s_id s)"
    using inv(2) by (cases ?xs rule: rev_cases) (auto simp: chain_ok_def)
  ultimately show cur: "0 \<le> t_snapshot t \<and> t_snapshot t \<le> q_snapshot sq"
    using inv(1,3) by (force simp: ids_upto_def)
  with inv(4) show "int64_of_uint64 (current_of name db) = t_snapshot t"
    using assms(2) by (simp add: current_of_def in_int64_def)
qed

lemma commit_inv:
  assumes inv: "db_inv db sq" and eff: "commit_effect E sq name specver parent opn parts keys db db'"
    and parent: "parent = current_of name db" and sq': "seq_le sq sq'" "ids_below db' sq'"
  shows "db_inv db' sq'"
proof -
  let ?n = "q_snapshot sq + 1"
  obtain t rows mfs s where t: "live_table name db = Some t" "t \<in> set (d_tables db)"
    and hs: "heads db' = map (\<lambda>h. if fst h = t_id t then (fst h, ?n) else h) (heads db)"
    and names: "map t_name (d_tables db') = map t_name (d_tables db)"
    and rows: "new_partitions E (t_id t) ?n (q_partition sq) parts = Some rows"
    and ps: "d_partitions db' = map (mark_all (t_id t) keys ?n) (d_partitions db @ rows)"
    and ss: "d_snapshots db' = d_snapshots db @ [s]"
    and s: "s_id s = ?n" "s_table s = t_id t" "s_parent s = int64_of_uint64 parent" "?n < 2 ^ 63"
    and mf: "d_mfiles db' = d_mfiles db @ mfs"
      "map (\<lambda>f. (mf_TableID f, mf_SnapshotID f)) mfs =
       replicate ((if parts = [] then 0 else 1) + (if keys = [] then 0 else 1)) (t_id t, ?n)"
    and ml: "\<exists>i. d_mlists db' = d_mlists db @ [\<lparr>ml_ManifestListID = i, ml_SnapshotID = ?n,
       ml_TableID = t_id t, ml_ManifestCount = int (length mfs)\<rparr>]"
    by (rule commit_effect_fields [OF eff inv])
  have st: "store_inv (heads db) (d_partitions db) (d_snapshots db) (d_mfiles db) (d_mlists db) sq"
    using inv by (simp add: db_inv_def)
  have le: "q_table sq \<le> q_table sq'" "q_partition sq \<le> q_partition sq'" "q_snapshot sq \<le> q_snapshot sq'"
    "?n \<le> q_snapshot sq'" "q_table sq' < 2 ^ 63" "q_partition sq' < 2 ^ 63" "q_snapshot sq' < 2 ^ 63"
    using sq' st s(1,4) by (auto simp: seq_le_def ids_below_def ss store_inv_def)
  have fst_hs: "map fst (heads db') = map fst (heads db)" by (simp add: hs comp_def if_distrib cong: if_cong)
  then have fsts: "fst ` set (heads db') = fst ` set (heads db)" by (metis set_map)
  have ids: "ids_upto fst (q_table sq) (heads db)" "ids_upto p_id (q_partition sq) (d_partitions db)"
    "ids_upto s_id (q_snapshot sq) (d_snapshots db)" using st by (auto simp: store_inv_def)
  have idh: "ids_upto fst (q_table sq') (heads db')"
    using ids(1) le(1) unfolding ids_upto_def fst_hs by (metis (no_types, lifting) fsts image_iff order_trans)
  have new_ids: "q_partition sq < p_id p \<and> p_id p \<le> q_partition sq'" if "p \<in> set rows" for p
  proof -
    have "p_id p \<in> set (map p_id rows)" using that by simp
    moreover have "mark_all (t_id t) keys ?n p \<in> set (d_partitions db')" using that by (simp add: ps)
    then have "p_id (mark_all (t_id t) keys ?n p) \<le> q_partition sq'"
      using sq'(2) unfolding ids_below_def by blast
    ultimately show ?thesis unfolding new_partitions_spec(1) [OF rows] by simp
  qed
  have "ids_upto p_id (q_partition sq') rows"
    using new_ids st unfolding ids_upto_def new_partitions_spec(1) [OF rows]
    by (force simp: store_inv_def sorted_wrt_upto)
  then have idp: "ids_upto p_id (q_partition sq') (d_partitions db')"
    unfolding ps ids_upto_map comp_def mark_all_fields using new_ids le(2)
    by (intro ids_upto_append [OF ids(2)]) auto
  have id_s: "ids_upto s_id (q_snapshot sq') (d_snapshots db')"
    unfolding ss using ids(3) le st by (intro ids_upto_append [OF ids(3)])
      (auto simp: s(1) store_inv_def intro!: ids_upto_single)
  have chains: "\<forall>h \<in> set (heads db'). chain_ok (snd h) (snapshots_of (fst h) (d_snapshots db'))"
  proof -
    have "chain_ok ?n (snapshots_of (t_id t) (d_snapshots db) @ [s])"
      using chain_append [of "t_snapshot t" _ s] st t pointer_of(1) [OF inv t(1)] parent s
      by (force simp: store_inv_def heads_def)
    then show ?thesis using st by (auto simp: hs ss s(2) store_inv_def)
  qed
  have tid: "t_id t \<in> fst ` set (heads db')" unfolding fsts using t(2) by (force simp: heads_def)
  then have tables: "\<forall>s \<in> set (d_snapshots db'). s_table s \<in> fst ` set (heads db')"
    using st fsts s(2) by (auto simp: ss store_inv_def)
  have new: "is_snapshot (t_id t) ?n (d_snapshots db')" using s by (auto simp: ss is_snapshot_def)
  have parts: "\<forall>p \<in> set (d_partitions db'). partition_ok (heads db') (d_snapshots db') p"
  proof -
    have old: "partition_ok (heads db') (d_snapshots db') p" if "p \<in> set (d_partitions db)" for p
      unfolding ss using st that fsts by (intro partition_ok_more [where hs = "heads db"]) (auto simp: store_inv_def)
    moreover have "partition_ok (heads db') (d_snapshots db') p" if "p \<in> set rows" for p
      using new_partitions_spec(2) [OF rows] that tid new by (auto simp: partition_ok_def)
    moreover have "p_snapshot p \<le> ?n" if "p \<in> set (d_partitions db @ rows)" for p
    proof (cases "p \<in> set rows")
      case True
      then show ?thesis using new_partitions_spec(2) [OF rows] by simp
    next
      case False
      then have "partition_ok (heads db) (d_snapshots db) p" using that st unfolding store_inv_def by simp
      then have "p_snapshot p \<le> q_snapshot sq"
        using ids(3) unfolding partition_ok_def is_snapshot_def ids_upto_def by metis
      then show ?thesis by simp
    qed
    ultimately have "partition_ok (heads db') (d_snapshots db') (mark_all (t_id t) keys ?n p)"
      if "p \<in> set (d_partitions db @ rows)" for p
      using that new by (metis Un_iff partition_ok_mark set_append)
    then show ?thesis unfolding ps set_map by blast
  qed
  have "manifests_ok (d_snapshots db') (d_mfiles db') (d_mlists db')"
  proof -
    obtain i where ml': "d_mlists db' = d_mlists db @ [\<lparr>ml_ManifestListID = i, ml_SnapshotID = ?n,
       ml_TableID = t_id t, ml_ManifestCount = int (length mfs)\<rparr>]" using ml by blast
    have old: "manifests_ok (d_snapshots db) (d_mfiles db) (d_mlists db)"
      using st unfolding store_inv_def by blast
    show ?thesis unfolding ss mf(1) ml'
      by (rule manifests_ok_append [OF old ids(3) _ mf(2)[folded s(1,2)]]) (simp_all add: s)
  qed
  with idh idp id_s chains tables parts le st
  have "store_inv (heads db') (d_partitions db') (d_snapshots db') (d_mfiles db') (d_mlists db') sq'"
    by (simp add: store_inv_def)
  then show ?thesis using inv names by (simp add: db_inv_def)
qed

end
