(* ===== verification/Snapshot_Reads.thy ===== *)
theory Snapshot_Reads
  imports Db_Invariant
begin

text \<open>
  What readers see of a commit. \<open>rows_at\<close> is the answer of the partition queries for a table id and a
  snapshot; it changes with a commit exactly as the request says at the new snapshot, and not at all
  at the snapshots that exist already.
\<close>

definition rows_at :: "int64 \<Rightarrow> int64 \<Rightarrow> database \<Rightarrow> PartitionRow list" where
  "rows_at tid snap db = map scan_partition (visible_rows tid snap db)"

lemma partitions_at_rows: "partitions_at db name snap =
    map_option (\<lambda>t. rows_at (t_id t) (int64_of_uint64 snap) db) (live_table name db)"
  by (simp add: partitions_at_def rows_at_def)

lemma visible_rows_filter:
  assumes "ids_upto p_id n (d_partitions db)"
  shows "visible_rows tid snap db = filter (visible tid snap) (d_partitions db)"
  unfolding visible_rows_def by (rule sort_key_ids [OF ids_upto_filter [OF assms]])

lemma visible_rows_inv:
  "db_inv db sq \<Longrightarrow> visible_rows tid snap db = filter (visible tid snap) (d_partitions db)"
  by (rule visible_rows_filter [of "q_partition sq"]) (simp add: db_inv_def store_inv_def)

lemma scan_mark_all [simp]: "scan_partition (mark_all tid keys n p) = scan_partition p"
  by (simp add: mark_all_def scan_partition_def)

text \<open>Rows of the database before a commit lie at or below the last snapshot id.\<close>

lemma partition_below:
  assumes "db_inv db sq" "p \<in> set (d_partitions db)"
  shows "p_snapshot p \<le> q_snapshot sq" "p_deleted_snapshot p = Some d \<Longrightarrow> d \<le> q_snapshot sq"
    "p_deleted p \<longleftrightarrow> p_deleted_snapshot p \<noteq> None"
proof -
  have ids: "\<forall>s \<in> set (d_snapshots db). s_id s \<le> q_snapshot sq"
    and p: "partition_ok (heads db) (d_snapshots db) p"
    using assms by (auto simp: db_inv_def store_inv_def ids_upto_def)
  show "p_snapshot p \<le> q_snapshot sq" "p_deleted_snapshot p = Some d \<Longrightarrow> d \<le> q_snapshot sq"
    "p_deleted p \<longleftrightarrow> p_deleted_snapshot p \<noteq> None"
    using p ids unfolding partition_ok_def is_snapshot_def by metis+
qed

lemma visible_mark_old: "m < n \<Longrightarrow> visible tid m (mark_all tid' keys n p) = visible tid m p"
  by (auto simp: visible_def mark_all_def)

lemma map_filter_cong:
  "(\<And>x. x \<in> set xs \<Longrightarrow> P (f x) = Q x) \<Longrightarrow> (\<And>x. x \<in> set xs \<Longrightarrow> g (f x) = g x) \<Longrightarrow>
   map g (filter P (map f xs)) = map g (filter Q xs)"
  by (induction xs) auto

lemma commit_effect_parts:
  assumes "commit_effect E sq name specver parent opn parts keys db db'"
  obtains t rows where "live_table name db = Some t"
    "new_partitions E (t_id t) (q_snapshot sq + 1) (q_partition sq) parts = Some rows"
    "d_partitions db' = map (mark_all (t_id t) keys (q_snapshot sq + 1)) (d_partitions db @ rows)"
  using assms unfolding commit_effect_def Let_def by auto

text \<open>At the snapshots that exist, nothing changes, for any table.\<close>

lemma commit_keeps_rows:
  assumes inv: "db_inv db sq" "db_inv db' sq'"
    and eff: "commit_effect E sq name specver parent opn parts keys db db'"
    and m: "m \<le> q_snapshot sq"
  shows "rows_at tid m db' = rows_at tid m db"
proof -
  obtain t rows where "live_table name db = Some t" and
    rows: "new_partitions E (t_id t) (q_snapshot sq + 1) (q_partition sq) parts = Some rows"
    and ps: "d_partitions db' = map (mark_all (t_id t) keys (q_snapshot sq + 1)) (d_partitions db @ rows)"
    by (rule commit_effect_parts [OF eff])
  let ?f = "mark_all (t_id t) keys (q_snapshot sq + 1)"
  have "filter (visible tid m) (map ?f rows) = []"
    using new_partitions_spec(2) [OF rows] m by (auto simp: filter_empty_conv visible_def)
  moreover have "map scan_partition (filter (visible tid m) (map ?f (d_partitions db))) =
      map scan_partition (filter (visible tid m) (d_partitions db))"
    using m by (intro map_filter_cong) (simp_all add: visible_mark_old)
  ultimately show ?thesis
    by (simp add: rows_at_def visible_rows_inv [OF inv(1)] visible_rows_inv [OF inv(2)] ps)
qed

text \<open>At the new snapshot the rows are those of the parent without the deleted keys, then the new ones.\<close>

definition row_data :: "PartitionRow \<Rightarrow> string \<times> string \<times> string \<times> int64 \<times> int64" where
  "row_data p = (pr_PartitionKey p, pr_DataFilePath p, pr_FileFormat p, pr_RowCount p, pr_SizeBytes p)"

text \<open>A stored partition reads back as it was sent, its statistics through the cast to \<^verbatim>\<open>jsonb\<close>.\<close>

definition stats_of :: "pg_env \<Rightarrow> PartitionRow \<Rightarrow> ColumnStats list" where
  "stats_of E p = (case pe_jsonb E (marshalColumnStats (pr_ColumnStats p)) of
     None \<Rightarrow> [] | Some s \<Rightarrow> unmarshalColumnStats s)"

lemma new_rows_data:
  assumes "new_partitions E tid n i parts = Some rows"
  shows "map row_data (map scan_partition rows) = map row_data parts"
    "map pr_ColumnStats (map scan_partition rows) = map (stats_of E) parts"
    "\<forall>p \<in> set (map scan_partition rows). pr_TableID p = tid \<and> pr_SnapshotID p = n"
  using assms
  by (induction parts arbitrary: i rows)
    (auto simp: row_data_def stats_of_def scan_partition_def new_partition_def split: option.splits)

lemma visible_current:
  assumes inv: "db_inv db sq" and t: "live_table name db = Some t" and n: "q_snapshot sq \<le> n"
  shows "visible_rows (t_id t) n db = visible_rows (t_id t) (t_snapshot t) db"
proof -
  have hd: "(t_id t, t_snapshot t) \<in> set (heads db)"
    using live_table_Some [OF t] by (auto simp: heads_def)
  have ids: "ids_upto s_id (q_snapshot sq) (d_snapshots db)"
    and chain: "chain_ok (t_snapshot t) (snapshots_of (t_id t) (d_snapshots db))"
    using inv hd by (auto simp: db_inv_def store_inv_def)
  have le: "is_snapshot (t_id t) m (d_snapshots db) \<Longrightarrow> m \<le> t_snapshot t \<and> m \<le> n" for m
    using chain_le [OF ids chain] pointer_of(2) [OF inv t] n by force
  have "visible (t_id t) n p = visible (t_id t) (t_snapshot t) p" if p: "p \<in> set (d_partitions db)" for p
  proof -
    have "partition_ok (heads db) (d_snapshots db) p" using inv p by (auto simp: db_inv_def store_inv_def)
    then show ?thesis using le [of "p_snapshot p"] le [of "the (p_deleted_snapshot p)"]
      by (auto simp: visible_def partition_ok_def split: option.splits)
  qed
  then show ?thesis by (simp add: visible_rows_inv [OF inv] cong: filter_cong)
qed

lemma commit_new_rows:
  assumes inv: "db_inv db sq" "db_inv db' sq'"
    and eff: "commit_effect E sq name specver parent opn parts keys db db'"
    and t: "live_table name db = Some t"
  shows "\<exists>rows. new_partitions E (t_id t) (q_snapshot sq + 1) (q_partition sq) parts = Some rows \<and>
    rows_at (t_id t) (q_snapshot sq + 1) db' =
      filter (\<lambda>p. pr_PartitionKey p \<notin> set keys)
        (rows_at (t_id t) (t_snapshot t) db @ map scan_partition rows)"
proof -
  obtain t' rows where t': "live_table name db = Some t'"
    and rows: "new_partitions E (t_id t') (q_snapshot sq + 1) (q_partition sq) parts = Some rows"
    and ps: "d_partitions db' = map (mark_all (t_id t') keys (q_snapshot sq + 1)) (d_partitions db @ rows)"
    by (rule commit_effect_parts [OF eff])
  have [simp]: "t' = t" using t t' by simp
  let ?n = "q_snapshot sq + 1"
  let ?f = "mark_all (t_id t) keys ?n"
  have new: "visible (t_id t) ?n (?f p) \<longleftrightarrow> p_key p \<notin> set keys" if "p \<in> set rows" for p
    using new_partitions_spec(2) [OF rows] that by (auto simp: visible_def mark_all_def)
  have old: "visible (t_id t) ?n (?f p) \<longleftrightarrow> visible (t_id t) ?n p \<and> p_key p \<notin> set keys"
    if "p \<in> set (d_partitions db)" for p
    using partition_below [OF inv(1) that] by (auto simp: visible_def mark_all_def split: option.splits)
  have key: "pr_PartitionKey (scan_partition p) = p_key p" for p by (simp add: scan_partition_def)
  have "map scan_partition (filter (visible (t_id t) ?n) (map ?f rows)) =
      filter (\<lambda>p. pr_PartitionKey p \<notin> set keys) (map scan_partition rows)"
    using new by (simp add: filter_map comp_def key cong: filter_cong)
  moreover have "map scan_partition (filter (visible (t_id t) ?n) (map ?f (d_partitions db))) =
      filter (\<lambda>p. pr_PartitionKey p \<notin> set keys) (rows_at (t_id t) ?n db)"
    using old by (simp add: rows_at_def visible_rows_inv [OF inv(1)] filter_map comp_def key conj_commute cong: filter_cong)
  moreover have "rows_at (t_id t) ?n db = rows_at (t_id t) (t_snapshot t) db"
    by (simp add: rows_at_def visible_current [OF inv(1) t])
  ultimately show ?thesis using rows
    by (simp add: rows_at_def visible_rows_inv [OF inv(2)] ps)
qed

end
