(* ===== verification/Cache_Coherence.thy ===== *)
theory Cache_Coherence
  imports Snapshot_Reads Partition_Registry
begin

text \<open>
  The partition cache and the database. \<open>key_load\<close> is what the database answers for a cache key;
  the cache is coherent when every entry is that answer. \<open>keeps_views X\<close> says that an operation
  leaves the answers for all tables outside \<open>X\<close> as they are, so that only the entries of \<open>X\<close> have to
  be dropped.
\<close>

subsection \<open>Cache keys\<close>

definition decode_key :: "string \<Rightarrow> (string \<times> uint64) option" where
  "decode_key k =
     (if CHR '':'' \<notin> set k then None else
      let digits = rev (takeWhile (\<lambda>c. c \<noteq> CHR '':'') (rev k));
          name = rev (tl (dropWhile (\<lambda>c. c \<noteq> CHR '':'') (rev k)))
      in map_option (\<lambda>n. (name, of_nat n)) (parse_nat digits))"

lemma FormatUint_codec: "parse_nat (FormatUint u) = Some (unat u)"
  by (simp add: parse_nat_def FormatUint_def)

lemma while_sep:
  "x \<notin> set ys \<Longrightarrow> takeWhile (\<lambda>c. c \<noteq> x) (ys @ x # zs) = ys \<and> dropWhile (\<lambda>c. c \<noteq> x) (ys @ x # zs) = x # zs"
  by (induction ys) auto

interpretation cache_key: codec "\<lambda>p. makeCacheKey (fst p) (snd p)" decode_key "\<lambda>_. True"
proof unfold_locales
  fix p :: "string \<times> uint64"
  obtain name snap where p: "p = (name, snap)" by (cases p)
  have "takeWhile (\<lambda>c. c \<noteq> CHR '':'') (rev (makeCacheKey name snap)) = rev (FormatUint snap)"
    "dropWhile (\<lambda>c. c \<noteq> CHR '':'') (rev (makeCacheKey name snap)) = CHR '':'' # rev name"
    using while_sep [of "CHR '':''" "rev (FormatUint snap)"] FormatUint_no_colon
    by (simp_all add: makeCacheKey_def)
  moreover have "CHR '':'' \<in> set (makeCacheKey name snap)" by (simp add: makeCacheKey_def)
  ultimately show "decode_key (makeCacheKey (fst p) (snd p)) = Some p"
    by (simp add: decode_key_def p FormatUint_codec)
qed

lemma decode_makeCacheKey [simp]: "decode_key (makeCacheKey name snap) = Some (name, snap)"
  using cache_key.dec_enc [of "(name, snap)"] by simp

text \<open>The entries that \<open>InvalidateTableCache\<close> drops.\<close>

definition covers :: "string \<Rightarrow> string \<Rightarrow> bool" where
  "covers name key \<longleftrightarrow>
     (let pre = name @ '':'' in length key \<ge> length pre \<and> take (length pre) key = pre)"

lemma covers_own: "covers name (makeCacheKey name snap)"
  by (simp add: covers_def makeCacheKey_def)

lemma covers_decoded:
  assumes "decode_key k = Some (name, snap)"
  shows "covers name k"
proof -
  have colon: "CHR '':'' \<in> set (rev k)" and name: "name = rev (tl (dropWhile (\<lambda>c. c \<noteq> CHR '':'') (rev k)))"
    using assms by (auto simp: decode_key_def Let_def split: if_splits)
  obtain ys zs where k: "rev k = ys @ CHR '':'' # zs" "CHR '':'' \<notin> set ys"
    using split_list_first [OF colon] by blast
  have "name = rev zs" unfolding name k(1) using while_sep [OF k(2)] by simp
  then have "k = (name @ '':'') @ rev ys" using k(1) by (metis append.assoc append_Cons append_Nil rev.simps(2) rev_append rev_rev_ident)
  then show ?thesis by (simp add: covers_def)
qed

lemma InvalidateTableCache_cache:
  "snd (InvalidateTableCache name c) = c\<lparr>c_cache := snd (lru_InvalidateIf (covers name) (c_cache c))\<rparr>"
proof -
  have "(\<lambda>key. length key \<ge> length (name @ '':'') \<and> take (length (name @ '':'')) key = name @ '':'') =
      covers name" by (simp add: covers_def fun_eq_iff)
  then show ?thesis by (simp add: InvalidateTableCache_def Let_def split: prod.split)
qed

subsection \<open>Coherence\<close>

definition key_load :: "database \<Rightarrow> string \<Rightarrow> PartitionRow list option" where
  "key_load db k = (case decode_key k of None \<Rightarrow> None | Some (name, snap) \<Rightarrow> partitions_at db name snap)"

lemma key_load_makeCacheKey [simp]: "key_load db (makeCacheKey name snap) = partitions_at db name snap"
  by (simp add: key_load_def)

text \<open>Entries of the tables in \<open>X\<close> may be stale.\<close>

definition coherent_but :: "string set \<Rightarrow> database \<Rightarrow> (string, PartitionRow list) lru \<Rightarrow> bool" where
  "coherent_but X db l \<longleftrightarrow> lru_inv l \<and> lru.agrees_but (\<lambda>k. \<exists>n \<in> X. covers n k) (key_load db) l"

abbreviation coherent :: "database \<Rightarrow> (string, PartitionRow list) lru \<Rightarrow> bool" where
  "coherent \<equiv> coherent_but {}"

lemma coherent_agrees: "coherent db l \<longleftrightarrow> lru_inv l \<and> lru.agrees (key_load db) l"
  by (simp add: coherent_but_def lru.agrees_but_False)

lemma coherent_hit:
  "coherent db l \<Longrightarrow> fst (lru_Get (makeCacheKey name snap) l) = Some rows \<Longrightarrow>
   partitions_at db name snap = Some rows"
  using lru.agrees_hit [of l "key_load db" "makeCacheKey name snap" rows] by (simp add: coherent_agrees)

lemma coherent_Get: "coherent db l \<Longrightarrow> coherent db (snd (lru_Get k l))"
  by (simp add: coherent_agrees lru.agrees_get lru.get_inv)

lemma coherent_Put:
  "coherent db l \<Longrightarrow> partitions_at db name snap = Some rows \<Longrightarrow>
   coherent db (lru_Put (makeCacheKey name snap) rows l)"
  by (simp add: coherent_agrees lru.agrees_put lru.put_inv)

lemma coherent_invalidate:
  "coherent_but (insert name X) db (c_cache c) \<Longrightarrow>
   coherent_but X db (c_cache (snd (InvalidateTableCache name c)))"
  by (simp add: coherent_but_def InvalidateTableCache_cache lru.agrees_but_drop lru.drop_inv)

lemma coherent_mono: "X \<subseteq> Y \<Longrightarrow> coherent_but X db l \<Longrightarrow> coherent_but Y db l"
  unfolding coherent_but_def lru.agrees_but_def by blast

definition keeps_views :: "string set \<Rightarrow> database \<Rightarrow> database \<Rightarrow> bool" where
  "keeps_views X db db' \<longleftrightarrow>
     (\<forall>name snap rows. name \<notin> X \<longrightarrow> partitions_at db name snap = Some rows \<longrightarrow>
        partitions_at db' name snap = Some rows)"

lemma key_decoded: "key_load db k = Some v \<Longrightarrow> \<exists>name snap. decode_key k = Some (name, snap) \<and>
    partitions_at db name snap = Some v"
  by (auto simp: key_load_def split: option.splits)

lemma coherent_change:
  assumes "coherent db l" "keeps_views X db db'"
  shows "coherent_but X db' l"
proof -
  have "(\<exists>n \<in> X. covers n k) \<or> key_load db' k = Some v" if "key_load db k = Some v" for k v
  proof -
    obtain name snap where k: "decode_key k = Some (name, snap)" "partitions_at db name snap = Some v"
      using \<open>key_load db k = Some v\<close> key_decoded by blast
    then show ?thesis using assms(2) covers_decoded [OF k(1)]
      by (cases "name \<in> X") (auto simp: keeps_views_def key_load_def)
  qed
  then show ?thesis using assms(1) unfolding coherent_but_def lru.agrees_but_def by blast
qed

lemma keeps_views_refl [simp]: "keeps_views X db db"
  by (simp add: keeps_views_def)

subsection \<open>What each effect does to the views\<close>

lemma find_map_same:
  "(\<And>x. x \<in> set xs \<Longrightarrow> P (g x) = P x) \<Longrightarrow> (\<And>x. x \<in> set xs \<Longrightarrow> P x \<Longrightarrow> h (g x) = h x) \<Longrightarrow>
   map_option h (find P (map g xs)) = map_option h (find P xs)"
  by (induction xs) auto

text \<open>The id of a table is unchanged by an update that keeps ids, live rows and the names in question.\<close>

lemma live_id_update:
  assumes "\<And>t. is_live name t \<Longrightarrow> t_id (f t) = t_id t \<and> is_live name' (f t) = is_live name' t"
  shows "map_option t_id (live_table name' (snd (update_live name f db))) =
    map_option t_id (live_table name' db)"
  unfolding live_table_def update_live_def using assms by (simp, intro find_map_same) auto

lemma partitions_at_cong:
  assumes "map_option t_id (live_table name db') = map_option t_id (live_table name db)"
    and "\<And>t. live_table name db = Some t \<Longrightarrow> rows_at (t_id t) (int64_of_uint64 snap) db' =
      rows_at (t_id t) (int64_of_uint64 snap) db"
  shows "partitions_at db' name snap = partitions_at db name snap"
proof (cases "live_table name db")
  case (Some t)
  then obtain t' where "live_table name db' = Some t'" "t_id t' = t_id t" using assms(1) by auto
  then show ?thesis using assms(2) [OF Some] Some by (simp add: partitions_at_rows)
qed (use assms(1) in \<open>simp add: partitions_at_rows\<close>)

lemma rows_at_cong: "d_partitions db' = d_partitions db \<Longrightarrow> rows_at tid m db' = rows_at tid m db"
  by (simp add: rows_at_def visible_rows_def)

lemma keeps_viewsI:
  assumes "\<And>name. name \<notin> X \<Longrightarrow> map_option t_id (live_table name db') = map_option t_id (live_table name db)"
    and "\<And>name t m. name \<notin> X \<Longrightarrow> live_table name db = Some t \<Longrightarrow> rows_at (t_id t) m db' = rows_at (t_id t) m db"
  shows "keeps_views X db db'"
  unfolding keeps_views_def
proof (intro allI impI)
  fix name snap rows
  assume n: "name \<notin> X" and rows: "partitions_at db name snap = Some rows"
  have "partitions_at db' name snap = partitions_at db name snap"
    by (rule partitions_at_cong [OF assms(1) [OF n] assms(2) [OF n]])
  with rows show "partitions_at db' name snap = Some rows" by simp
qed

text \<open>An update of one row that keeps ids and partitions.\<close>

lemma update_live_views:
  assumes "\<And>t name'. name' \<notin> X \<Longrightarrow> is_live name t \<Longrightarrow> t_id (f t) = t_id t \<and> is_live name' (f t) = is_live name' t"
    and "d_tables db' = d_tables (snd (update_live name f db))" "d_partitions db' = d_partitions db"
  shows "keeps_views X db db'"
proof (rule keeps_viewsI)
  fix name' assume n: "name' \<notin> X"
  have "live_table name' db' = live_table name' (snd (update_live name f db))"
    by (simp add: live_table_def assms(2))
  then show "map_option t_id (live_table name' db') = map_option t_id (live_table name' db)"
    using live_id_update [of name f name' db] assms(1) [OF n] by simp
qed (rule rows_at_cong [OF assms(3)])

lemma alter_spec_views: "alter_spec_effect E sq name spec m db db' \<Longrightarrow> keeps_views {} db db'"
  unfolding alter_spec_effect_def Let_def
  by (elim exE conjE) (rule update_live_views, auto simp: is_live_def)

lemma alter_schema_views: "alter_schema_effect E sq name schema m db db' \<Longrightarrow> keeps_views {} db db'"
  unfolding alter_schema_effect_def Let_def
  by (elim exE conjE) (rule update_live_views, auto simp: is_live_def)

lemma soft_drop_views: "soft_drop_effect name db db' \<Longrightarrow> keeps_views {name} db db'"
  unfolding soft_drop_effect_def
  by (elim exE conjE) (rule update_live_views, auto simp: is_live_def)

lemma rename_views: "rename_effect old new db db' \<Longrightarrow> keeps_views {old, new} db db'"
  unfolding rename_effect_def
  by (elim exE conjE) (rule update_live_views, auto simp: is_live_def)

lemma create_views:
  assumes "create_effect E sq name schema spec props db db'"
  shows "keeps_views {} db db'"
proof -
  obtain t where tabs: "d_tables db' = d_tables db @ [t]" and ps: "d_partitions db' = d_partitions db"
    using assms by (auto simp: create_effect_def)
  have "find P ts = Some u \<Longrightarrow> find P (ts @ [t]) = Some u" for P ts u
    by (induction ts) auto
  then have "live_table n db' = Some u" if "live_table n db = Some u" for n u
    using that unfolding live_table_def tabs by blast
  then show ?thesis
    by (auto simp: keeps_views_def partitions_at_rows rows_at_cong [OF ps])
qed

text \<open>Distinct live tables have distinct ids.\<close>

lemma live_ids_distinct:
  assumes inv: "db_inv db sq" and t: "live_table a db = Some t" "live_table b db = Some u" and "a \<noteq> b"
  shows "t_id t \<noteq> t_id u"
proof
  assume eq: "t_id t = t_id u"
  have "ids_upto t_id (q_table sq) (d_tables db)"
    using inv by (simp add: db_inv_def store_inv_def heads_def ids_upto_map comp_def)
  then have "t = u" using eq ids_upto_inj live_table_Some [OF t(1)] live_table_Some [OF t(2)] by metis
  then show False using live_table_Some [OF t(1)] live_table_Some [OF t(2)] \<open>a \<noteq> b\<close> by simp
qed

text \<open>A commit leaves every row of other tables alone.\<close>

lemma commit_other_rows:
  assumes inv: "db_inv db sq" "db_inv db' sq'"
    and eff: "commit_effect E sq name specver parent opn parts keys db db'"
    and tid: "live_table name db = Some t" "tid \<noteq> t_id t"
  shows "visible_rows tid m db' = visible_rows tid m db"
proof -
  obtain t' rows where t': "live_table name db = Some t'"
    and rows: "new_partitions E (t_id t') (q_snapshot sq + 1) (q_partition sq) parts = Some rows"
    and ps: "d_partitions db' = map (mark_all (t_id t') keys (q_snapshot sq + 1)) (d_partitions db @ rows)"
    by (rule commit_effect_parts [OF eff])
  let ?f = "mark_all (t_id t) keys (q_snapshot sq + 1)"
  have "?f p = p" if "p_table p = tid" for p using that tid(2) by (simp add: mark_all_def)
  then have "filter (visible tid m) (map ?f xs) = filter (visible tid m) xs" for xs
    by (induction xs) (auto simp: visible_def)
  moreover have "filter (visible tid m) rows = []"
    using new_partitions_spec(2) [OF rows] t' tid by (auto simp: filter_empty_conv visible_def)
  ultimately show ?thesis using t' tid(1)
    by (simp add: visible_rows_inv [OF inv(1)] visible_rows_inv [OF inv(2)] ps)
qed

lemma commit_tables:
  assumes "commit_effect E sq name specver parent opn parts keys db db'"
  obtains now where "d_tables db' = d_tables (snd (update_live name
     (\<lambda>t. t\<lparr>t_snapshot := q_snapshot sq + 1, t_updated_at := now\<rparr>) db))"
  using assms unfolding commit_effect_def Let_def by auto

lemma commit_views:
  assumes inv: "db_inv db sq" "db_inv db' sq'"
    and eff: "commit_effect E sq name specver parent opn parts keys db db'"
  shows "keeps_views {name} db db'"
proof (rule keeps_viewsI)
  obtain now where tabs: "d_tables db' = d_tables (snd (update_live name
     (\<lambda>t. t\<lparr>t_snapshot := q_snapshot sq + 1, t_updated_at := now\<rparr>) db))"
    by (rule commit_tables [OF eff])
  fix name' assume n: "name' \<notin> {name}"
  have "live_table name' db' = live_table name' (snd (update_live name
     (\<lambda>t. t\<lparr>t_snapshot := q_snapshot sq + 1, t_updated_at := now\<rparr>) db))"
    by (simp add: live_table_def tabs)
  then show "map_option t_id (live_table name' db') = map_option t_id (live_table name' db)"
    using live_id_update [of name _ name' db] by (simp add: is_live_def)
  obtain t where t: "live_table name db = Some t" by (rule commit_effect_parts [OF eff])
  fix u m assume u: "live_table name' db = Some u"
  have "t_id u \<noteq> t_id t" using live_ids_distinct [OF inv(1) u t] n by simp
  then show "rows_at (t_id u) m db' = rows_at (t_id u) m db"
    by (simp add: rows_at_def commit_other_rows [OF inv eff t])
qed

lemma purge_rows_at: "tid \<noteq> tid' \<Longrightarrow> rows_at tid m (purge_db tid' name db) = rows_at tid m db"
  by (auto simp: rows_at_def visible_rows_def purge_db_def visible_def
      intro!: arg_cong [where f = "map scan_partition"] arg_cong [where f = "sort_key p_id"] filter_cong)

lemma purge_views:
  assumes inv: "db_inv db sq" and eff: "purge_effect name db db'"
  shows "keeps_views {name} db db'"
proof (rule keeps_viewsI)
  obtain t where t: "live_table name db = Some t" and db': "db' = purge_db (t_id t) name db"
    using eff by (auto simp: purge_effect_def)
  fix name' assume n: "name' \<notin> {name}"
  have "find (is_live name') (filter (\<lambda>t. t_name t \<noteq> name) ts) = find (is_live name') ts" for ts
    using n by (induction ts) (auto simp: is_live_def)
  then show "map_option t_id (live_table name' db') = map_option t_id (live_table name' db)"
    by (simp add: live_table_def db' purge_db_def)
  fix u m assume u: "live_table name' db = Some u"
  have "t_id u \<noteq> t_id t" using live_ids_distinct [OF inv u t] n by simp
  then show "rows_at (t_id u) m db' = rows_at (t_id u) m db" by (simp add: db' purge_rows_at)
qed

end
