(* ===== verification/Version_History.thy ===== *)
theory Version_History
  imports Cache_Coherence Partition_Spec
begin

text \<open>
  The rows that record the past of a table: the schema history, the partition spec history, the
  tombstones of dropped tables and the client transactions. \<open>records\<close> is what every operation keeps
  of them; the \<open>X_records\<close> lemmas show it for each effect on the database.
\<close>

definition history_of :: "int64 \<Rightarrow> database \<Rightarrow> history_rec list" where
  "history_of tid db = filter (\<lambda>h. h_table h = tid) (d_history db)"

definition specs_of :: "int64 \<Rightarrow> database \<Rightarrow> spec_rec list" where
  "specs_of tid db = filter (\<lambda>g. g_table g = tid) (d_specs db)"

text \<open>Version numbers count up from \<open>v\<close>, as 32-bit integers.\<close>

definition counted :: "int \<Rightarrow> int32 list \<Rightarrow> bool" where
  "counted v vs \<longleftrightarrow> vs = map (\<lambda>i. int32_of (v + int i)) [0..<length vs]"

text \<open>
  The history of the schema has a row for every version but the first, and its last row is the
  current schema. The history of the spec may have a row for the first version too.
\<close>

definition schema_current :: "table_rec \<Rightarrow> history_rec list \<Rightarrow> bool" where
  "schema_current t hs \<longleftrightarrow>
     counted 2 (map h_version hs) \<and> t_schema_version t = int32_of (1 + int (length hs)) \<and>
     (hs \<noteq> [] \<longrightarrow> t_schema t = h_schema (last hs))"

definition spec_current :: "table_rec \<Rightarrow> spec_rec list \<Rightarrow> bool" where
  "spec_current t gs \<longleftrightarrow>
     (\<exists>v \<in> {1, 2}. counted v (map g_version gs) \<and> t_spec_version t = int32_of (v - 1 + int (length gs))) \<and>
     (gs \<noteq> [] \<longrightarrow> t_spec t = g_spec (last gs))"

definition versions_ok :: "database \<Rightarrow> sequences \<Rightarrow> bool" where
  "versions_ok db sq \<longleftrightarrow>
     (\<forall>t \<in> set (d_tables db). schema_current t (history_of (t_id t) db) \<and> spec_current t (specs_of (t_id t) db)) \<and>
     (\<forall>h \<in> set (d_history db). h_table h \<le> q_table sq) \<and> (\<forall>g \<in> set (d_specs db). g_table g \<le> q_table sq)"

text \<open>A stored spec keeps the fields of the earlier ones.\<close>

definition spec_follows :: "string \<Rightarrow> string \<Rightarrow> bool" where
  "spec_follows a b \<longleftrightarrow>
     (\<exists>new. unmarshalSpec b = Some new \<and> spec_wf new \<and> (\<forall>old. unmarshalSpec a = Some old \<longrightarrow> spec_evolves old new))"

definition spec_chains :: "database \<Rightarrow> bool" where
  "spec_chains db \<longleftrightarrow>
     (\<forall>t \<in> set (d_tables db). sorted_wrt (\<lambda>a b. spec_follows (g_spec a) (g_spec b)) (specs_of (t_id t) db))"

definition dropped :: "database \<Rightarrow> table_rec set" where
  "dropped db = {t \<in> set (d_tables db). t_deleted t}"

definition txn_tables :: "database \<Rightarrow> (int64 \<times> int64) set" where
  "txn_tables db = (\<lambda>x. (x_id x, x_table x)) ` set (d_txns db)"

text \<open>The chains of specs are kept when \<open>K\<close> holds: the database stores a spec text with its meaning.\<close>

definition records :: "bool \<Rightarrow> database \<Rightarrow> sequences \<Rightarrow> database \<Rightarrow> sequences \<Rightarrow> bool" where
  "records K db sq db' sq' \<longleftrightarrow>
     dropped db \<subseteq> dropped db' \<and> txn_tables db \<subseteq> txn_tables db' \<and>
     (versions_ok db sq \<longrightarrow> versions_ok db' sq' \<and> (K \<and> spec_chains db \<longrightarrow> spec_chains db'))"

lemma records_trans: "records K a sa b sb \<Longrightarrow> records K b sb c sc \<Longrightarrow> records K a sa c sc"
  unfolding records_def by blast

subsection \<open>Counting\<close>

lemma int32_of_Suc: "int32_of (int32_of x + 1) = int32_of (x + 1)"
proof -
  have "signed_take_bit 31 (signed_take_bit 31 x + signed_take_bit 31 1) = signed_take_bit 31 (x + 1 :: int)"
    by (rule signed_take_bit_add)
  then show ?thesis by (simp add: int32_of_def)
qed

lemma counted_Nil [simp]: "counted v []"
  by (simp add: counted_def)

lemma counted_snoc: "counted v (vs @ [w]) \<longleftrightarrow> counted v vs \<and> w = int32_of (v + int (length vs))"
  by (auto simp: counted_def)

lemma schema_current_snoc:
  assumes "schema_current t hs" "h_version h = int32_of (t_schema_version t + 1)"
    and "t_schema t' = h_schema h" "t_schema_version t' = h_version h"
  shows "schema_current t' (hs @ [h])"
  using assms int32_of_Suc [of "1 + int (length hs)"] by (simp add: schema_current_def counted_snoc add.commute)

lemma spec_current_snoc:
  assumes "spec_current t gs" "g_version g = int32_of (t_spec_version t + 1)"
    and "t_spec t' = g_spec g" "t_spec_version t' = g_version g"
  shows "spec_current t' (gs @ [g])"
proof -
  obtain v where v: "v \<in> {1, 2}" "counted v (map g_version gs)" "t_spec_version t = int32_of (v - 1 + int (length gs))"
    using assms(1) unfolding spec_current_def by blast
  then have "g_version g = int32_of (v + int (length gs))"
    using assms(2) int32_of_Suc [of "v - 1 + int (length gs)"] by simp
  then have "counted v (map g_version (gs @ [g])) \<and> t_spec_version t' = int32_of (v - 1 + int (length (gs @ [g])))"
    using v(2) assms(4) by (simp add: counted_snoc)
  with v(1) assms(3) show ?thesis unfolding spec_current_def by auto
qed

lemma current_cong:
  "t_schema t' = t_schema t \<Longrightarrow> t_schema_version t' = t_schema_version t \<Longrightarrow> schema_current t' hs = schema_current t hs"
  "t_spec t' = t_spec t \<Longrightarrow> t_spec_version t' = t_spec_version t \<Longrightarrow> spec_current t' gs = spec_current t gs"
  by (simp_all add: schema_current_def spec_current_def)

subsection \<open>What each effect does to the records\<close>

text \<open>An operation that leaves the versions of every table alone.\<close>

lemma records_keep:
  assumes le: "seq_le sq sq'"
    and tabs: "\<And>t'. t' \<in> set (d_tables db') \<Longrightarrow> \<exists>t \<in> set (d_tables db). t_id t' = t_id t \<and>
      t_schema t' = t_schema t \<and> t_schema_version t' = t_schema_version t \<and> t_spec t' = t_spec t \<and>
      t_spec_version t' = t_spec_version t"
    and rows: "\<And>t'. t' \<in> set (d_tables db') \<Longrightarrow> history_of (t_id t') db' = history_of (t_id t') db \<and>
      specs_of (t_id t') db' = specs_of (t_id t') db"
    and sub: "set (d_history db') \<subseteq> set (d_history db)" "set (d_specs db') \<subseteq> set (d_specs db)"
    and gone: "dropped db \<subseteq> dropped db'" and txns: "txn_tables db \<subseteq> txn_tables db'"
  shows "records K db sq db' sq'"
proof -
  have q: "q_table sq \<le> q_table sq'" using le by (simp add: seq_le_def)
  have "versions_ok db' sq'" if "versions_ok db sq"
    unfolding versions_ok_def
  proof (intro conjI ballI)
    fix t' assume t': "t' \<in> set (d_tables db')"
    from tabs [OF t'] obtain t where "t \<in> set (d_tables db)" "t_id t' = t_id t" "t_schema t' = t_schema t"
      "t_schema_version t' = t_schema_version t" "t_spec t' = t_spec t" "t_spec_version t' = t_spec_version t" by blast
    then show "schema_current t' (history_of (t_id t') db')" "spec_current t' (specs_of (t_id t') db')"
      using that rows [OF t'] current_cong [of t' t] by (simp_all add: versions_ok_def)
  qed (use that sub q in \<open>force simp: versions_ok_def\<close>)+
  moreover have "spec_chains db'" if "spec_chains db"
    unfolding spec_chains_def
  proof
    fix t' assume t': "t' \<in> set (d_tables db')"
    from tabs [OF t'] rows [OF t'] that
    show "sorted_wrt (\<lambda>a b. spec_follows (g_spec a) (g_spec b)) (specs_of (t_id t') db')"
      unfolding spec_chains_def by auto
  qed
  ultimately show ?thesis using gone txns unfolding records_def by blast
qed

lemma records_refl: "seq_le sq sq' \<Longrightarrow> records K db sq db sq'"
  by (rule records_keep) auto

lemma in_update_live:
  "t' \<in> set (d_tables (snd (update_live name f db))) \<longleftrightarrow>
   (\<exists>t \<in> set (d_tables db). t' = (if is_live name t then f t else t))"
  by (auto simp: update_live_def)

lemma dropped_update_live: "dropped db \<subseteq> dropped (snd (update_live name f db))"
  by (force simp: dropped_def in_update_live is_live_def)

lemma dropped_cong: "d_tables a = d_tables b \<Longrightarrow> dropped a = dropped b"
  by (simp add: dropped_def)

lemma records_update_live:
  assumes "seq_le sq sq'" "d_tables db' = d_tables (snd (update_live name f db))"
    and "\<And>t. t_id (f t) = t_id t \<and> t_schema (f t) = t_schema t \<and> t_schema_version (f t) = t_schema_version t \<and>
      t_spec (f t) = t_spec t \<and> t_spec_version (f t) = t_spec_version t"
    and "d_history db' = d_history db" "d_specs db' = d_specs db" "d_txns db' = d_txns db"
  shows "records K db sq db' sq'"
proof (rule records_keep [OF assms(1)])
  show "dropped db \<subseteq> dropped db'"
    using dropped_update_live dropped_cong [OF assms(2)] by simp
  fix t' assume "t' \<in> set (d_tables db')"
  then show "\<exists>t \<in> set (d_tables db). t_id t' = t_id t \<and> t_schema t' = t_schema t \<and>
      t_schema_version t' = t_schema_version t \<and> t_spec t' = t_spec t \<and> t_spec_version t' = t_spec_version t"
    using assms(3) unfolding assms(2) in_update_live by (metis (full_types))
qed (use assms(4-6) in \<open>simp_all add: history_of_def specs_of_def txn_tables_def\<close>)

lemma commit_records:
  assumes "commit_effect E sq name v parent opn parts keys db db'" "seq_le sq sq'"
  shows "records K db sq db' sq'"
proof -
  obtain now where tabs: "d_tables db' = d_tables (snd (update_live name
     (\<lambda>t. t\<lparr>t_snapshot := q_snapshot sq + 1, t_updated_at := now\<rparr>) db))"
    by (rule commit_tables [OF assms(1)])
  show ?thesis
    by (rule records_update_live [OF assms(2) tabs])
      (use assms(1) in \<open>auto simp: commit_effect_def Let_def\<close>)
qed

lemma records_live:
  "db' = snd (update_live name f db) \<Longrightarrow> seq_le sq sq' \<Longrightarrow>
   (\<And>t. t_id (f t) = t_id t \<and> t_schema (f t) = t_schema t \<and> t_schema_version (f t) = t_schema_version t \<and>
      t_spec (f t) = t_spec t \<and> t_spec_version (f t) = t_spec_version t) \<Longrightarrow>
   records K db sq db' sq'"
  by (rule records_update_live [of _ _ _ name f]) simp_all

lemma rename_records: "rename_effect old new db db' \<Longrightarrow> seq_le sq sq' \<Longrightarrow> records K db sq db' sq'"
  unfolding rename_effect_def by (elim exE conjE, rule records_live, assumption+) simp

lemma soft_drop_records: "soft_drop_effect name db db' \<Longrightarrow> seq_le sq sq' \<Longrightarrow> records K db sq db' sq'"
  unfolding soft_drop_effect_def by (elim exE conjE, rule records_live, assumption+) simp

lemma txns_records:
  "seq_le sq sq' \<Longrightarrow> txn_tables db \<subseteq> txn_tables (db\<lparr>d_txns := x\<rparr>) \<Longrightarrow> records K db sq (db\<lparr>d_txns := x\<rparr>) sq'"
  by (rule records_keep) (auto simp: history_of_def specs_of_def dropped_def)

lemma purge_records:
  assumes inv: "db_inv db sq" and eff: "purge_effect name db db'" and le: "seq_le sq sq'"
  shows "records K db sq db' sq'"
proof -
  obtain t where t: "live_table name db = Some t" and db': "db' = purge_db (t_id t) name db"
    using eff by (auto simp: purge_effect_def)
  have dist: "distinct (map t_name (d_tables db))" "distinct (map t_id (d_tables db))"
    using inv by (auto simp: db_inv_def store_inv_def heads_def comp_def dest: ids_upto_distinct)
  have t': "t \<in> set (d_tables db)" "t_name t = name" "\<not> t_deleted t" using live_table_Some [OF t] by simp_all
  have other: "t_id x \<noteq> t_id t" if "x \<in> set (d_tables db)" "t_name x \<noteq> name" for x
    using that t' dist(2) by (metis distinct_map inj_onD)
  have keep: "x \<noteq> t \<Longrightarrow> t_name x \<noteq> name" if "x \<in> set (d_tables db)" for x
    using that t' dist(1) by (metis distinct_map inj_onD)
  show ?thesis
  proof (rule records_keep [OF le])
    show "dropped db \<subseteq> dropped db'" using keep t'(3) by (auto simp: dropped_def db' purge_db_def)
    fix x assume "x \<in> set (d_tables db')"
    then have "x \<in> set (d_tables db)" "t_id x \<noteq> t_id t" using other by (auto simp: db' purge_db_def)
    then show "\<exists>t \<in> set (d_tables db). t_id x = t_id t \<and> t_schema x = t_schema t \<and>
        t_schema_version x = t_schema_version t \<and> t_spec x = t_spec t \<and> t_spec_version x = t_spec_version t"
      "history_of (t_id x) db' = history_of (t_id x) db \<and> specs_of (t_id x) db' = specs_of (t_id x) db"
      by (auto simp: history_of_def specs_of_def db' purge_db_def intro!: filter_cong)
  qed (auto simp: db' purge_db_def txn_tables_def)
qed

text \<open>A new version of a table: its row and the history row agree.\<close>

lemma live_unique:
  assumes "db_inv db sq" "live_table name db = Some t" "x \<in> set (d_tables db)"
  shows "is_live name x \<longleftrightarrow> x = t" "t_id x = t_id t \<longleftrightarrow> x = t"
proof -
  have "distinct (map t_name (d_tables db))" "distinct (map t_id (d_tables db))"
    using assms(1) by (auto simp: db_inv_def store_inv_def heads_def comp_def dest: ids_upto_distinct)
  then show "is_live name x \<longleftrightarrow> x = t" "t_id x = t_id t \<longleftrightarrow> x = t"
    using live_table_Some [OF assms(2)] assms(3) by (auto simp: is_live_def distinct_map dest: inj_onD)
qed

lemma live_id_le: "db_inv db sq \<Longrightarrow> t \<in> set (d_tables db) \<Longrightarrow> t_id t \<le> q_table sq"
  by (force simp: db_inv_def store_inv_def heads_def ids_upto_def)

lemma alter_schema_records:
  assumes inv: "db_inv db sq" and eff: "alter_schema_effect E sq name schema m db db'" and le: "seq_le sq sq'"
  shows "records K db sq db' sq'"
proof -
  obtain t s now where t: "live_table name db = Some t" and db': "db' = (snd (update_live name
      (\<lambda>t'. t'\<lparr>t_schema := s, t_schema_version := int32_of (t_schema_version t + 1), t_updated_at := now\<rparr>) db))
      \<lparr>d_history := d_history db @ [new_history (q_history sq + 1) (t_id t) (int32_of (t_schema_version t + 1)) s m now]\<rparr>"
    using eff unfolding alter_schema_effect_def Let_def by blast
  let ?f = "\<lambda>x. if x = t then t\<lparr>t_schema := s, t_schema_version := int32_of (t_schema_version t + 1), t_updated_at := now\<rparr> else x"
  let ?h = "new_history (q_history sq + 1) (t_id t) (int32_of (t_schema_version t + 1)) s m now"
  have tabs: "set (d_tables db') = ?f ` set (d_tables db)"
    by (auto simp: db' update_live_def live_unique(1) [OF inv t])
  have specs: "d_specs db' = d_specs db" "d_txns db' = d_txns db" by (simp_all add: db')
  have hist: "history_of tid db' = history_of tid db @ (if tid = t_id t then [?h] else [])" for tid
    by (simp add: history_of_def db' new_history_def)
  have q: "q_table sq \<le> q_table sq'" using le by (simp add: seq_le_def)
  have t': "t \<in> set (d_tables db)" using live_table_Some [OF t] by simp
  have "versions_ok db' sq'" if "versions_ok db sq"
    unfolding versions_ok_def
  proof (intro conjI ballI)
    fix x' assume "x' \<in> set (d_tables db')"
    then obtain x where x: "x \<in> set (d_tables db)" "x' = ?f x" unfolding tabs by blast
    then have ok: "schema_current x (history_of (t_id x) db)" "spec_current x (specs_of (t_id x) db)"
      using that by (simp_all add: versions_ok_def)
    have "t_id x' = t_id x" "t_spec x' = t_spec x" "t_spec_version x' = t_spec_version x" by (simp_all add: x(2))
    with ok(2) show "spec_current x' (specs_of (t_id x') db')"
      using current_cong(2) [of x' x] by (simp add: specs_of_def specs)
    show "schema_current x' (history_of (t_id x') db')"
    proof (cases "x = t")
      case True
      then show ?thesis using ok(1) by (simp add: x(2) hist schema_current_snoc new_history_def)
    next
      case False
      then show ?thesis using ok(1) live_unique(2) [OF inv t x(1)] by (simp add: x(2) hist)
    qed
  qed (use that q live_id_le [OF inv t'] in \<open>force simp: versions_ok_def specs db' new_history_def\<close>)+
  moreover have "spec_chains db'" if "spec_chains db"
    using that unfolding spec_chains_def tabs by (auto simp: specs_of_def specs)
  moreover have "dropped db \<subseteq> dropped db'"
    using live_table_Some [OF t] by (auto simp: dropped_def tabs)
  ultimately show ?thesis by (simp add: records_def txn_tables_def specs)
qed

lemma spec_follows_trans:
  assumes "spec_follows a b" "spec_follows b c"
  shows "spec_follows a c"
  using assms unfolding spec_follows_def by (metis option.inject spec_evolves_trans)

lemma alter_spec_records:
  assumes inv: "db_inv db sq" and eff: "alter_spec_effect E sq name spec m db db'" and le: "seq_le sq sq'"
    and valid: "\<And>t s. K \<Longrightarrow> live_table name db = Some t \<Longrightarrow> pe_jsonb E spec = Some s \<Longrightarrow> spec_follows (t_spec t) s"
  shows "records K db sq db' sq'"
proof -
  obtain t s now where t: "live_table name db = Some t" and s: "pe_jsonb E spec = Some s"
    and db': "db' = (snd (update_live name
      (\<lambda>t'. t'\<lparr>t_spec := s, t_spec_version := int32_of (t_spec_version t + 1), t_updated_at := now\<rparr>) db))
      \<lparr>d_specs := d_specs db @ [new_spec (q_spec sq + 1) (t_id t) (int32_of (t_spec_version t + 1)) s m now]\<rparr>"
    using eff unfolding alter_spec_effect_def Let_def by blast
  let ?f = "\<lambda>x. if x = t then t\<lparr>t_spec := s, t_spec_version := int32_of (t_spec_version t + 1), t_updated_at := now\<rparr> else x"
  let ?g = "new_spec (q_spec sq + 1) (t_id t) (int32_of (t_spec_version t + 1)) s m now"
  have tabs: "set (d_tables db') = ?f ` set (d_tables db)"
    by (auto simp: db' update_live_def live_unique(1) [OF inv t])
  have hist: "d_history db' = d_history db" "d_txns db' = d_txns db" by (simp_all add: db')
  have specs: "specs_of tid db' = specs_of tid db @ (if tid = t_id t then [?g] else [])" for tid
    by (simp add: specs_of_def db' new_spec_def)
  have q: "q_table sq \<le> q_table sq'" using le by (simp add: seq_le_def)
  have t': "t \<in> set (d_tables db)" using live_table_Some [OF t] by simp
  have "versions_ok db' sq'" if "versions_ok db sq"
    unfolding versions_ok_def
  proof (intro conjI ballI)
    fix x' assume "x' \<in> set (d_tables db')"
    then obtain x where x: "x \<in> set (d_tables db)" "x' = ?f x" unfolding tabs by blast
    then have ok: "schema_current x (history_of (t_id x) db)" "spec_current x (specs_of (t_id x) db)"
      using that by (simp_all add: versions_ok_def)
    have "t_id x' = t_id x" "t_schema x' = t_schema x" "t_schema_version x' = t_schema_version x" by (simp_all add: x(2))
    with ok(1) show "schema_current x' (history_of (t_id x') db')"
      using current_cong(1) [of x' x] by (simp add: history_of_def hist)
    show "spec_current x' (specs_of (t_id x') db')"
    proof (cases "x = t")
      case True
      then show ?thesis using ok(2) by (simp add: x(2) specs spec_current_snoc new_spec_def)
    next
      case False
      then show ?thesis using ok(2) live_unique(2) [OF inv t x(1)] by (simp add: x(2) specs)
    qed
  qed (use that q live_id_le [OF inv t'] in \<open>force simp: versions_ok_def hist db' new_spec_def\<close>)+
  moreover have "spec_chains db'" if "K" "versions_ok db sq" "spec_chains db"
    unfolding spec_chains_def tabs
  proof
    fix x' assume "x' \<in> ?f ` set (d_tables db)"
    then obtain x where x: "x \<in> set (d_tables db)" "t_id x' = t_id x" by auto
    have chain: "sorted_wrt (\<lambda>a b. spec_follows (g_spec a) (g_spec b)) (specs_of (t_id x) db)"
      using that(3) x(1) by (simp add: spec_chains_def)
    show "sorted_wrt (\<lambda>a b. spec_follows (g_spec a) (g_spec b)) (specs_of (t_id x') db')"
    proof (cases "x = t")
      case False
      then show ?thesis using chain live_unique(2) [OF inv t x(1)] by (simp add: x(2) specs)
    next
      case True
      let ?gs = "specs_of (t_id t) db"
      have last: "?gs \<noteq> [] \<longrightarrow> g_spec (last ?gs) = t_spec t"
        using that(2) t' by (simp add: versions_ok_def spec_current_def)
      have new: "spec_follows (t_spec t) s" using valid [OF that(1) t s] .
      have "\<forall>g \<in> set ?gs. spec_follows (g_spec g) s"
      proof (cases ?gs rule: rev_cases)
        case (snoc ys l)
        then have "\<forall>g \<in> set ys. spec_follows (g_spec g) (t_spec t)" "g_spec l = t_spec t"
          using chain True last by (simp_all add: sorted_wrt_append)
        with new snoc show ?thesis using spec_follows_trans by auto
      qed simp
      then show ?thesis using chain True by (simp add: x(2) specs sorted_wrt_append new_spec_def)
    qed
  qed
  moreover have "dropped db \<subseteq> dropped db'"
    using live_table_Some [OF t] by (auto simp: dropped_def tabs)
  ultimately show ?thesis by (simp add: records_def txn_tables_def hist)
qed

lemma create_records:
  assumes inv: "db_inv db sq" and eff: "create_effect E sq name schema spec props db db'"
    and le: "seq_le sq sq'" and new: "q_table sq < q_table sq'"
  shows "records K db sq db' sq'"
proof -
  let ?i = "q_table sq + 1"
  obtain s g p now where tabs: "d_tables db' = d_tables db @ [new_table ?i name s g p now]"
    and specs: "d_specs db' = d_specs db @
      (if spec = [] \<or> spec = ''null'' then [] else [new_spec (q_spec sq + 1) ?i 1 g ''initial spec'' now])"
    and rest: "d_history db' = d_history db" "d_txns db' = d_txns db"
    using eff unfolding create_effect_def by auto
  have ids: "t_id t \<noteq> ?i" if "t \<in> set (d_tables db)" for t using live_id_le [OF inv that] by simp
  have old: "history_of (t_id t) db' = history_of (t_id t) db \<and> specs_of (t_id t) db' = specs_of (t_id t) db"
    if "t \<in> set (d_tables db)" for t
    using ids [OF that] by (simp add: history_of_def specs_of_def specs rest new_spec_def)
  have fresh: "history_of ?i db' = []" "specs_of ?i db' =
      (if spec = [] \<or> spec = ''null'' then [] else [new_spec (q_spec sq + 1) ?i 1 g ''initial spec'' now])"
    if "versions_ok db sq"
  proof -
    have "\<forall>h \<in> set (d_history db). h_table h \<noteq> ?i" "\<forall>h \<in> set (d_specs db). g_table h \<noteq> ?i"
      using that by (force simp: versions_ok_def)+
    then show "history_of ?i db' = []" "specs_of ?i db' =
      (if spec = [] \<or> spec = ''null'' then [] else [new_spec (q_spec sq + 1) ?i 1 g ''initial spec'' now])"
      by (simp_all add: history_of_def specs_of_def specs rest filter_empty_conv new_spec_def)
  qed
  have one: "int32_of 1 = 1" by (simp add: in_int32_def)
  have "versions_ok db' sq'" if ok: "versions_ok db sq"
    unfolding versions_ok_def
  proof (intro conjI ballI)
    fix t assume "t \<in> set (d_tables db')"
    then consider "t \<in> set (d_tables db)" | "t = new_table ?i name s g p now" by (auto simp: tabs)
    then have "schema_current t (history_of (t_id t) db') \<and> spec_current t (specs_of (t_id t) db')"
    proof cases
      case 1
      then show ?thesis using ok old [OF 1] by (simp add: versions_ok_def)
    next
      case 2
      have i: "t_id t = ?i" by (simp add: 2 new_table_def)
      show ?thesis unfolding i fresh [OF ok]
        by (simp add: 2 new_table_def new_spec_def schema_current_def spec_current_def one counted_def)
    qed
    then show "schema_current t (history_of (t_id t) db')" "spec_current t (specs_of (t_id t) db')" by blast+
  qed (use ok le new in \<open>force simp: versions_ok_def rest specs new_spec_def seq_le_def split: if_splits\<close>)+
  moreover have "spec_chains db'" if ok: "versions_ok db sq" "spec_chains db"
    unfolding spec_chains_def
  proof
    fix t assume "t \<in> set (d_tables db')"
    then consider "t \<in> set (d_tables db)" | "t_id t = ?i" by (auto simp: tabs new_table_def)
    then show "sorted_wrt (\<lambda>a b. spec_follows (g_spec a) (g_spec b)) (specs_of (t_id t) db')"
    proof cases
      case 1
      then show ?thesis using ok(2) old [OF 1] by (simp add: spec_chains_def)
    next
      case 2
      show ?thesis unfolding 2 fresh [OF ok(1)] by simp
    qed
  qed
  ultimately show ?thesis by (auto simp: records_def dropped_def txn_tables_def tabs rest)
qed

end
