(* ===== verification/Db_Evolution.thy ===== *)
theory Db_Evolution
  imports Version_History "HOL-Library.Sublist"
begin

text \<open>
  How the database may change over time, whatever the requests are: ids are never reused, the
  snapshots of a table that still exists are only extended, and its rows at the snapshots that
  existed are the same for ever; the records of the past are kept in the sense of \<open>records\<close>.
  \<open>moves K X\<close> adds that the views of the tables outside \<open>X\<close> are kept.
\<close>

definition table_ids :: "database \<Rightarrow> int64 set" where
  "table_ids db = t_id ` set (d_tables db)"

definition evolves :: "bool \<Rightarrow> database \<Rightarrow> sequences \<Rightarrow> database \<Rightarrow> sequences \<Rightarrow> bool" where
  "evolves K db sq db' sq' \<longleftrightarrow> seq_le sq sq' \<and> records K db sq db' sq' \<and>
     (\<forall>tid \<in> table_ids db'. tid \<le> q_table sq \<longrightarrow>
        tid \<in> table_ids db \<and>
        prefix (snapshots_of tid (d_snapshots db)) (snapshots_of tid (d_snapshots db')) \<and>
        (\<forall>m \<le> q_snapshot sq. rows_at tid m db' = rows_at tid m db))"

lemma evolves_refl [simp]: "evolves K db sq db sq"
  by (simp add: evolves_def records_refl)

lemma evolves_trans:
  assumes "evolves K a sa b sb" "evolves K b sb c sc"
  shows "evolves K a sa c sc"
  unfolding evolves_def
proof (intro conjI ballI impI)
  have le: "seq_le sa sb" "seq_le sb sc" using assms by (simp_all add: evolves_def)
  then have q: "q_table sa \<le> q_table sb" "q_snapshot sa \<le> q_snapshot sb" by (simp_all add: seq_le_def)
  show "seq_le sa sc" by (rule seq_le_trans [OF le])
  show "records K a sa c sc" using assms records_trans unfolding evolves_def by blast
  fix tid assume t: "tid \<in> table_ids c" "tid \<le> q_table sa"
  then have 2: "tid \<in> table_ids b" "prefix (snapshots_of tid (d_snapshots b)) (snapshots_of tid (d_snapshots c))"
    "\<forall>m \<le> q_snapshot sb. rows_at tid m c = rows_at tid m b"
    using assms(2) q(1) unfolding evolves_def by force+
  then have 1: "tid \<in> table_ids a" "prefix (snapshots_of tid (d_snapshots a)) (snapshots_of tid (d_snapshots b))"
    "\<forall>m \<le> q_snapshot sa. rows_at tid m b = rows_at tid m a"
    using assms(1) t(2) unfolding evolves_def by force+
  show "tid \<in> table_ids a" by fact
  show "prefix (snapshots_of tid (d_snapshots a)) (snapshots_of tid (d_snapshots c))"
    using 1(2) 2(2) by (rule prefix_order.trans)
  show "\<forall>m \<le> q_snapshot sa. rows_at tid m c = rows_at tid m a"
    using 1(3) 2(3) q(2) by simp
qed

text \<open>A change of the tables alone: no new ids, the same snapshots and partitions.\<close>

lemma evolves_tables:
  assumes "seq_le sq sq'" "records K db sq db' sq'" "\<And>tid. tid \<in> table_ids db' \<Longrightarrow> tid \<le> q_table sq \<Longrightarrow> tid \<in> table_ids db"
    and "d_snapshots db' = d_snapshots db" "d_partitions db' = d_partitions db"
  shows "evolves K db sq db' sq'"
  using assms rows_at_cong [OF assms(5)] unfolding evolves_def by simp

lemma table_ids_heads: "table_ids db = fst ` set (heads db)"
  by (force simp: table_ids_def heads_def)

lemma same_store_evolves: "same_store db db' \<Longrightarrow> seq_le sq sq' \<Longrightarrow> records K db sq db' sq' \<Longrightarrow> evolves K db sq db' sq'"
  by (rule evolves_tables) (simp_all add: same_store_def table_ids_heads)

definition moves :: "bool \<Rightarrow> string set \<Rightarrow> database \<Rightarrow> sequences \<Rightarrow> database \<Rightarrow> sequences \<Rightarrow> bool" where
  "moves K X db sq db' sq' \<longleftrightarrow> keeps_views X db db' \<and> evolves K db sq db' sq'"

lemma moves_same: "seq_le sq sq' \<Longrightarrow> moves K X db sq db sq'"
  using same_store_evolves [of db db] by (simp add: moves_def same_store_def keeps_views_def records_refl)

lemma moves_mono: "X \<subseteq> Y \<Longrightarrow> moves K X db sq db' sq' \<Longrightarrow> moves K Y db sq db' sq'"
  unfolding moves_def keeps_views_def by blast

lemma create_moves:
  assumes inv: "db_inv db sq" "db_inv db' sq'"
    and eff: "create_effect E sq name schema spec props db db'" and le: "seq_le sq sq'"
  shows "moves K {} db sq db' sq'"
proof -
  have "\<exists>t \<in> set (d_tables db'). t_id t = q_table sq + 1"
    using eff by (auto simp: create_effect_def new_table_def)
  then have "q_table sq < q_table sq'" using live_id_le [OF inv(2)] by fastforce
  from create_records [OF inv(1) eff le this] have "evolves K db sq db' sq'"
    using eff le by (intro evolves_tables) (auto simp: create_effect_def table_ids_def new_table_def)
  then show ?thesis using create_views [OF eff] by (simp add: moves_def)
qed

lemma alter_spec_moves:
  assumes "db_inv db sq" "alter_spec_effect E sq name spec m db db'" "seq_le sq sq'"
    and "\<And>t s. K \<Longrightarrow> live_table name db = Some t \<Longrightarrow> pe_jsonb E spec = Some s \<Longrightarrow> spec_follows (t_spec t) s"
  shows "moves K {} db sq db' sq'"
  using alter_spec_views [OF assms(2)] alter_spec_same [OF assms(2)] same_store_evolves [OF _ assms(3)]
    alter_spec_records [OF assms] unfolding moves_def by blast

lemma alter_schema_moves:
  assumes "db_inv db sq" "alter_schema_effect E sq name schema m db db'" "seq_le sq sq'"
  shows "moves K {} db sq db' sq'"
  using alter_schema_views [OF assms(2)] alter_schema_same [OF assms(2)] same_store_evolves [OF _ assms(3)]
    alter_schema_records [OF assms] unfolding moves_def by blast

lemma rename_moves:
  "rename_effect old new db db' \<Longrightarrow> seq_le sq sq' \<Longrightarrow> moves K {old, new} db sq db' sq'"
  using rename_views rename_same same_store_evolves rename_records unfolding moves_def by blast

lemma soft_drop_moves: "soft_drop_effect name db db' \<Longrightarrow> seq_le sq sq' \<Longrightarrow> moves K {name} db sq db' sq'"
  using soft_drop_views soft_drop_same same_store_evolves soft_drop_records unfolding moves_def by blast

lemma txns_moves:
  "seq_le sq sq' \<Longrightarrow> txn_tables db \<subseteq> txn_tables (db\<lparr>d_txns := x\<rparr>) \<Longrightarrow> moves K {} db sq (db\<lparr>d_txns := x\<rparr>) sq'"
  using same_store_evolves [of db "db\<lparr>d_txns := x\<rparr>"] txns_records [of sq sq' db x]
  by (simp add: moves_def same_store_def keeps_views_def partitions_at_rows live_table_def rows_at_def
      visible_rows_def)

lemma commit_moves:
  assumes inv: "db_inv db sq" "db_inv db' sq'"
    and eff: "commit_effect E sq name specver parent opn parts keys db db'" and le: "seq_le sq sq'"
  shows "moves K {name} db sq db' sq'"
proof -
  obtain now where tabs: "d_tables db' = d_tables (snd (update_live name
     (\<lambda>t. t\<lparr>t_snapshot := q_snapshot sq + 1, t_updated_at := now\<rparr>) db))"
    by (rule commit_tables [OF eff])
  have "map t_id (d_tables db') = map t_id (d_tables db)"
    unfolding tabs update_live_def by simp
  then have ids: "table_ids db' = table_ids db" unfolding table_ids_def by (metis set_map)
  obtain s where ss: "d_snapshots db' = d_snapshots db @ [s]"
    using eff unfolding commit_effect_def Let_def by auto
  have "evolves K db sq db' sq'"
    using le commit_keeps_rows [OF inv eff] commit_records [OF eff le] by (simp add: evolves_def ss ids)
  then show ?thesis using commit_views [OF inv eff] by (simp add: moves_def)
qed

lemma purge_moves:
  assumes inv: "db_inv db sq" and eff: "purge_effect name db db'" and le: "seq_le sq sq'"
  shows "moves K {name} db sq db' sq'"
proof -
  obtain t where t: "live_table name db = Some t" and db': "db' = purge_db (t_id t) name db"
    using eff by (auto simp: purge_effect_def)
  have hs: "heads db' = filter (\<lambda>h. fst h \<noteq> t_id t) (heads db)"
    unfolding db' using inv t by (intro heads_purge [of _ "q_table sq"]) (auto simp: db_inv_def store_inv_def)
  then have ids: "table_ids db' = table_ids db - {t_id t}" by (auto simp: table_ids_heads)
  have "snapshots_of tid (d_snapshots db') = snapshots_of tid (d_snapshots db)" if "tid \<noteq> t_id t" for tid
    using that by (auto simp: db' purge_db_def snapshots_of_def intro!: filter_cong)
  then have "evolves K db sq db' sq'"
    using le purge_rows_at purge_records [OF inv eff le] unfolding evolves_def ids unfolding db' by simp
  then show ?thesis using purge_views [OF inv eff] by (simp add: moves_def)
qed

lemma drop_moves:
  assumes "db_inv db sq" "drop_effect purge name db db'" "seq_le sq sq'"
  shows "moves K {name} db sq db' sq'"
  using assms(2) soft_drop_moves [OF _ assms(3)] purge_moves [OF assms(1) _ assms(3)]
  unfolding drop_effect_def by (simp split: if_splits)

end
