(* ===== verification/Catalog_System.thy ===== *)
theory Catalog_System
  imports Metadata_Server Db_Evolution
begin

text \<open>
  Every handler keeps the invariant. \<open>act_ok\<close> is a small total-correctness logic of handlers with their
  locks; \<open>good\<close> is the invariant of the server, and the \<open>X_keeps\<close> lemmas show for each handler that from
  a good state it returns in a good state with all locks released.
\<close>

subsection \<open>A logic of handlers\<close>

text \<open>
  From idle locks and a core that satisfies \<open>P\<close>, the handler returns, the locks are idle again and
  \<open>Q\<close> holds of its result and the core.
\<close>

definition act_ok :: "(core \<Rightarrow> bool) \<Rightarrow> 'r act \<Rightarrow> ('r \<Rightarrow> core \<Rightarrow> bool) \<Rightarrow> bool" where
  "act_ok P m Q \<longleftrightarrow> (\<forall>s. idle (sys_locks s) \<longrightarrow> P (sys_core s) \<longrightarrow>
     (\<exists>r s'. m s = Some (r, s') \<and> idle (sys_locks s') \<and> Q r (sys_core s')))"

named_theorems act_rules

lemma act_ok_ret: "(\<And>c. P c \<Longrightarrow> Q r c) \<Longrightarrow> act_ok P (act_ret r) Q"
  by (simp add: act_ok_def act_ret_def)

lemma act_ok_then:
  "act_ok P m R \<Longrightarrow> (\<And>x. act_ok (R x) (k x) Q) \<Longrightarrow> act_ok P (act_then m k) Q"
  unfolding act_ok_def act_then_def by fastforce

lemma act_ok_unlocked: "hoare P m Q \<Longrightarrow> act_ok P (unlocked m) Q"
  by (auto simp: act_ok_def unlocked_def hoare_def split: prod.split)

lemma act_ok_locks:
  assumes "distinct (map snd ts)" "hoare P m Q"
  shows "act_ok P (with_locks ts m) Q"
  unfolding act_ok_def
proof (intro allI impI)
  fix s :: sys
  assume s: "idle (sys_locks s)" "P (sys_core s)"
  from with_locks_run [OF s(1) assms(1), of m] obtain lk where "idle lk"
    "with_locks ts m s = Some (fst (m (sys_core s)), \<lparr>sys_locks = lk, sys_core = snd (m (sys_core s))\<rparr>)"
    by blast
  then show "\<exists>r s'. with_locks ts m s = Some (r, s') \<and> idle (sys_locks s') \<and> Q r (sys_core s')"
    using s(2) assms(2) by (simp add: hoare_def)
qed

lemma act_ok_internal_or:
  assumes "act_ok P m R" "\<And>e c. R (Inl e) c \<Longrightarrow> Q (grpc Internal (pe_error (se_pg S) e)) c"
    and "\<And>x. act_ok (R (Inr x)) (k x) Q"
  shows "act_ok P (internal_or S m k) Q"
  unfolding internal_or_def using assms
  by (intro act_ok_then [where R = R]) (auto split: sum.split intro!: act_ok_ret)

lemma act_ok_post: "act_ok P m Q \<Longrightarrow> (\<And>r c. Q r c \<Longrightarrow> Q' r c) \<Longrightarrow> act_ok P m Q'"
  unfolding act_ok_def by blast

lemma act_ok_pre: "act_ok P m Q \<Longrightarrow> (\<And>c. P' c \<Longrightarrow> P c) \<Longrightarrow> act_ok P' m Q"
  unfolding act_ok_def by blast

lemma act_okD:
  assumes "act_ok P m Q" "idle (sys_locks s)" "P (sys_core s)"
  obtains r s' where "m s = Some (r, s')" "idle (sys_locks s')" "Q r (sys_core s')"
  using assms unfolding act_ok_def by blast

text \<open>An invariant: the same predicate before and after.\<close>

abbreviation keeps :: "(core \<Rightarrow> bool) \<Rightarrow> 'r act \<Rightarrow> bool" where
  "keeps P m \<equiv> act_ok P m (\<lambda>_. P)"

lemma keeps_ret [act_rules]: "keeps P (act_ret r)"
  by (rule act_ok_ret)

lemma keeps_then [act_rules]: "keeps P m \<Longrightarrow> (\<And>x. keeps P (k x)) \<Longrightarrow> keeps P (act_then m k)"
  by (rule act_ok_then)

lemma keeps_internal_or [act_rules]: "keeps P m \<Longrightarrow> (\<And>x. keeps P (k x)) \<Longrightarrow> keeps P (internal_or S m k)"
  by (rule act_ok_internal_or)

lemma keeps_if [act_rules]: "(b \<Longrightarrow> keeps P m) \<Longrightarrow> (\<not> b \<Longrightarrow> keeps P m') \<Longrightarrow> keeps P (if b then m else m')"
  by simp

lemma keeps_option [act_rules]:
  "keeps P m \<Longrightarrow> (\<And>x. keeps P (k x)) \<Longrightarrow> keeps P (case y of None \<Rightarrow> m | Some x \<Rightarrow> k x)"
  by (cases y) simp_all

lemma keeps_sum [act_rules]:
  "(\<And>e. keeps P (h e)) \<Longrightarrow> (\<And>x. keeps P (k x)) \<Longrightarrow> keeps P (case r of Inl e \<Rightarrow> h e | Inr x \<Rightarrow> k x)"
  by (cases r) simp_all

lemma keeps_prod [act_rules]: "(\<And>x y. keeps P (k x y)) \<Longrightarrow> keeps P (case p of (x, y) \<Rightarrow> k x y)"
  by (cases p) simp_all

subsection \<open>Methods that only read\<close>

definition reads :: "(pg \<Rightarrow> 'r \<times> pg) \<Rightarrow> bool" where
  "reads m \<longleftrightarrow> (\<forall>w. same_db w (snd (m w)))"

named_theorems read_rules

lemma reads_ret [read_rules]: "reads (ret r)"
  by (simp add: reads_def ret_def)

lemma reads_no_rows [read_rules]: "reads (on_no_rows n e)"
  by (simp add: on_no_rows_def reads_ret)

lemma reads_on_err [read_rules]:
  assumes "reads m" "\<And>e. reads (h e)" "\<And>x. reads (k x)"
  shows "reads (on_err m h k)"
  unfolding reads_def
proof
  fix w
  obtain r w' where run: "on_err m h k w = (r, w')" by (cases "on_err m h k w")
  then have "same_db w w'"
  proof (cases rule: on_err_cases)
    case (err e w1)
    have "same_db w w1" "same_db w1 w'"
      using assms(1,2) err unfolding reads_def by (metis snd_conv)+
    then show ?thesis by (rule same_db_trans)
  next
    case (ok x w1)
    have "same_db w w1" "same_db w1 w'"
      using assms(1,3) ok unfolding reads_def by (metis snd_conv)+
    then show ?thesis by (rule same_db_trans)
  qed
  with run show "same_db w (snd (on_err m h k w))" by simp
qed

lemma reads_if [read_rules]: "(b \<Longrightarrow> reads m) \<Longrightarrow> (\<not> b \<Longrightarrow> reads m') \<Longrightarrow> reads (if b then m else m')"
  by simp

lemma reads_Let [read_rules]: "reads (k v) \<Longrightarrow> reads (let x = v in k x)"
  by simp

lemma reads_scan_row [read_rules]: "reads m \<Longrightarrow> reads (scan_row m)"
  by (auto simp: reads_def scan_row_def split: prod.split sum.split option.split) (metis snd_conv)+

lemma reads_query: "reads (pool_exec E texts (query f))"
  unfolding reads_def by (metis pool_query prod.collapse)

lemmas sql_queries =
  sql_select_table_def sql_select_table_id_def sql_select_snapshot_pointer_def
  sql_select_spec_version_def sql_partitions_def sql_partitions_paged_def sql_count_partitions_def
  sql_select_snapshot_def sql_list_snapshots_def sql_select_manifest_list_def
  sql_list_manifest_files_def sql_select_manifest_file_def sql_select_spec_def sql_list_specs_def
  sql_select_history_def sql_list_history_def

lemma reads_sql [read_rules]:
  "reads (pool_exec E x (sql_select_table name))" "reads (pool_exec E x (sql_select_table_id name))"
  "reads (pool_exec E x (sql_select_snapshot_pointer name))"
  "reads (pool_exec E x (sql_select_spec_version name))" "reads (pool_exec E x (sql_partitions i n))"
  "reads (pool_exec E x (sql_partitions_paged i n j l))" "reads (pool_exec E x (sql_count_partitions i n))"
  "reads (pool_exec E x (sql_select_snapshot i n))" "reads (pool_exec E x (sql_list_snapshots i l))"
  "reads (pool_exec E x (sql_select_manifest_list n i))" "reads (pool_exec E x (sql_list_manifest_files n))"
  "reads (pool_exec E x (sql_select_manifest_file j name))" "reads (pool_exec E x (sql_select_spec i v))"
  "reads (pool_exec E x (sql_list_specs i))" "reads (pool_exec E x (sql_select_history i v))"
  "reads (pool_exec E x (sql_list_history i))"
  unfolding sql_queries by (rule reads_query)+

lemma reads_list_tables [read_rules]: "reads (pool_exec E x (sql_list_tables l off))"
  by (auto simp: reads_def pool_exec_def sql_list_tables_def query_def same_db_def pg_next_def
      split: if_splits)

lemmas pg_read_defs =
  pg_GetTable_def pg_GetTableID_def pg_ListTables_def pg_GetCurrentSnapshot_def
  pg_GetTableSpecVersion_def pg_QueryPartitions_def pg_QueryPartitionsPaged_def
  pg_GetVisiblePartitionCount_def pg_GetColumnStatsForSnapshot_def pg_GetManifestList_def
  pg_GetManifestFile_def pg_GetSnapshot_def pg_ListSnapshots_def pg_GetPartitionSpecByVersion_def
  pg_ListPartitionSpecHistory_def

lemma reads_pg [read_rules]:
  "reads (pg_GetTable E name)" "reads (pg_GetTableID E name)" "reads (pg_ListTables E ns l tok)"
  "reads (pg_GetCurrentSnapshot E name)" "reads (pg_GetTableSpecVersion E name)"
  "reads (pg_QueryPartitions E name n)" "reads (pg_QueryPartitionsPaged E name n l j)"
  "reads (pg_GetVisiblePartitionCount E name n)" "reads (pg_GetColumnStatsForSnapshot E name n)"
  "reads (pg_GetManifestList E name n)" "reads (pg_GetManifestFile E name j)"
  "reads (pg_GetSnapshot E name n)" "reads (pg_ListSnapshots E name l)"
  "reads (pg_GetPartitionSpecByVersion E i v)" "reads (pg_ListPartitionSpecHistory E i)"
  unfolding pg_read_defs by (intro read_rules)+

lemma reads_bodies [read_rules]:
  "reads (resolveSnapshot E name n)" "reads (GetPartitionsPaged_locked E name n l j)"
  "reads (GetStats_locked E name)" "reads (GetCurrentSchema_locked E name)"
  "reads (GetSchemaAtVersion_locked E name v)" "reads (ListSchemaHistory_locked E name)"
  "reads (GetCurrentSpec_locked E name)" "reads (GetSpecAtVersion_locked E name v)"
  "reads (ListSpecHistory_locked E name)"
  unfolding resolveSnapshot_def GetPartitionsPaged_locked_def GetStats_locked_def
    GetCurrentSchema_locked_def GetSchemaAtVersion_locked_def ListSchemaHistory_locked_def
    GetCurrentSpec_locked_def GetSpecAtVersion_locked_def ListSpecHistory_locked_def
  by (intro read_rules)+

subsection \<open>The invariant\<close>

text \<open>
  \<^verbatim>\<open>jsonb\<close> keeps the meaning of the spec texts that \<^verbatim>\<open>AlterTable\<close> writes: it may
  change the spacing and the order of the keys of an object, and these texts have no repeated key.
\<close>

definition specs_kept :: "pg_env \<Rightarrow> bool" where
  "specs_kept E \<longleftrightarrow> (\<forall>p s. pe_jsonb E (proposed_json p) = Some s \<longrightarrow> unmarshalSpec s = unmarshalSpec (proposed_json p))"

text \<open>
  \<open>good_but X S b\<close>: no transaction is open on the connection, the database, the cache and the
  transaction table satisfy their invariants, active transactions have ids of the database, and,
  unless the answer of a commit can be lost, the cache is coherent outside the tables \<open>X\<close>. The
  database has evolved from the earlier state \<open>b\<close>.
\<close>

definition txns_known :: "mvcc \<Rightarrow> sequences \<Rightarrow> bool" where
  "txns_known m sq \<longleftrightarrow> 0 \<le> q_txn sq \<and>
     (\<forall>k \<in> fst ` set (activeTransactions m). int64_of_uint64 k \<le> q_txn sq)"

definition good_but :: "string set \<Rightarrow> server_env \<Rightarrow> database \<times> sequences \<Rightarrow> core \<Rightarrow> bool" where
  "good_but X S b c \<longleftrightarrow>
     evolves (specs_kept (se_pg S)) (fst b) (snd b) (pg_db (c_pg c)) (pg_seq (c_pg c)) \<and>
     pg_tx (c_pg c) = None \<and> db_inv (pg_db (c_pg c)) (pg_seq (c_pg c)) \<and>
     lru_inv (c_cache c) \<and> mvcc_inv (c_mvcc c) \<and> txns_known (c_mvcc c) (pg_seq (c_pg c)) \<and>
     (acks_lost (se_pg S) \<or> coherent_but X (pg_db (c_pg c)) (c_cache c))"

abbreviation good :: "server_env \<Rightarrow> database \<times> sequences \<Rightarrow> core \<Rightarrow> bool" where
  "good \<equiv> good_but {}"

lemma good_same_db:
  "same_db (c_pg c) w \<Longrightarrow> good_but X S b (c\<lparr>c_pg := w\<rparr>) = good_but X S b c"
  by (simp add: good_but_def same_db_def)

lemma txns_known_seq: "txns_known m sq \<Longrightarrow> seq_le sq sq' \<Longrightarrow> txns_known m sq'"
  by (force simp: txns_known_def seq_le_def)

lemma good_pg_read: "reads m \<Longrightarrow> hoare (good_but X S b) (on_pg m) (\<lambda>_. good_but X S b)"
  unfolding hoare_def on_pg_def reads_def
  by (auto simp: good_same_db split: prod.split) (metis good_same_db snd_conv)

lemma keeps_pg_read [act_rules]: "reads m \<Longrightarrow> keeps (good_but X S b) (unlocked (on_pg m))"
  by (intro act_ok_unlocked good_pg_read)

lemma keeps_pg_read_locked [act_rules]:
  "reads m \<Longrightarrow> keeps (good_but X S b) (with_locks [(x, t)] (on_pg m))"
  by (rule act_ok_locks) (simp_all add: good_pg_read)

text \<open>A change of the database that keeps its invariant, and the views outside \<open>X\<close>.\<close>

lemma good_change:
  assumes "good S b c" "pg_tx w = None" "seq_le (pg_seq (c_pg c)) (pg_seq w)"
    and "db_inv (pg_db w) (pg_seq w)"
    and "moves (specs_kept (se_pg S)) X (pg_db (c_pg c)) (pg_seq (c_pg c)) (pg_db w) (pg_seq w) \<or>
      acks_lost (se_pg S) \<and> evolves (specs_kept (se_pg S)) (pg_db (c_pg c)) (pg_seq (c_pg c)) (pg_db w) (pg_seq w)"
  shows "good_but X S b (c\<lparr>c_pg := w\<rparr>)"
proof -
  have e: "evolves (specs_kept (se_pg S)) (fst b) (snd b) (pg_db w) (pg_seq w)"
    using assms(1,5) by (auto simp: good_but_def moves_def intro: evolves_trans)
  have "txns_known (c_mvcc c) (pg_seq w)"
    using assms(1,3) by (auto simp: good_but_def intro: txns_known_seq)
  moreover have "acks_lost (se_pg S) \<or> coherent_but X (pg_db w) (c_cache c)"
    using assms(1,5) coherent_change by (auto simp: good_but_def moves_def)
  ultimately show ?thesis using assms(1,2,4) e by (simp add: good_but_def)
qed

lemma hoare_on_pg:
  "(\<And>c r w. P c \<Longrightarrow> m (c_pg c) = (r, w) \<Longrightarrow> Q r (c\<lparr>c_pg := w\<rparr>)) \<Longrightarrow> hoare P (on_pg m) Q"
  by (auto simp: hoare_def on_pg_def split: prod.split)

text \<open>
  A transaction of the catalog: it fails and changes nothing, or has its effect. \<open>V\<close> is what the
  handler knows of the database when it calls it.
\<close>

lemma good_tx_if:
  assumes post: "\<And>w r w'. m w = (r, w') \<Longrightarrow> pg_tx w = None \<Longrightarrow>
      tx_post ok (acks_lost (se_pg S)) (pg_db w) (pg_seq w) (\<lambda>_. eff (pg_seq w) (pg_db w)) r w' \<and>
      pg_tx w' = None"
    and inv: "\<And>db sq db' sq'. db_inv db sq \<Longrightarrow> eff sq db db' \<Longrightarrow> seq_le sq sq' \<Longrightarrow>
      ids_below db' sq' \<Longrightarrow> db_inv db' sq'"
    and move: "\<And>db sq db' sq'. V db \<Longrightarrow> db_inv db sq \<Longrightarrow> db_inv db' sq' \<Longrightarrow> eff sq db db' \<Longrightarrow> seq_le sq sq' \<Longrightarrow>
      moves (specs_kept (se_pg S)) X db sq db' sq'"
  shows "hoare (\<lambda>c. good S b c \<and> V (pg_db (c_pg c))) (on_pg m) (\<lambda>r c. if ok r then good_but X S b c else good S b c)"
proof (rule hoare_on_pg)
  fix c r w
  assume gV: "good S b c \<and> V (pg_db (c_pg c))" and run: "m (c_pg c) = (r, w)"
  let ?db = "pg_db (c_pg c)" and ?sq = "pg_seq (c_pg c)"
  from gV have g: "good S b c" and v: "V ?db" by simp_all
  have tx: "pg_tx (c_pg c) = None" and I: "db_inv ?db ?sq" using g by (simp_all add: good_but_def)
  note p = post [OF run tx]
  have w: "pg_tx w = None" and le: "seq_le ?sq (pg_seq w)" and below: "ids_below (pg_db w) (pg_seq w)"
    using p db_inv_below [OF I] by (auto simp: tx_post_def)
  have change: "good_but Y S b (c\<lparr>c_pg := w\<rparr>)" if "eff ?sq ?db (pg_db w)" "X \<subseteq> Y \<or> acks_lost (se_pg S)" for Y
  proof -
    have I': "db_inv (pg_db w) (pg_seq w)" using inv [OF I that(1) le below] .
    from move [OF v I I' that(1) le] that(2) show ?thesis
      by (intro good_change [OF g w le I']) (use moves_mono in \<open>auto simp: moves_def\<close>)
  qed
  have same: "good S b (c\<lparr>c_pg := w\<rparr>)" if "pg_db w = ?db"
    using good_change [OF g w le, of "{}"] that db_inv_seq [OF I le] moves_same [OF le] by simp
  show "if ok r then good_but X S b (c\<lparr>c_pg := w\<rparr>) else good S b (c\<lparr>c_pg := w\<rparr>)"
    using p change [of X] change [of "{}"] same unfolding tx_post_def by auto
qed

lemmas good_tx = good_tx_if [where V = "\<lambda>_. True", simplified]

lemma good_mono: "X \<subseteq> Y \<Longrightarrow> good_but X S b c \<Longrightarrow> good_but Y S b c"
  unfolding good_but_def using coherent_mono by blast

subsection \<open>The catalog manager\<close>

lemma same_effect_inv:
  "same_store db db' \<and> map t_name (d_tables db') = map t_name (d_tables db) \<Longrightarrow> db_inv db sq \<Longrightarrow>
   seq_le sq sq' \<Longrightarrow> db_inv db' sq'"
  by (rule db_inv_seq, rule same_store_inv [of db]) (auto simp: db_inv_def)

lemma alter_spec_inv:
  "db_inv db sq \<Longrightarrow> alter_spec_effect E sq name spec m db db' \<Longrightarrow> seq_le sq sq' \<Longrightarrow> db_inv db' sq'"
  by (rule same_effect_inv [OF alter_spec_same])

lemma alter_schema_inv:
  "db_inv db sq \<Longrightarrow> alter_schema_effect E sq name schema m db db' \<Longrightarrow> seq_le sq sq' \<Longrightarrow> db_inv db' sq'"
  by (rule same_effect_inv [OF alter_schema_same])

lemma soft_drop_inv:
  "db_inv db sq \<Longrightarrow> soft_drop_effect name db db' \<Longrightarrow> seq_le sq sq' \<Longrightarrow> db_inv db' sq'"
  by (rule same_effect_inv [OF soft_drop_same])

lemma keeps_locked_tx:
  assumes "hoare (good S b) m (\<lambda>r c. if ok r then good S b c else good S b c)"
  shows "keeps (good S b) (with_locks [(x, t)] m)"
  by (rule act_ok_locks) (use assms in simp_all)

lemma cm_CreateTable_good [act_rules]:
  "keeps (good S b) (cm_CreateTable (se_pg S) name schema spec props)"
  unfolding cm_CreateTable_def
  by (rule keeps_locked_tx, rule good_tx [where ok = Success and eff = "\<lambda>sq db. create_effect (se_pg S) sq name schema spec props db"],
      blast intro: CreateTable_post, rule create_inv, assumption+, rule create_moves)

text \<open>A change of the spec is checked against the current one before it is made.\<close>

definition valid_change :: "string \<Rightarrow> string \<Rightarrow> database \<Rightarrow> bool" where
  "valid_change name spec db \<longleftrightarrow> (\<forall>t. live_table name db = Some t \<longrightarrow> ValidateSpecChange (t_spec t) spec = None)"

lemma valid_follows:
  assumes "specs_kept E" "pe_jsonb E (proposed_json p) = Some s" "ValidateSpecChange cur (proposed_json p) = None"
  shows "spec_follows cur s"
proof -
  have "unmarshalSpec [] = None"
    by (simp add: unmarshalSpec_def json_parse_def json_parse_with_def json_fuel_def skip_ws_def)
  then show ?thesis using assms by (auto simp: specs_kept_def spec_follows_def validate_None)
qed

lemma cm_AlterTablePartitionSpec_good:
  "act_ok (\<lambda>c. good S b c \<and> valid_change name (proposed_json p) (pg_db (c_pg c)))
     (cm_AlterTablePartitionSpec (se_pg S) name (proposed_json p) summary) (\<lambda>_. good S b)"
proof -
  let ?ok = "hoare (\<lambda>c. good S b c \<and> valid_change name (proposed_json p) (pg_db (c_pg c)))
      (on_pg (AlterTablePartitionSpec_locked (se_pg S) name (proposed_json p) summary))
      (\<lambda>r c. if Success r then good S b c else good S b c)"
  have ?ok
    by (rule good_tx_if [where eff = "\<lambda>sq db. alter_spec_effect (se_pg S) sq name (proposed_json p) summary db"],
        rule AlterTablePartitionSpec_post, assumption+, rule alter_spec_inv, assumption+,
        rule alter_spec_moves, assumption+)
      (use valid_follows in \<open>auto simp: valid_change_def\<close>)
  then show ?thesis unfolding cm_AlterTablePartitionSpec_def by (intro act_ok_locks) simp_all
qed

lemma cm_AlterTableSchema_good [act_rules]:
  "keeps (good S b) (cm_AlterTableSchema (se_pg S) name schema summary)"
  unfolding cm_AlterTableSchema_def
  by (rule keeps_locked_tx, rule good_tx [where ok = Success and eff = "\<lambda>sq db. alter_schema_effect (se_pg S) sq name schema summary db"],
      rule AlterTableSchema_post, assumption+, rule alter_schema_inv, assumption+,
      rule alter_schema_moves, assumption+)

lemma drop_inv:
  assumes "db_inv db sq" "drop_effect purge name db db'" "seq_le sq sq'"
  shows "db_inv db' sq'"
proof (cases purge)
  case True
  then have "purge_effect name db db'" using assms(2) by (simp add: drop_effect_def)
  from db_inv_seq [OF purge_inv [OF assms(1) this] assms(3)] show ?thesis .
next
  case False
  then have "soft_drop_effect name db db'" using assms(2) by (simp add: drop_effect_def)
  from soft_drop_inv [OF assms(1) this assms(3)] show ?thesis .
qed

lemma cm_DropTable_good:
  "act_ok (good S b) (cm_DropTable (se_pg S) name purge)
     (\<lambda>r c. if Success r then good_but {name} S b c else good S b c)"
  unfolding cm_DropTable_def
  by (rule act_ok_locks, simp, rule good_tx [where ok = Success and eff = "\<lambda>sq db. drop_effect purge name db"],
      rule DropTable_post, assumption+, rule drop_inv, assumption+, rule drop_moves, assumption+)

lemma rename_inv:
  assumes "db_inv db sq" "rename_effect old new db db'" "seq_le sq sq'"
  shows "db_inv db' sq'"
proof -
  have "distinct (map t_name (d_tables db'))"
    using assms(1,2) rename_names by (auto simp: db_inv_def)
  with assms show ?thesis using same_store_inv [OF rename_same] db_inv_seq by blast
qed

lemma cm_RenameTable_good:
  assumes "old \<noteq> new"
  shows "act_ok (good S b) (cm_RenameTable (se_pg S) old new) (\<lambda>_. good_but {old, new} S b)"
  unfolding cm_RenameTable_def
proof (rule act_ok_locks, simp add: assms, rule hoare_on_pg)
  fix c r w
  assume g: "good S b c" and run: "RenameTable_locked (se_pg S) old new (c_pg c) = (r, w)"
  have I: "db_inv (pg_db (c_pg c)) (pg_seq (c_pg c))" "pg_tx (c_pg c) = None"
    using g by (simp_all add: good_but_def)
  note p = RenameTable_post [OF run]
  have w: "pg_tx w = None" "seq_le (pg_seq (c_pg c)) (pg_seq w)" using p I by simp_all
  show "good_but {old, new} S b (c\<lparr>c_pg := w\<rparr>)"
  proof (cases "pg_db w = pg_db (c_pg c)")
    case True
    then show ?thesis using good_change [OF g w] db_inv_seq [OF I(1) w(2)] moves_same [OF w(2)] by simp
  next
    case False
    then have e: "rename_effect old new (pg_db (c_pg c)) (pg_db w)" using p by blast
    show ?thesis by (rule good_change [OF g w rename_inv [OF I(1) e w(2)] disjI1 [OF rename_moves [OF e w(2)]]])
  qed
qed

subsection \<open>The partition registry\<close>

lemma good_invalidate:
  "hoare (good_but (insert name X) S b) (InvalidateTableCache name) (\<lambda>_. good_but X S b)"
  unfolding hoare_def
proof (intro allI impI)
  fix c assume "good_but (insert name X) S b c"
  then show "good_but X S b (snd (InvalidateTableCache name c))"
    using coherent_invalidate [of name X "pg_db (c_pg c)" c]
    by (auto simp: good_but_def InvalidateTableCache_cache lru.drop_inv)
qed

lemma invalidate_good: "act_ok (good_but (insert name X) S b) (invalidate name) (\<lambda>_. good_but X S b)"
  unfolding invalidate_def by (rule act_ok_unlocked [OF good_invalidate])

lemma invalidate_keeps [act_rules]: "keeps (good S b) (invalidate name)"
  by (rule act_ok_pre [OF invalidate_good]) (rule good_mono, simp_all)

lemma CommitSnapshot_good:
  "hoare (good S b) (CommitSnapshot_locked (se_pg S) name parent opn parts keys) (\<lambda>_. good S b)"
proof (rule hoareI)
  fix c r c'
  assume g: "good S b c" and run: "CommitSnapshot_locked (se_pg S) name parent opn parts keys c = (r, c')"
  let ?db = "pg_db (c_pg c)" and ?sq = "pg_seq (c_pg c)"
  have I: "db_inv ?db ?sq" and tx: "pg_tx (c_pg c) = None" and q: "0 \<le> q_snapshot ?sq"
    using g by (auto simp: good_but_def db_inv_def store_inv_def)
  from CommitSnapshot_post [OF run tx q]
  have mv: "c_mvcc c' = c_mvcc c" and w: "pg_tx (c_pg c') = None" "seq_le ?sq (pg_seq (c_pg c'))"
    and below: "ids_below (pg_db (c_pg c')) (pg_seq (c_pg c'))"
    and cache: "c_cache c' = (if cr_Success r then c_cache (snd (InvalidateTableCache name c)) else c_cache c)"
    and cases: "\<not> cr_Success r \<and> pg_db (c_pg c') = ?db \<or>
      (\<exists>v. commit_effect (se_pg S) ?sq name v parent opn parts keys ?db (pg_db (c_pg c'))) \<and>
      parent = current_of name ?db \<and> (cr_Success r \<or> acks_lost (se_pg S))"
    using db_inv_below [OF I] by blast+
  from cases consider (same) "\<not> cr_Success r" "pg_db (c_pg c') = ?db"
    | (eff) v where "commit_effect (se_pg S) ?sq name v parent opn parts keys ?db (pg_db (c_pg c'))"
        "parent = current_of name ?db" "cr_Success r \<or> acks_lost (se_pg S)" by blast
  then have "good_but (if cr_Success r \<or> acks_lost (se_pg S) then {name} else {}) S b (c\<lparr>c_pg := c_pg c'\<rparr>)"
  proof cases
    case same
    from good_change [OF g w, of "{}"] same(2) db_inv_seq [OF I w(2)] moves_same [OF w(2)] have "good S b (c\<lparr>c_pg := c_pg c'\<rparr>)" by simp
    then show ?thesis by (rule good_mono [rotated]) simp
  next
    case (eff v)
    note e = eff(1) and par = eff(2)
    from eff(3) show ?thesis
      using good_change [OF g w commit_inv [OF I e par w(2) below]
          disjI1 [OF commit_moves [OF I commit_inv [OF I e par w(2) below] e w(2)]]] by simp
  qed
  then show "good S b c'"
    using cache coherent_invalidate [of name "{}" "pg_db (c_pg c')" c]
    by (cases "cr_Success r"; cases "acks_lost (se_pg S)")
      (auto simp: good_but_def mv InvalidateTableCache_cache lru.drop_inv hoare_def)
qed

lemma reg_CommitSnapshot_good [act_rules]:
  "keeps (good S b) (reg_CommitSnapshot (se_pg S) name parent opn parts keys)"
  unfolding reg_CommitSnapshot_def by (rule act_ok_locks [OF _ CommitSnapshot_good]) simp

lemma live_id_pos: "db_inv db sq \<Longrightarrow> live_table name db = Some t \<Longrightarrow> 0 < t_id t"
  using live_table_Some [of name db t]
  by (force simp: db_inv_def store_inv_def heads_def ids_upto_def)

lemma pg_QueryPartitions_spec:
  assumes "db_inv (pg_db w) sq" "pg_QueryPartitions E name snap w = (r, w')"
  shows "same_db w w' \<and> (\<forall>x. r = Inr x \<longrightarrow> x = partitions_at (pg_db w) name snap)"
  using assms(2) unfolding pg_QueryPartitions_def
proof (cases rule: on_err_cases)
  case (err e w1)
  then show ?thesis using pg_GetTableID_spec by (auto simp: ret_def)
next
  case (ok i w1)
  note id = pg_GetTableID_spec [OF ok(1)]
  show ?thesis
  proof (cases "live_table name (pg_db w)")
    case None
    then show ?thesis using ok id by (auto simp: table_id_of_def ret_def partitions_at_def)
  next
    case (Some t)
    then have i: "i = t_id t" "\<not> i < 0" using id live_id_pos [OF assms(1) Some] by (auto simp: table_id_of_def)
    from ok(2) i(2) have "on_err (pool_exec E [] (sql_partitions i (int64_of_uint64 snap)))
        (\<lambda>e. ret (Inl e)) (\<lambda>rows. ret (Inr (Some (map scan_partition rows)))) w1 = (r, w')" by simp
    then show ?thesis
    proof (cases rule: on_err_cases)
      case (err e w2)
      then show ?thesis using id pool_query [OF err(1)[unfolded sql_partitions_def]]
        by (auto simp: ret_def same_db_def)
    next
      case (ok rows w2)
      then show ?thesis using id i(1) Some pool_query [OF ok(1)[unfolded sql_partitions_def]]
        by (auto simp: ret_def same_db_def partitions_at_def visible_rows_def)
    qed
  qed
qed

text \<open>The snapshot a read resolves to.\<close>

definition resolved :: "string \<Rightarrow> uint64 \<Rightarrow> database \<Rightarrow> uint64" where
  "resolved name snap db = (if snap \<noteq> 0 then snap else current_of name db)"

lemma resolveSnapshot_spec:
  assumes "resolveSnapshot E name snap w = (r, w')"
  shows "same_db w w' \<and> (\<forall>x. r = Inr x \<longrightarrow> x = resolved name snap (pg_db w))"
proof (cases "snap = 0")
  case False
  then show ?thesis using assms by (auto simp: resolveSnapshot_def ret_def resolved_def)
next
  case True
  then have "on_err (pg_GetCurrentSnapshot E name) (\<lambda>e. ret (Inl e)) (\<lambda>c. ret (Inr c)) w = (r, w')"
    using assms by (simp add: resolveSnapshot_def)
  then show ?thesis
    by (cases rule: on_err_cases) (use pg_GetCurrentSnapshot_spec True in \<open>fastforce simp: ret_def resolved_def\<close>)+
qed

text \<open>A read of partitions: it keeps the invariant and answers as the database would.\<close>

lemma cache_Get_good:
  assumes "good S b c" "cache_Get (makeCacheKey name snap) c = (v, c')"
  shows "good S b c' \<and> c_pg c' = c_pg c \<and> c_mvcc c' = c_mvcc c \<and>
    (\<forall>rows. v = Some rows \<longrightarrow> acks_lost (se_pg S) \<or> partitions_at (pg_db (c_pg c)) name snap = Some rows)"
proof -
  have v: "v = fst (lru_Get (makeCacheKey name snap) (c_cache c))"
    and c': "c' = c\<lparr>c_cache := snd (lru_Get (makeCacheKey name snap) (c_cache c))\<rparr>"
    using assms(2) by (auto simp: cache_Get_def split: prod.splits)
  show ?thesis
    using assms(1) coherent_hit [of "pg_db (c_pg c)" "c_cache c" name snap] coherent_Get lru.get_inv
    unfolding v c' good_but_def by auto
qed

lemma cache_Put_good:
  assumes "good S b c" "partitions_at (pg_db (c_pg c)) name snap = Some rows"
  shows "good S b (cache_Put (makeCacheKey name snap) rows c)"
  using assms coherent_Put [of "pg_db (c_pg c)" "c_cache c" name snap rows] lru.put_inv
  unfolding cache_Put_def good_but_def by auto

definition reads_as :: "server_env \<Rightarrow> database \<times> sequences \<Rightarrow> string \<Rightarrow> uint64 \<Rightarrow> core \<Rightarrow>
    (pg_error + PartitionRow list option) \<Rightarrow> core \<Rightarrow> bool" where
  "reads_as S b name snap c r c' \<longleftrightarrow>
     good S b c' \<and> same_db (c_pg c) (c_pg c') \<and> c_mvcc c' = c_mvcc c \<and>
     (\<forall>x. r = Inr x \<longrightarrow> acks_lost (se_pg S) \<or> x = partitions_at (pg_db (c_pg c)) name snap)"

lemma GetPartitions_query_reads:
  assumes "good S b c" "GetPartitions_query S name snap c = (r, c')"
  shows "reads_as S b name snap c r c'"
  using assms(2) unfolding GetPartitions_query_def
proof (cases rule: on_err_cases)
  case (err e c1)
  then obtain w where w: "pg_QueryPartitions (se_pg S) name snap (c_pg c) = (Inl e, w)" "c1 = c\<lparr>c_pg := w\<rparr>" by auto
  then have "same_db (c_pg c) w" using reads_pg(6) unfolding reads_def by (metis snd_conv)
  then show ?thesis using err(2) assms(1) w(2) by (auto simp: reads_as_def ret_def good_same_db)
next
  case (ok x c1)
  then obtain w where w: "pg_QueryPartitions (se_pg S) name snap (c_pg c) = (Inr x, w)" "c1 = c\<lparr>c_pg := w\<rparr>" by auto
  have I: "db_inv (pg_db (c_pg c)) (pg_seq (c_pg c))" using assms(1) by (simp add: good_but_def)
  from pg_QueryPartitions_spec [OF I w(1)] have s: "same_db (c_pg c) w"
    and x: "x = partitions_at (pg_db (c_pg c)) name snap" by auto
  have g: "good S b c1" using assms(1) good_same_db [OF s] w(2) by simp
  have db: "pg_db w = pg_db (c_pg c)" using s by (simp add: same_db_def)
  show ?thesis
  proof (cases x)
    case None
    then show ?thesis using ok(2) g s x w(2) by (auto simp: reads_as_def)
  next
    case (Some rows)
    have "good S b (cache_Put (makeCacheKey name snap) rows c1)"
      using cache_Put_good [OF g] x Some w(2) db by simp
    moreover have "r = Inr (Some rows)"
      "c' = (if se_disableCache S then c1 else cache_Put (makeCacheKey name snap) rows c1)"
      using ok(2) Some by auto
    ultimately show ?thesis using g s w(2) x [symmetric] Some by (simp add: reads_as_def cache_Put_def)
  qed
qed

lemma reads_as_trans:
  "same_db (c_pg c) (c_pg c1) \<Longrightarrow> c_mvcc c1 = c_mvcc c \<Longrightarrow> reads_as S b name snap c1 r c' \<Longrightarrow>
   reads_as S b name snap c r c'"
  unfolding reads_as_def same_db_def by simp

lemma GetPartitions_reads:
  assumes "good S b c" "GetPartitions_locked S name snap c = (r, c')"
  shows "reads_as S b name (resolved name snap (pg_db (c_pg c))) c r c'"
  using assms(2) unfolding GetPartitions_locked_def
proof (cases rule: on_err_cases)
  case (err e c1)
  then obtain w where w: "resolveSnapshot (se_pg S) name snap (c_pg c) = (Inl e, w)" "c1 = c\<lparr>c_pg := w\<rparr>" by auto
  then have "same_db (c_pg c) w" using resolveSnapshot_spec by blast
  then show ?thesis using err(2) assms(1) w(2) by (auto simp: reads_as_def ret_def good_same_db)
next
  case (ok n c1)
  then obtain w where w: "resolveSnapshot (se_pg S) name snap (c_pg c) = (Inr n, w)" "c1 = c\<lparr>c_pg := w\<rparr>" by auto
  from resolveSnapshot_spec [OF w(1)] have s: "same_db (c_pg c) w"
    and n: "n = resolved name snap (pg_db (c_pg c))" by auto
  have g: "good S b c1" using assms(1) good_same_db [OF s] w(2) by simp
  have c1: "same_db (c_pg c) (c_pg c1)" "c_mvcc c1 = c_mvcc c" using s w(2) by simp_all
  have "reads_as S b name n c1 r c'"
  proof (cases "se_disableCache S")
    case True
    then show ?thesis using ok(2) GetPartitions_query_reads [OF g] by simp
  next
    case False
    obtain v c2 where get: "cache_Get (makeCacheKey name n) c1 = (v, c2)" by fastforce
    note c2 = cache_Get_good [OF g get]
    show ?thesis
    proof (cases v)
      case None
      then have "GetPartitions_query S name n c2 = (r, c')" using ok(2) False get by simp
      from GetPartitions_query_reads [OF _ this] c2 show ?thesis
        by (intro reads_as_trans [of c1 c2]) auto
    next
      case (Some rows)
      then show ?thesis using ok(2) False get c2 by (auto simp: reads_as_def)
    qed
  qed
  then show ?thesis unfolding n by (rule reads_as_trans [OF c1])
qed

lemma reg_GetPartitions_good [act_rules]: "keeps (good S b) (reg_GetPartitions S name snap)"
  unfolding reg_GetPartitions_def
  by (rule act_ok_locks, simp, rule hoareI) (use GetPartitions_reads in \<open>unfold reads_as_def, blast\<close>)

subsection \<open>Client transactions\<close>

lemma same_rows_inv:
  assumes "db_inv db sq" "db' = db\<lparr>d_txns := x\<rparr>" "seq_le sq sq'"
  shows "db_inv db' sq'"
proof -
  have "db_inv db' sq" using assms(1) by (simp add: db_inv_def assms(2))
  then show ?thesis by (rule db_inv_seq [OF _ assms(3)])
qed

text \<open>A statement of the pool that changes the table of transactions only.\<close>

lemma good_txn_stmt:
  assumes g: "good S b c" and run: "pool_exec E texts st (c_pg c) = (x, w)"
    and st: "grows st" "\<And>now db sq y db' sq'. st now db sq = (Inr (y, db'), sq') \<Longrightarrow>
      \<exists>t. db' = db\<lparr>d_txns := t\<rparr> \<and> txn_tables db \<subseteq> txn_tables db'"
  shows "good S b (c\<lparr>c_pg := w\<rparr>)"
proof -
  have I: "db_inv (pg_db (c_pg c)) (pg_seq (c_pg c))" "pg_tx (c_pg c) = None"
    using g by (simp_all add: good_but_def)
  have same: "\<exists>t. pg_db (c_pg c) = (pg_db (c_pg c))\<lparr>d_txns := t\<rparr>"
    by (rule exI [of _ "d_txns (pg_db (c_pg c))"]) simp
  have "pg_tx w = None \<and> seq_le (pg_seq (c_pg c)) (pg_seq w) \<and> (\<exists>t. pg_db w = (pg_db (c_pg c))\<lparr>d_txns := t\<rparr> \<and>
      txn_tables (pg_db (c_pg c)) \<subseteq> txn_tables (pg_db w))"
    using run
  proof (cases rule: pool_exec_cases)
    case (1 e)
    with same I(2) show ?thesis by simp
  next
    case (2 e now)
    with same I(2) growsD(1) [OF st(1) 2(2)] show ?thesis by simp
  next
    case (3 y now)
    with I(2) growsD(1) [OF st(1) 3(1)] st(2) [OF 3(1)] show ?thesis by simp
  qed
  then obtain t where w: "pg_tx w = None" "seq_le (pg_seq (c_pg c)) (pg_seq w)"
    "pg_db w = (pg_db (c_pg c))\<lparr>d_txns := t\<rparr>" "txn_tables (pg_db (c_pg c)) \<subseteq> txn_tables (pg_db w)" by blast
  show ?thesis
    by (rule good_change [OF g w(1,2) same_rows_inv [OF I(1) w(3,2)]])
      (use w(4) in \<open>simp add: w(3) txns_moves [OF w(2)]\<close>)
qed

lemma txn_tables_map:
  "(\<And>x. x_id (f x) = x_id x \<and> x_table (f x) = x_table x) \<Longrightarrow> txn_tables (db\<lparr>d_txns := map f (d_txns db)\<rparr>) = txn_tables db"
  by (simp add: txn_tables_def image_image)

lemma UpdateTransactionStatus_good [act_rules]:
  "keeps (good S b) (unlocked (on_pg (pg_UpdateTransactionStatus (se_pg S) k status)))"
  unfolding pg_UpdateTransactionStatus_def
  by (intro act_ok_unlocked hoare_on_pg, erule (1) good_txn_stmt [OF _ _ grows_updates(7)])
    (auto simp: sql_update_txn_status_def update_def txn_tables_map)

text \<open>A new transaction has an id that is not active.\<close>

lemma InsertTransaction_good:
  "act_ok (good S b) (unlocked (on_pg (pg_InsertTransaction (se_pg S) client tid snap isol)))
     (\<lambda>r c. good S b c \<and> (\<forall>k. r = Inr k \<longrightarrow> map_of (activeTransactions (c_mvcc c)) k = None \<and>
        int64_of_uint64 k \<le> q_txn (pg_seq (c_pg c))))"
proof (intro act_ok_unlocked hoare_on_pg)
  fix c r w
  assume g: "good S b c" and run: "pg_InsertTransaction (se_pg S) client tid snap isol (c_pg c) = (r, w)"
  let ?st = "sql_insert_transaction client tid (int64_of_uint64 snap) isol"
  have st: "\<exists>t. db' = db\<lparr>d_txns := t\<rparr> \<and> y = q_txn sq + 1 \<and> q_txn sq' = q_txn sq + 1 \<and> q_txn sq < 2 ^ 63 - 1"
    if "?st now db sq = (Inr (y, db'), sq')" for now db sq y db' sq'
    using that by (auto simp: sql_insert_transaction_def split: option.splits if_splits dest!: nextval_Some)
  obtain x where x: "pool_exec (se_pg S) [client, isol] ?st (c_pg c) = (x, w)"
    "r = (case x of Inl e \<Rightarrow> Inl e | Inr i \<Rightarrow> Inr (if i < 0 then 0 else uint64_of_int64 i))"
    using run unfolding pg_InsertTransaction_def
    by (elim on_err_cases) (auto simp: ret_def)
  have "good S b (c\<lparr>c_pg := w\<rparr>)"
    by (rule good_txn_stmt [OF g x(1)])
      (auto simp: grow_rules sql_insert_transaction_def txn_tables_def split: option.splits if_splits)
  moreover have "map_of (activeTransactions (c_mvcc c)) k = None \<and> int64_of_uint64 k \<le> q_txn (pg_seq w)"
    if rk: "r = Inr k" for k
  proof -
    let ?q = "q_txn (pg_seq (c_pg c))"
    obtain i where i: "x = Inr i" "k = (if i < 0 then 0 else uint64_of_int64 i)"
      using rk x(2) by (cases x) auto
    from x(1) have i': "i = ?q + 1 \<and> q_txn (pg_seq w) = ?q + 1 \<and> ?q < 2 ^ 63 - 1"
      by (cases rule: pool_exec_cases) (use i(1) st in fastforce)+
    have known: "txns_known (c_mvcc c) (pg_seq (c_pg c))" using g by (simp add: good_but_def)
    then have q: "0 \<le> ?q" by (simp add: txns_known_def)
    have k: "int64_of_uint64 k = ?q + 1"
      using i(2) i' q by (simp add: in_int64_def)
    then have "k \<notin> fst ` set (activeTransactions (c_mvcc c))" using known by (auto simp: txns_known_def)
    with k i' show ?thesis by (simp add: map_of_eq_None_iff)
  qed
  ultimately show "good S b (c\<lparr>c_pg := w\<rparr>) \<and> (\<forall>k. r = Inr k \<longrightarrow>
      map_of (activeTransactions (c_mvcc (c\<lparr>c_pg := w\<rparr>))) k = None \<and>
      int64_of_uint64 k \<le> q_txn (pg_seq (c_pg (c\<lparr>c_pg := w\<rparr>))))" by simp
qed

lemma mvcc_do_good:
  assumes "\<And>c. P c \<Longrightarrow> Q (fst (f (c_mvcc c))) (c\<lparr>c_mvcc := snd (f (c_mvcc c))\<rparr>)"
  shows "act_ok P (mvcc_do f) Q"
  unfolding mvcc_do_def by (rule act_ok_unlocked) (use assms in \<open>force simp: hoare_def split: prod.split\<close>)

text \<open>Ending transactions: fewer are active, the rest is as before.\<close>

lemma mvcc_do_keeps:
  assumes "\<And>m. mvcc_inv m \<Longrightarrow> mvcc_inv (snd (f m)) \<and>
      fst ` set (activeTransactions (snd (f m))) \<subseteq> fst ` set (activeTransactions m)"
  shows "keeps (good S b) (mvcc_do f)"
  by (rule mvcc_do_good) (use assms in \<open>fastforce simp: good_but_def txns_known_def\<close>)

lemma mvcc_Commit_keeps [act_rules]: "keeps (good S b) (mvcc_do (mvcc_CommitTransaction now k))"
  using active_finish
  by (intro mvcc_do_keeps conjI, simp add: mvcc_Commit_inv)
    (auto simp: mvcc_CommitTransaction_def split: option.splits)

lemma mvcc_Abort_keeps [act_rules]: "keeps (good S b) (mvcc_do (\<lambda>m. ((), mvcc_AbortTransaction k m)))"
  using active_finish
  by (intro mvcc_do_keeps conjI, simp add: mvcc_Abort_inv)
    (auto simp: mvcc_AbortTransaction_def split: option.splits)

lemma mvcc_Cleanup_keeps [act_rules]: "keeps (good S b) (mvcc_do (mvcc_CleanupExpiredTransactions now))"
  by (rule mvcc_do_keeps) (auto simp: Cleanup_spec)

lemma mvcc_Register_good:
  "act_ok (\<lambda>c. good S b c \<and> map_of (activeTransactions (c_mvcc c)) k = None \<and>
      int64_of_uint64 k \<le> q_txn (pg_seq (c_pg c)))
     (mvcc_do (\<lambda>m. ((), mvcc_RegisterTransaction now k n m))) (\<lambda>_. good S b)"
proof (rule mvcc_do_good)
  fix c
  assume c: "good S b c \<and> map_of (activeTransactions (c_mvcc c)) k = None \<and>
      int64_of_uint64 k \<le> q_txn (pg_seq (c_pg c))"
  let ?m = "mvcc_RegisterTransaction now k n (c_mvcc c)"
  have "mvcc_inv ?m" using c by (simp add: good_but_def mvcc_Register_inv)
  moreover have "txns_known ?m (pg_seq (c_pg c))"
    using c by (auto simp: good_but_def txns_known_def mvcc_RegisterTransaction_def update_new map_of_eq_None_iff)
  ultimately show "good S b (c\<lparr>c_mvcc := snd ((), ?m)\<rparr>)" using c by (simp add: good_but_def)
qed

subsection \<open>The handlers\<close>

lemma keeps_Let [act_rules]: "keeps P (m v) \<Longrightarrow> keeps P (let x = v in m x)"
  by simp

lemma cm_reads_keep [act_rules]:
  "keeps (good S b) (cm_GetTable E name)" "keeps (good S b) (cm_ListTables E ns l tok)"
  "keeps (good S b) (ss_GetCurrentSchema E name)" "keeps (good S b) (sp_GetCurrentSpec E name)"
  "keeps (good S b) (sp_GetSpecAtVersion E name v)" "keeps (good S b) (sp_ListSpecHistory E name)"
  "keeps (good S b) (ms_GetManifestList E name n)" "keeps (good S b) (ms_GetManifestFile E name j)"
  "keeps (good S b) (reg_GetPartitionsPaged E name n l j)" "keeps (good S b) (reg_GetStats E name)"
  unfolding cm_GetTable_def cm_ListTables_def ss_GetCurrentSchema_def sp_GetCurrentSpec_def
    sp_GetSpecAtVersion_def sp_ListSpecHistory_def ms_GetManifestList_def ms_GetManifestFile_def
    reg_GetPartitionsPaged_def reg_GetStats_def
  by (intro act_rules read_rules)+

lemma table_summaries_keeps [act_rules]: "keeps (good S b) (table_summaries S ts)"
proof (induction ts)
  case Nil
  show ?case by (simp add: keeps_ret)
next
  case (Cons t ts)
  show ?case unfolding table_summaries.simps by (intro act_rules read_rules Cons.IH)
qed

lemma read_handlers_keep [act_rules]:
  "keeps (good S b) (srv_GetTableMetadata S name n)" "keeps (good S b) (srv_ListTables S ns l tok)"
  "keeps (good S b) (srv_GetPartitions S name n l tok)" "keeps (good S b) (srv_GetPartitionStats S name)"
  "keeps (good S b) (srv_GetColumnStats S name n)" "keeps (good S b) (srv_GetSnapshot S name n)"
  "keeps (good S b) (srv_ListSnapshots S name l')" "keeps (good S b) (srv_GetPartitionSpec S name v)"
  "keeps (good S b) (srv_ListPartitionSpecs S name)" "keeps (good S b) (srv_GetManifestList S name n)"
  "keeps (good S b) (srv_GetManifest S name j)"
  unfolding srv_GetTableMetadata_def srv_ListTables_def srv_GetPartitions_def
    srv_GetPartitionStats_def srv_GetColumnStats_def srv_GetSnapshot_def srv_ListSnapshots_def
    srv_GetPartitionSpec_def srv_ListPartitionSpecs_def srv_GetManifestList_def srv_GetManifest_def
  by (intro act_rules read_rules)+

lemma AlterSchema_keeps [act_rules]: "keeps (good S b) (AlterSchema S name schema)"
  unfolding AlterSchema_def by (intro act_rules)

lemma GetCurrentSpec_good:
  "act_ok (good S b) (sp_GetCurrentSpec (se_pg S) name)
     (\<lambda>r c. good S b c \<and> (\<forall>x. r = Inr x \<longrightarrow>
        map_option pv_SpecJSON x = map_option t_spec (live_table name (pg_db (c_pg c)))))"
  unfolding sp_GetCurrentSpec_def
proof (rule act_ok_locks, simp, rule hoare_on_pg)
  fix c r w
  assume g: "good S b c" and run: "GetCurrentSpec_locked (se_pg S) name (c_pg c) = (r, w)"
  have "same_db (c_pg c) w \<and> (\<forall>x. r = Inr x \<longrightarrow>
      map_option pv_SpecJSON x = map_option t_spec (live_table name (pg_db (c_pg c))))"
    using run unfolding GetCurrentSpec_locked_def
  proof (cases rule: on_err_cases)
    case (ok x w1)
    then show ?thesis using pg_GetTable_spec [OF ok(1)]
      by (auto simp: ret_def table_row_def option.map_comp comp_def)
  qed (use pg_GetTable_spec in \<open>auto simp: ret_def\<close>)
  with g show "good S b (c\<lparr>c_pg := w\<rparr>) \<and> (\<forall>x. r = Inr x \<longrightarrow>
      map_option pv_SpecJSON x = map_option t_spec (live_table name (pg_db (c_pg (c\<lparr>c_pg := w\<rparr>)))))"
    by (simp add: good_same_db) (simp add: same_db_def)
qed

lemma AlterSpec_keeps [act_rules]: "keeps (good S b) (AlterSpec S name spec)"
  unfolding AlterSpec_def Let_def
proof (rule act_ok_internal_or [OF GetCurrentSpec_good])
  fix x :: "PartitionSpecVersion option"
  let ?cur = "case x of None \<Rightarrow> [] | Some v \<Rightarrow> pv_SpecJSON v"
  let ?P = "\<lambda>c. good S b c \<and> (\<forall>x'. (Inr x :: pg_error + PartitionSpecVersion option) = Inr x' \<longrightarrow>
      map_option pv_SpecJSON x' = map_option t_spec (live_table name (pg_db (c_pg c))))"
  let ?alter = "act_then (cm_AlterTablePartitionSpec (se_pg S) name (proposed_json spec)
                   ''partition spec evolution via AlterTable'')
       (\<lambda>result. act_then (invalidate name) (\<lambda>_. act_ret (Inr result)))"
  have "act_ok ?P ?alter (\<lambda>_. good S b)" if v: "ValidateSpecChange ?cur (proposed_json spec) = None"
    by (rule act_ok_then [OF act_ok_pre [OF cm_AlterTablePartitionSpec_good]])
      (use v in \<open>auto simp: valid_change_def split: option.splits intro!: keeps_then invalidate_keeps keeps_ret\<close>)
  then show "act_ok ?P (case ValidateSpecChange ?cur (proposed_json spec) of
      Some e \<Rightarrow> act_ret (Inr (failure (spec_error_text (se_quote S) (se_json_error S (proposed_json spec)) e)))
    | None \<Rightarrow> ?alter) (\<lambda>_. good S b)"
    by (cases "ValidateSpecChange ?cur (proposed_json spec)") (auto intro: act_ok_ret)
qed simp

lemma AlterName_keeps: "rename \<noteq> Some name \<Longrightarrow> keeps (good S b) (AlterName S name rename)"
  unfolding AlterName_def Let_def
  by (intro keeps_if keeps_ret act_ok_then [OF cm_RenameTable_good]
      act_ok_then [OF invalidate_good]) (auto intro: keeps_ret split: option.splits)

text \<open>Renaming a table to its own name takes its lock twice.\<close>

definition self_rename :: "string \<Rightarrow> alteration \<Rightarrow> bool" where
  "self_rename name alt \<longleftrightarrow> name \<noteq> [] \<and> alt = Rename (Some name)"

lemma srv_AlterTable_keeps: "\<not> self_rename name alt \<Longrightarrow> keeps (good S b) (srv_AlterTable S name alt)"
  unfolding srv_AlterTable_def
  by (cases alt) (auto simp: self_rename_def intro!: act_rules AlterName_keeps)

lemma srv_AlterTable_blocks:
  assumes "lm_inv (sys_locks s)" "self_rename name alt"
  shows "srv_AlterTable S name alt s = None"
  using assms(2)
  by (simp add: self_rename_def srv_AlterTable_def AlterName_def cm_RenameTable_def act_then_def
      with_locks_twice [OF assms(1)])

lemma srv_DropTable_keeps [act_rules]: "keeps (good S b) (srv_DropTable S name purge)"
  unfolding srv_DropTable_def
proof (intro keeps_if keeps_ret act_ok_then [OF cm_DropTable_good])
  fix r
  show "act_ok (\<lambda>c. if Success r then good_but {name} S b c else good S b c)
     (if Success r then act_then (invalidate name) (\<lambda>_. act_ret (Inr r)) else act_ret (Inr r))
     (\<lambda>_. good S b)"
    by (cases "Success r") (simp_all add: keeps_ret act_ok_then [OF invalidate_good])
qed

lemma write_handlers_keep [act_rules]:
  "keeps (good S b) (srv_CreateTable S name schema spec props)"
  "keeps (good S b) (srv_CommitSnapshot S name infos keys parent opn)"
  "keeps (good S b) (srv_CommitTransaction S now k)" "keeps (good S b) (srv_AbortTransaction S k)"
  "keeps (good S b) (srv_Cleanup now)"
  unfolding srv_CreateTable_def srv_CommitSnapshot_def srv_CommitTransaction_def
    srv_AbortTransaction_def srv_Cleanup_def
  by (intro act_rules)+

lemma srv_BeginTransaction_keeps [act_rules]:
  "keeps (good S b) (srv_BeginTransaction S now client name isol)"
  unfolding srv_BeginTransaction_def Let_def
proof ((intro keeps_if keeps_ret)+, rule keeps_internal_or, rule cm_reads_keep, rule keeps_option,
    rule keeps_ret)
  fix t :: TableRow
  let ?n = "if tr_CurrentSnapshotID t > 0 then uint64_of_int64 (tr_CurrentSnapshotID t) else 0"
  let ?i = "if isol = 1 then ''read_committed'' else ''snapshot''"
  show "keeps (good S b) (internal_or S
     (unlocked (on_pg (pg_InsertTransaction (se_pg S) client (tr_TableID t) ?n ?i)))
     (\<lambda>txnID. act_then (mvcc_do (\<lambda>m. ((), mvcc_RegisterTransaction now txnID ?n m)))
        (\<lambda>_. act_ret (Inr \<lparr>tn_TxnId = txnID, tn_ReadSnapshotId = ?n\<rparr>))))"
  proof (rule act_ok_internal_or [OF InsertTransaction_good])
    fix k
    show "act_ok (\<lambda>c. good S b c \<and> (\<forall>k'. (Inr k :: pg_error + uint64) = Inr k' \<longrightarrow>
          map_of (activeTransactions (c_mvcc c)) k' = None \<and> int64_of_uint64 k' \<le> q_txn (pg_seq (c_pg c))))
        (act_then (mvcc_do (\<lambda>m. ((), mvcc_RegisterTransaction now k ?n m)))
          (\<lambda>_. act_ret (Inr \<lparr>tn_TxnId = k, tn_ReadSnapshotId = ?n\<rparr>))) (\<lambda>_. good S b)"
      by (rule act_ok_then, rule act_ok_pre [OF mvcc_Register_good]) (auto intro: keeps_ret)
  qed simp
qed

end
