(* ===== verification/Catalog_Runs.thy ===== *)
theory Catalog_Runs
  imports Catalog_System
begin

text \<open>
  The server over time: requests, the step function \<open>serve\<close>, the states reachable by any sequence
  of requests and restarts, and the properties of all of them. Requests are served one after the
  other; each may meet any faults of the database that the environment of the server allows.
\<close>

subsection \<open>Requests\<close>

datatype request =
  Req_CreateTable string string string "(string, string) gomap"
| Req_GetTableMetadata string uint64
| Req_AlterTable string alteration
| Req_DropTable string bool
| Req_ListTables string int32 string
| Req_GetPartitions string uint64 int32 string
| Req_GetPartitionStats string
| Req_CommitSnapshot string "PartitionInfo list" "string list" uint64 string
| Req_GetColumnStats string uint64
| Req_GetSnapshot string uint64
| Req_ListSnapshots string int32
| Req_BeginTransaction time string string int32
| Req_CommitTransaction time uint64
| Req_AbortTransaction uint64
| Req_Cleanup time
| Req_GetPartitionSpec string int32
| Req_ListPartitionSpecs string
| Req_GetManifestList string uint64
| Req_GetManifest string int64

text \<open>The state after a request; \<open>None\<close> when its handler never returns.\<close>

definition run_act :: "'r act \<Rightarrow> sys \<Rightarrow> sys option" where
  "run_act m s = map_option snd (m s)"

fun serve :: "server_env \<Rightarrow> request \<Rightarrow> sys \<Rightarrow> sys option" where
  "serve S (Req_CreateTable name schema spec props) = run_act (srv_CreateTable S name schema spec props)"
| "serve S (Req_GetTableMetadata name n) = run_act (srv_GetTableMetadata S name n)"
| "serve S (Req_AlterTable name alt) = run_act (srv_AlterTable S name alt)"
| "serve S (Req_DropTable name purge) = run_act (srv_DropTable S name purge)"
| "serve S (Req_ListTables ns l tok) = run_act (srv_ListTables S ns l tok)"
| "serve S (Req_GetPartitions name n l tok) = run_act (srv_GetPartitions S name n l tok)"
| "serve S (Req_GetPartitionStats name) = run_act (srv_GetPartitionStats S name)"
| "serve S (Req_CommitSnapshot name ps keys parent opn) = run_act (srv_CommitSnapshot S name ps keys parent opn)"
| "serve S (Req_GetColumnStats name n) = run_act (srv_GetColumnStats S name n)"
| "serve S (Req_GetSnapshot name n) = run_act (srv_GetSnapshot S name n)"
| "serve S (Req_ListSnapshots name l) = run_act (srv_ListSnapshots S name l)"
| "serve S (Req_BeginTransaction now client name isol) = run_act (srv_BeginTransaction S now client name isol)"
| "serve S (Req_CommitTransaction now k) = run_act (srv_CommitTransaction S now k)"
| "serve S (Req_AbortTransaction k) = run_act (srv_AbortTransaction S k)"
| "serve S (Req_Cleanup now) = run_act (srv_Cleanup now)"
| "serve S (Req_GetPartitionSpec name v) = run_act (srv_GetPartitionSpec S name v)"
| "serve S (Req_ListPartitionSpecs name) = run_act (srv_ListPartitionSpecs S name)"
| "serve S (Req_GetManifestList name n) = run_act (srv_GetManifestList S name n)"
| "serve S (Req_GetManifest name j) = run_act (srv_GetManifest S name j)"

fun blocking :: "request \<Rightarrow> bool" where
  "blocking (Req_AlterTable name alt) = self_rename name alt"
| "blocking _ = False"

lemma run_act_total:
  assumes "keeps P m" "idle (sys_locks s)" "P (sys_core s)"
  shows "\<exists>s'. run_act m s = Some s' \<and> idle (sys_locks s') \<and> P (sys_core s')"
  using act_okD [OF assms] unfolding run_act_def by (metis map_option_eq_Some snd_conv)

lemma serve_total:
  assumes "\<not> blocking req" "idle (sys_locks s)" "good S b (sys_core s)"
  shows "\<exists>s'. serve S req s = Some s' \<and> idle (sys_locks s') \<and> good S b (sys_core s')"
  using assms(1)
  by (cases req)
    (simp_all only: serve.simps blocking.simps not_False_eq_True srv_AlterTable_keeps
      run_act_total [where P = "good S b", OF _ assms(2,3)] read_handlers_keep write_handlers_keep srv_DropTable_keeps
      srv_BeginTransaction_keeps)

lemma serve_blocks:
  assumes "blocking req" "lm_inv (sys_locks s)"
  shows "serve S req s = None"
  using assms by (cases req) (simp_all add: run_act_def srv_AlterTable_blocks)

subsection \<open>Reachable states\<close>

text \<open>
  \<open>leads_to S s s'\<close>: some sequence of requests and restarts takes \<open>s\<close> to \<open>s'\<close>. A restart keeps the
  database and forgets the rest; it may come with another configuration. The first start is on an
  empty database.
\<close>

inductive leads_to :: "server_env \<Rightarrow> sys \<Rightarrow> sys \<Rightarrow> bool" for S s where
  here: "leads_to S s s"
| request: "leads_to S s s1 \<Longrightarrow> serve S req s1 = Some s' \<Longrightarrow> leads_to S s s'"
| restart: "leads_to S s s1 \<Longrightarrow> leads_to S s (NewServer cfg (c_pg (sys_core s1)))"

definition reachable :: "server_env \<Rightarrow> sys \<Rightarrow> bool" where
  "reachable S s \<longleftrightarrow> (\<exists>cfg. leads_to S (NewServer cfg empty_pg) s)"

fun serve_all :: "server_env \<Rightarrow> request list \<Rightarrow> sys \<Rightarrow> sys option" where
  "serve_all S [] s = Some s"
| "serve_all S (req # reqs) s = (case serve S req s of None \<Rightarrow> None | Some s' \<Rightarrow> serve_all S reqs s')"

lemma leads_to_serve_all:
  "leads_to S s s1 \<Longrightarrow> serve_all S reqs s1 = Some s' \<Longrightarrow> leads_to S s s'"
  by (induction reqs arbitrary: s1) (auto split: option.splits intro: leads_to.request)

lemma reachable_leads_to: "reachable S s \<Longrightarrow> leads_to S s s' \<Longrightarrow> reachable S s'"
proof -
  assume "leads_to S s s'"
  then show "reachable S s \<Longrightarrow> reachable S s'"
    by induction (auto simp: reachable_def intro: leads_to.intros)
qed

lemma reachable_request: "reachable S s \<Longrightarrow> serve S req s = Some s' \<Longrightarrow> reachable S s'"
  using reachable_leads_to leads_to.request [OF leads_to.here] by blast

lemma empty_inv: "db_inv empty_db empty_seq"
  by (simp add: db_inv_def store_inv_def empty_db_def empty_seq_def heads_def ids_upto_def manifests_ok_def)

lemma NewServer_good:
  assumes "pg_tx w = None" "db_inv (pg_db w) (pg_seq w)" "0 \<le> q_txn (pg_seq w)"
    and "evolves (specs_kept (se_pg S)) (fst b) (snd b) (pg_db w) (pg_seq w)"
  shows "idle (sys_locks (NewServer cfg w)) \<and> good S b (sys_core (NewServer cfg w))"
  using assms
  by (simp add: NewServer_def good_but_def txns_known_def coherent_agrees lru.agrees_def lru_peek_def
      NewMVCCManager_def [of "cfg_TxnTimeout cfg"] NewMVCCManager_inv [unfolded NewMVCCManager_def])

lemma good_rebase: "good S b c \<Longrightarrow> good S (pg_db (c_pg c), pg_seq (c_pg c)) c"
  by (simp add: good_but_def)

lemma good_restart:
  assumes "good S b c"
  shows "good S b (sys_core (NewServer cfg (c_pg c)))" "idle (sys_locks (NewServer cfg (c_pg c)))"
  using assms NewServer_good [of "c_pg c" S b] by (simp_all add: good_but_def txns_known_def)

lemma serve_keeps:
  assumes "idle (sys_locks s)" "good S b (sys_core s)" "serve S req s = Some s'"
  shows "idle (sys_locks s') \<and> good S b (sys_core s')"
proof -
  have "\<not> blocking req" using serve_blocks assms(1,3) by (force simp: idle_def)
  from serve_total [OF this assms(1,2)] assms(3) show ?thesis by auto
qed

lemma leads_to_good:
  assumes "leads_to S s s'" "idle (sys_locks s)" "good S b (sys_core s)"
  shows "idle (sys_locks s') \<and> good S b (sys_core s')"
  using assms
proof induction
  case here
  then show ?case by simp
next
  case (request s1 req s')
  then show ?case using serve_keeps by blast
next
  case (restart s1 cfg)
  then show ?case using good_restart by blast
qed

lemma reachable_good:
  assumes "reachable S s"
  shows "idle (sys_locks s)" "good S (empty_db, empty_seq) (sys_core s)"
proof -
  obtain cfg where run: "leads_to S (NewServer cfg empty_pg) s" using assms by (auto simp: reachable_def)
  have "idle (sys_locks (NewServer cfg empty_pg)) \<and> good S (empty_db, empty_seq) (sys_core (NewServer cfg empty_pg))"
    by (rule NewServer_good) (simp_all add: empty_pg_def empty_inv, simp add: empty_seq_def)
  then show "idle (sys_locks s)" "good S (empty_db, empty_seq) (sys_core s)"
    using leads_to_good [OF run] by blast+
qed

text \<open>The parts of the state that the properties speak of.\<close>

abbreviation db_of :: "sys \<Rightarrow> database" where
  "db_of s \<equiv> pg_db (c_pg (sys_core s))"

abbreviation seq_of :: "sys \<Rightarrow> sequences" where
  "seq_of s \<equiv> pg_seq (c_pg (sys_core s))"

lemma reachable_parts:
  assumes "reachable S s"
  shows "db_inv (db_of s) (seq_of s)" "pg_tx (c_pg (sys_core s)) = None" "lru_inv (c_cache (sys_core s))"
    "mvcc_inv (c_mvcc (sys_core s))" "acks_lost (se_pg S) \<or> coherent (db_of s) (c_cache (sys_core s))"
  using reachable_good(2) [OF assms] by (simp_all add: good_but_def)

lemma leads_to_evolves:
  assumes "reachable S s" "leads_to S s s'"
  shows "evolves (specs_kept (se_pg S)) (db_of s) (seq_of s) (db_of s') (seq_of s')"
  using leads_to_good [OF assms(2) reachable_good(1) [OF assms(1)] good_rebase [OF reachable_good(2) [OF assms(1)]]]
  by (simp add: good_but_def)

text \<open>The records of the past.\<close>

lemma reachable_versions:
  assumes "reachable S s"
  shows "versions_ok (db_of s) (seq_of s)"
    and "specs_kept (se_pg S) \<Longrightarrow> spec_chains (db_of s)"
proof -
  have "records (specs_kept (se_pg S)) empty_db empty_seq (db_of s) (seq_of s)"
    using reachable_good(2) [OF assms] by (simp add: good_but_def evolves_def)
  moreover have "versions_ok empty_db empty_seq" "spec_chains empty_db"
    by (simp_all add: versions_ok_def spec_chains_def empty_db_def)
  ultimately show "versions_ok (db_of s) (seq_of s)" "specs_kept (se_pg S) \<Longrightarrow> spec_chains (db_of s)"
    by (simp_all add: records_def)
qed

lemma leads_to_records:
  assumes "reachable S s" "leads_to S s s'"
  shows "dropped (db_of s) \<subseteq> dropped (db_of s')" "txn_tables (db_of s) \<subseteq> txn_tables (db_of s')"
  using leads_to_evolves [OF assms] by (simp_all add: evolves_def records_def)

text \<open>A method under its lock, seen from a reachable state.\<close>

lemma locked_run:
  assumes "reachable S s" "with_locks ts m s = Some (r, s')" "distinct (map snd ts)"
  shows "m (sys_core s) = (r, sys_core s')"
  using with_locks_idle [OF reachable_good(1) [OF assms(1)] assms(3), of m] assms(2) by auto

subsection \<open>A first run\<close>

text \<open>A healthy database, and the server after creating a table and committing a partition.\<close>

definition healthy_pg :: pg_env where
  "healthy_pg = \<lparr>pe_fault = (\<lambda>_. NoFault), pe_clock = int, pe_jsonb = Some,
     pe_timestamp = (\<lambda>_. []), pe_error = (\<lambda>_. ''error'')\<rparr>"

definition healthy :: server_env where
  "healthy = \<lparr>se_pg = healthy_pg, se_disableCache = False, se_quote = (\<lambda>s. s), se_json_error = (\<lambda>s. s)\<rparr>"

definition default_config :: Config where
  "default_config = FromEnv (\<lambda>_. [])"

definition info :: "string \<Rightarrow> int64 \<Rightarrow> PartitionInfo" where
  "info key rows =
     \<lparr>pi_PartitionKey = key, pi_DataFilePath = ''f'' @ key, pi_RowCount = rows, pi_SizeBytes = 7,
      pi_SnapshotId = 0, pi_FileFormat = [], pi_ColumnStats = []\<rparr>"

definition fresh_server :: sys where
  "fresh_server = NewServer default_config empty_pg"

definition after :: "request list \<Rightarrow> sys" where
  "after reqs = (case serve_all healthy reqs fresh_server of None \<Rightarrow> fresh_server | Some s \<Rightarrow> s)"

lemma reachable_after: "reachable healthy (after reqs)"
  unfolding reachable_def after_def fresh_server_def
  by (rule exI [of _ default_config])
    (auto split: option.split intro: leads_to.here leads_to_serve_all)

definition create_t :: request where
  "create_t = Req_CreateTable ''t'' ''{}'' ''c'' []"

definition commit_a :: request where
  "commit_a = Req_CommitSnapshot ''t'' [info ''a'' 3, info ''b'' 4] [] 0 ''append''"

end
