(* ===== verification/Sample_Run.thy ===== *)
theory Sample_Run
  imports Catalog_Runs
begin

text \<open>
  The states the witnesses start from: a server on a healthy database after a table was created and
  two partitions were committed. The core of that state is written out, so that a witness evaluates
  one more method on it and not the whole run.
\<close>

definition two_rows :: sys where
  "two_rows = after [create_t, commit_a]"

definition t_spec_json :: string where
  \<open>t_spec_json = ''{"fields":[{"field_id":1,"source_column":"c","transform":"identity"}]}''\<close>

definition ab_json :: string where
  \<open>ab_json = ''[{"partition_key":"a"},{"partition_key":"b"}]''\<close>

definition two_rows_db :: database where
  "two_rows_db =
     \<lparr>d_tables = [\<lparr>t_id = 1, t_name = ''t'', t_schema = ''{}'', t_schema_version = 1, t_spec = t_spec_json,
        t_spec_version = 1, t_snapshot = 1, t_properties = ''{}'', t_updated_at = 6, t_deleted = False\<rparr>],
      d_history = [],
      d_snapshots = [\<lparr>s_id = 1, s_table = 1, s_parent = 0, s_committed_at = 6, s_operation = ''append'',
        s_added = 2, s_deleted = 0\<rparr>],
      d_partitions =
        [\<lparr>p_id = 1, p_table = 1, p_snapshot = 1, p_key = ''a'', p_path = ''fa'', p_format = ''parquet'',
           p_rows = 3, p_bytes = 7, p_stats = ''[]'', p_deleted = False, p_deleted_snapshot = None\<rparr>,
         \<lparr>p_id = 2, p_table = 1, p_snapshot = 1, p_key = ''b'', p_path = ''fb'', p_format = ''parquet'',
           p_rows = 4, p_bytes = 7, p_stats = ''[]'', p_deleted = False, p_deleted_snapshot = None\<rparr>],
      d_txns = [],
      d_mfiles = [\<lparr>mf_ManifestFileID = 1, mf_TableID = 1, mf_SnapshotID = 1,
        mf_ManifestPath = ''iceberg://t/1/0.avro'', mf_PartitionSpecID = 1, mf_AddedFilesCount = 2,
        mf_DeletedFilesCount = 0, mf_AddedRowsCount = 7, mf_DeletedRowsCount = 0,
        mf_PartitionSummaries = ab_json\<rparr>],
      d_mlists = [\<lparr>ml_ManifestListID = 1, ml_SnapshotID = 1, ml_TableID = 1, ml_ManifestCount = 1\<rparr>],
      d_specs = [\<lparr>g_id = 1, g_table = 1, g_version = 1, g_spec = t_spec_json, g_changed_at = 0,
        g_summary = ''initial spec''\<rparr>]\<rparr>"

definition two_rows_core :: core where
  "two_rows_core =
     \<lparr>c_pg = \<lparr>pg_db = two_rows_db,
        pg_seq = \<lparr>q_table = 1, q_history = 0, q_snapshot = 1, q_partition = 2, q_txn = 0, q_mfile = 1,
          q_mlist = 1, q_spec = 1\<rparr>,
        pg_tick = 17, pg_tx = None\<rparr>,
      c_cache = NewLRU 10000, c_mvcc = NewMVCCManager 300000000000\<rparr>"

lemma reachable_two_rows: "reachable healthy two_rows"
  unfolding two_rows_def by (rule reachable_after)

lemma two_rows_is: "sys_core two_rows = two_rows_core"
  by code_simp

lemma db_two_rows [simp]: "db_of two_rows = two_rows_db"
  by (simp add: two_rows_is two_rows_core_def)

text \<open>The server restarted on that database: its state is written out in full.\<close>

definition two_rows_pg :: pg where
  "two_rows_pg = \<lparr>pg_db = two_rows_db,
     pg_seq = \<lparr>q_table = 1, q_history = 0, q_snapshot = 1, q_partition = 2, q_txn = 0, q_mfile = 1,
       q_mlist = 1, q_spec = 1\<rparr>,
     pg_tick = 17, pg_tx = None\<rparr>"

definition small_config :: Config where
  "small_config = \<lparr>cfg_PGConnString = [], cfg_GRPCAddress = [], cfg_CacheCapacity = 8, cfg_PoolSize = 1,
     cfg_TxnTimeout = 1000, cfg_DisableCache = False\<rparr>"

definition restarted :: sys where
  "restarted = NewServer small_config two_rows_pg"

lemma reachable_restarted: "reachable healthy restarted"
proof -
  have "restarted = NewServer small_config (c_pg (sys_core two_rows))"
    by (simp add: restarted_def two_rows_is two_rows_core_def two_rows_pg_def)
  then show ?thesis using reachable_leads_to [OF reachable_two_rows leads_to.restart [OF leads_to.here]] by metis
qed

lemma db_restarted [simp]: "db_of restarted = two_rows_db"
  by (simp add: restarted_def NewServer_def two_rows_pg_def)

text \<open>A method under its lock, and a commit, evaluated on the written-out core.\<close>

lemma locked_eval:
  assumes "reachable S s" "distinct (map snd ts)"
  shows "\<exists>s'. with_locks ts m s = Some (fst (m (sys_core s)), s') \<and> sys_core s' = snd (m (sys_core s))"
  using with_locks_idle [OF reachable_good(1) [OF assms(1)] assms(2), of m] by auto

lemma commit_eval:
  assumes "fst (CommitSnapshot_locked (se_pg healthy) name parent opn parts keys two_rows_core) = r"
  obtains s' where "reg_CommitSnapshot (se_pg healthy) name parent opn parts keys two_rows = Some (r, s')"
  using locked_eval [OF reachable_two_rows, of "[(True, name)]"
    "CommitSnapshot_locked (se_pg healthy) name parent opn parts keys"] assms
  unfolding reg_CommitSnapshot_def two_rows_is by auto

text \<open>One more commit: a row is added and another deleted.\<close>

abbreviation commit_c :: "(CommitResult \<times> sys) option" where
  "commit_c \<equiv> reg_CommitSnapshot (se_pg healthy) ''t'' 1 ''append'' [protoToRow (info ''c'' 5)] [''a''] two_rows"

lemma commit_c_run:
  obtains s' where "commit_c = Some (\<lparr>cr_Success = True, cr_SnapshotID = 2, cr_ErrorMsg = []\<rparr>, s')"
proof -
  have "fst (CommitSnapshot_locked (se_pg healthy) ''t'' 1 ''append'' [protoToRow (info ''c'' 5)] [''a''] two_rows_core) =
    \<lparr>cr_Success = True, cr_SnapshotID = 2, cr_ErrorMsg = []\<rparr>" by code_simp
  from commit_eval [OF this] show thesis using that by blast
qed

lemma two_rows_old: "partitions_at two_rows_db ''t'' 1 = Some
    [\<lparr>pr_PartitionID = 1, pr_TableID = 1, pr_SnapshotID = 1, pr_PartitionKey = ''a'', pr_DataFilePath = ''fa'',
       pr_FileFormat = ''parquet'', pr_RowCount = 3, pr_SizeBytes = 7, pr_ColumnStats = []\<rparr>,
     \<lparr>pr_PartitionID = 2, pr_TableID = 1, pr_SnapshotID = 1, pr_PartitionKey = ''b'', pr_DataFilePath = ''fb'',
       pr_FileFormat = ''parquet'', pr_RowCount = 4, pr_SizeBytes = 7, pr_ColumnStats = []\<rparr>]"
  by code_simp

end
