(* ===== verification/Catalog_Theorems.thy ===== *)
theory Catalog_Theorems
  imports Sample_Run
begin

text \<open>
  The properties of the catalog over time: the invariant of all reachable states, progress of the
  handlers, what a commit does and does not do, what readers see, and how the history of a table
  survives later requests. Each witness runs the server on a healthy database.
\<close>

lemma uint64_less:
  assumes "0 \<le> i" "i < j" "j < 2 ^ 63"
  shows "uint64_of_int64 i < uint64_of_int64 j"
proof -
  have "uint (uint64_of_int64 k) = k" if "0 \<le> k" "k < 2 ^ 63" for k
    using that unfolding uint64_of_int64_def by (simp add: uint_word_of_int)
  then show ?thesis using assms by (simp add: word_less_def)
qed

subsection \<open>The invariant and progress\<close>

text \<open>
  C1: Whatever requests a server has handled and however often it was restarted and its database
  failed: no lock is held between requests, no database transaction is left open, ids are unique and
  drawn from their sequences, the snapshots of every table are one chain of parents that ends at its
  current snapshot, every partition belongs to a snapshot of its table and is deleted by a later one,
  every snapshot has one manifest list with the right count, the cache is well formed, and the pin
  counts are those of the active transactions.
\<close>

theorem reachable_invariant:
  assumes "reachable S s"
  shows "idle (sys_locks s) \<and> pg_tx (c_pg (sys_core s)) = None \<and> db_inv (db_of s) (seq_of s) \<and>
    lru_inv (c_cache (sys_core s)) \<and> mvcc_inv (c_mvcc (sys_core s))"
  using reachable_good(1) [OF assms] reachable_parts [OF assms] by blast

theorem reachable_invariant_witness:
  "map (\<lambda>s. (s_id s, s_parent s)) (d_snapshots (db_of two_rows)) = [(1, 0)] \<and> db_inv (db_of two_rows) (seq_of two_rows)"
proof
  show "map (\<lambda>s. (s_id s, s_parent s)) (d_snapshots (db_of two_rows)) = [(1, 0)]"
    by (simp add: two_rows_db_def)
  show "db_inv (db_of two_rows) (seq_of two_rows)"
    using reachable_invariant [OF reachable_two_rows] by blast
qed

lemma counted_range: "counted v vs \<Longrightarrow> x \<in> set vs \<Longrightarrow> in_int32 x"
  unfolding counted_def by (metis (no_types, lifting) ex_map_conv int32_of_range)

lemma chain_parents:
  assumes "chain_ok cur xs" "ids_upto s_id n xs"
  shows "\<forall>x \<in> set xs. 0 \<le> s_parent x \<and> s_parent x < s_id x" "0 \<le> cur \<and> (cur \<le> n \<or> cur = 0)"
proof -
  let ?ids = "map s_id xs"
  have ids: "sorted_wrt (<) ?ids" "\<And>i. i < length xs \<Longrightarrow> 0 < s_id (xs ! i) \<and> s_id (xs ! i) \<le> n"
    using assms(2) by (simp_all add: ids_upto_def)
  have "0 \<le> s_parent (xs ! i) \<and> s_parent (xs ! i) < s_id (xs ! i)" if i: "i < length xs" for i
  proof -
    have "s_parent (xs ! i) = butlast (0 # ?ids) ! i" using assms(1) i by (simp add: chain_ok_def flip: nth_map)
    also have "\<dots> = (0 # ?ids) ! i" using i by (intro nth_butlast) auto
    finally show ?thesis
      using i ids(2) [of "i - 1"] ids(2) [OF i] sorted_wrt_nth_less [OF ids(1), of "i - 1" i] by (cases i) simp_all
  qed
  then show "\<forall>x \<in> set xs. 0 \<le> s_parent x \<and> s_parent x < s_id x" by (simp add: all_set_conv_all_nth)
  show "0 \<le> cur \<and> (cur \<le> n \<or> cur = 0)"
    using assms(1) ids(2) [of "length xs - 1"] by (cases xs rule: rev_cases) (auto simp: chain_ok_def nth_append)
qed

lemma is_snapshot_range: "ids_upto s_id n ss \<Longrightarrow> is_snapshot tid m ss \<Longrightarrow> 0 < m \<and> m \<le> n"
  by (auto simp: is_snapshot_def ids_upto_def)

text \<open>
  C25: Every stored integer has the type of its column. In every reachable state the ids of tables,
  snapshots and partitions and the references between them are positive 64-bit integers, also when
  converted to \<^verbatim>\<open>uint64\<close> and back as the messages do, the snapshot pointer and the parents are not
  negative, and the version numbers of tables and of their histories are 32-bit integers.
\<close>

theorem stored_integers_fit:
  assumes "reachable S s"
  shows "(\<forall>t \<in> set (d_tables (db_of s)). 0 < t_id t \<and> t_id t < 2 ^ 63 \<and> 0 \<le> t_snapshot t \<and> t_snapshot t < 2 ^ 63 \<and>
      in_int32 (t_schema_version t) \<and> in_int32 (t_spec_version t) \<and>
      (\<forall>h \<in> set (history_of (t_id t) (db_of s)). in_int32 (h_version h)) \<and>
      (\<forall>g \<in> set (specs_of (t_id t) (db_of s)). in_int32 (g_version g))) \<and>
    (\<forall>x \<in> set (d_snapshots (db_of s)). 0 < s_id x \<and> int64_of_uint64 (uint64_of_int64 (s_id x)) = s_id x \<and>
      0 < s_table x \<and> 0 \<le> s_parent x \<and> s_parent x < s_id x) \<and>
    (\<forall>p \<in> set (d_partitions (db_of s)). 0 < p_id p \<and> int64_of_uint64 (uint64_of_int64 (p_id p)) = p_id p \<and>
      0 < p_table p \<and> 0 < p_snapshot p \<and> p_snapshot p < 2 ^ 63)"
proof -
  note inv = reachable_parts(1) [OF assms]
  have hd: "ids_upto fst (q_table (seq_of s)) (heads (db_of s))" and sn: "ids_upto s_id (q_snapshot (seq_of s)) (d_snapshots (db_of s))"
    and pa: "ids_upto p_id (q_partition (seq_of s)) (d_partitions (db_of s))"
    and q: "q_table (seq_of s) < 2 ^ 63" "q_snapshot (seq_of s) < 2 ^ 63" "q_partition (seq_of s) < 2 ^ 63"
    using inv by (simp_all add: db_inv_def store_inv_def)
  have tab: "0 < t_id t \<and> t_id t < 2 ^ 63 \<and> chain_ok (t_snapshot t) (snapshots_of (t_id t) (d_snapshots (db_of s)))"
    if "t \<in> set (d_tables (db_of s))" for t
    using inv hd q(1) that by (force simp: db_inv_def store_inv_def ids_upto_def heads_def)
  have sub: "ids_upto s_id (q_snapshot (seq_of s)) (snapshots_of i (d_snapshots (db_of s)))" for i
    unfolding snapshots_of_def by (rule ids_upto_filter [OF sn])
  have owner: "\<exists>t \<in> set (d_tables (db_of s)). t_id t = i" if "i \<in> fst ` set (heads (db_of s))" for i
    using that by (auto simp: heads_def)
  have "0 < s_id x \<and> int64_of_uint64 (uint64_of_int64 (s_id x)) = s_id x \<and> 0 < s_table x \<and> 0 \<le> s_parent x \<and> s_parent x < s_id x"
    if x: "x \<in> set (d_snapshots (db_of s))" for x
  proof -
    have "s_table x \<in> fst ` set (heads (db_of s))" using inv x by (simp add: db_inv_def store_inv_def)
    then obtain t where t: "t \<in> set (d_tables (db_of s))" "t_id t = s_table x" using owner by blast
    have "x \<in> set (snapshots_of (t_id t) (d_snapshots (db_of s)))" using x t(2) by (simp add: snapshots_of_def)
    moreover have "0 < s_id x" "s_id x < 2 ^ 63" using sn x q(2) by (force simp: ids_upto_def)+
    ultimately show ?thesis using chain_parents(1) [OF _ sub] tab [OF t(1)] t(2) by (fastforce simp: in_int64_def)
  qed
  moreover have "0 < p_id p \<and> int64_of_uint64 (uint64_of_int64 (p_id p)) = p_id p \<and> 0 < p_table p \<and> 0 < p_snapshot p \<and> p_snapshot p < 2 ^ 63"
    if p: "p \<in> set (d_partitions (db_of s))" for p
  proof -
    have ok: "p_table p \<in> fst ` set (heads (db_of s))" "is_snapshot (p_table p) (p_snapshot p) (d_snapshots (db_of s))"
      using inv p by (auto simp: db_inv_def store_inv_def partition_ok_def)
    have "0 < p_id p" "p_id p < 2 ^ 63" using pa p q(3) by (force simp: ids_upto_def)+
    then show ?thesis using is_snapshot_range [OF sn ok(2)] owner [OF ok(1)] tab q(2) by (force simp: in_int64_def)
  qed
  moreover have "0 \<le> t_snapshot t \<and> t_snapshot t < 2 ^ 63" if "t \<in> set (d_tables (db_of s))" for t
    using chain_parents(2) [OF _ sub] tab [OF that] q(2) by fastforce
  moreover have "in_int32 (t_schema_version t) \<and> in_int32 (t_spec_version t) \<and>
      (\<forall>h \<in> set (history_of (t_id t) (db_of s)). in_int32 (h_version h)) \<and>
      (\<forall>g \<in> set (specs_of (t_id t) (db_of s)). in_int32 (g_version g))" if "t \<in> set (d_tables (db_of s))" for t
    using reachable_versions(1) [OF assms] that counted_range
    unfolding versions_ok_def schema_current_def spec_current_def by fastforce
  ultimately show ?thesis using tab by blast
qed

theorem stored_integers_fit_witness:
  "map (\<lambda>x. (s_id x, s_parent x)) (d_snapshots (db_of restarted)) = [(1, 0)] \<and>
   int64_of_uint64 (uint64_of_int64 1) = 1 \<and>
   (\<exists>t. t \<in> set (d_tables (db_of restarted)) \<and> 0 < t_id t \<and> in_int32 (t_schema_version t))"
proof -
  have "map (\<lambda>x. (s_id x, s_parent x)) (d_snapshots two_rows_db) = [(1, 0)]" by code_simp
  moreover from this obtain x where "x \<in> set (d_snapshots two_rows_db)" "s_id x = 1" by auto
  moreover obtain t where "t \<in> set (d_tables two_rows_db)" by (simp add: two_rows_db_def)
  ultimately show ?thesis using stored_integers_fit [OF reachable_restarted] by (auto simp: db_restarted)
qed



subsection \<open>Commits\<close>

lemma reg_CommitSnapshot_run:
  assumes "reachable S s" "reg_CommitSnapshot (se_pg S) name parent opn parts keys s = Some (r, s')"
  shows "CommitSnapshot_locked (se_pg S) name parent opn parts keys (sys_core s) = (r, sys_core s')"
  using locked_run [OF assms(1) assms(2)[unfolded reg_CommitSnapshot_def]] by simp

lemma commit_cases:
  assumes s: "reachable S s" and run: "reg_CommitSnapshot (se_pg S) name parent opn parts keys s = Some (r, s')"
  obtains (unchanged) "\<not> cr_Success r" "db_of s' = db_of s"
  | (committed) v where "commit_effect (se_pg S) (seq_of s) name v parent opn parts keys (db_of s) (db_of s')"
      "parent = current_of name (db_of s)"
      "cr_Success r \<longrightarrow> cr_SnapshotID r = uint64_of_int64 (q_snapshot (seq_of s) + 1)"
      "cr_Success r \<or> acks_lost (se_pg S)" "db_inv (db_of s') (seq_of s')"
proof -
  note I = reachable_parts [OF s]
  have q: "0 \<le> q_snapshot (seq_of s)" using I(1) by (auto simp: db_inv_def store_inv_def)
  note p = CommitSnapshot_post [OF reg_CommitSnapshot_run [OF s run] I(2) q]
  show thesis
  proof (cases "\<not> cr_Success r \<and> db_of s' = db_of s")
    case True
    then show ?thesis by (intro unchanged) simp_all
  next
    case False
    with p obtain v where e: "commit_effect (se_pg S) (seq_of s) name v parent opn parts keys (db_of s) (db_of s')"
      and par: "parent = current_of name (db_of s)"
      and r: "cr_Success r \<longrightarrow> cr_SnapshotID r = uint64_of_int64 (q_snapshot (seq_of s) + 1)"
        "cr_Success r \<or> acks_lost (se_pg S)" by blast
    have "ids_below (db_of s') (seq_of s')" "seq_le (seq_of s) (seq_of s')"
      using p db_inv_below [OF I(1)] by blast+
    then have "db_inv (db_of s') (seq_of s')" using commit_inv [OF I(1) e par] by blast
    with e par r show ?thesis by (rule committed)
  qed
qed

text \<open>What a commit leaves behind, in terms of the queries.\<close>

lemma committed_views:
  assumes inv: "db_inv db sq" "db_inv db' sq'"
    and eff: "commit_effect E sq name v parent opn parts keys db db'" and par: "parent = current_of name db"
  shows "\<exists>old new. partitions_at db name parent = Some old \<and>
    partitions_at db' name (uint64_of_int64 (q_snapshot sq + 1)) =
      Some (filter (\<lambda>p. pr_PartitionKey p \<notin> set keys) (old @ new)) \<and>
    map row_data new = map row_data parts \<and> map pr_ColumnStats new = map (stats_of E) parts \<and>
    current_of name db' = uint64_of_int64 (q_snapshot sq + 1) \<and>
    parent < uint64_of_int64 (q_snapshot sq + 1)"
proof -
  let ?n = "q_snapshot sq + 1"
  obtain t where t: "live_table name db = Some t" and n: "?n < 2 ^ 63"
    using eff unfolding commit_effect_def Let_def by auto
  have q: "0 \<le> q_snapshot sq" using inv(1) by (simp add: db_inv_def store_inv_def)
  have int: "int64_of_uint64 (uint64_of_int64 ?n) = ?n" using n q by (simp add: in_int64_def)
  obtain now where tabs: "d_tables db' = d_tables (snd (update_live name
      (\<lambda>t. t\<lparr>t_snapshot := ?n, t_updated_at := now\<rparr>) db))" by (rule commit_tables [OF eff])
  have t': "live_table name db' = Some (t\<lparr>t_snapshot := ?n, t_updated_at := now\<rparr>)"
    using live_table_update [of name "\<lambda>t. t\<lparr>t_snapshot := ?n, t_updated_at := now\<rparr>" db] t
    by (simp add: live_table_def tabs is_live_def)
  obtain rows where rows: "new_partitions E (t_id t) ?n (q_partition sq) parts = Some rows"
    "rows_at (t_id t) ?n db' = filter (\<lambda>p. pr_PartitionKey p \<notin> set keys)
      (rows_at (t_id t) (t_snapshot t) db @ map scan_partition rows)"
    using commit_new_rows [OF inv eff t] by blast
  have "partitions_at db name parent = Some (rows_at (t_id t) (t_snapshot t) db)"
    using t pointer_of(1) [OF inv(1) t] by (simp add: partitions_at_rows par)
  moreover have "partitions_at db' name (uint64_of_int64 ?n) = Some (rows_at (t_id t) ?n db')"
    using t' int by (simp add: partitions_at_rows)
  moreover have "current_of name db' = uint64_of_int64 ?n" using t' q by (simp add: current_of_def)
  moreover have "parent < uint64_of_int64 ?n"
    using pointer_of(2) [OF inv(1) t] t n by (simp add: par current_of_def uint64_less)
  ultimately show ?thesis using rows(2) new_rows_data [OF rows(1)] by (metis (no_types, lifting))
qed

text \<open>
  C2: A commit is all or nothing, whatever calls to the database fail. Either the result is a failure
  and the database is unchanged, or the parent was the current snapshot, the pointer of the table now
  names a new, larger snapshot whose rows are those of the parent without the deleted keys followed
  by the new ones, the rest of the history is as before, and the result says so unless the answer to
  the final commit was lost.
\<close>

theorem commit_all_or_nothing:
  assumes "reachable S s" "reg_CommitSnapshot (se_pg S) name parent opn parts keys s = Some (r, s')"
  shows "(\<not> cr_Success r \<and> db_of s' = db_of s) \<or>
    (cr_Success r \<or> acks_lost (se_pg S)) \<and> parent = current_of name (db_of s) \<and>
    parent < current_of name (db_of s') \<and>
    (\<exists>old new. partitions_at (db_of s) name parent = Some old \<and> map row_data new = map row_data parts \<and>
      partitions_at (db_of s') name (current_of name (db_of s')) =
        Some (filter (\<lambda>p. pr_PartitionKey p \<notin> set keys) (old @ new))) \<and>
    (\<forall>tid. \<forall>m \<le> q_snapshot (seq_of s). rows_at tid m (db_of s') = rows_at tid m (db_of s))"
proof (rule commit_cases [OF assms])
  fix v
  assume e: "commit_effect (se_pg S) (seq_of s) name v parent opn parts keys (db_of s) (db_of s')"
    and par: "parent = current_of name (db_of s)" and ok: "cr_Success r \<or> acks_lost (se_pg S)"
    and inv': "db_inv (db_of s') (seq_of s')"
  note inv = reachable_parts(1) [OF assms(1)]
  from committed_views [OF inv inv' e par] obtain old new where
    v: "partitions_at (db_of s) name parent = Some old"
      "partitions_at (db_of s') name (current_of name (db_of s')) =
         Some (filter (\<lambda>p. pr_PartitionKey p \<notin> set keys) (old @ new))"
      "map row_data new = map row_data parts" "parent < current_of name (db_of s')" by metis
  have "\<forall>tid. \<forall>m \<le> q_snapshot (seq_of s). rows_at tid m (db_of s') = rows_at tid m (db_of s)"
    using commit_keeps_rows [OF inv inv' e] by blast
  with v par ok show ?thesis by blast
qed blast

text \<open>
  C3: After a successful commit the new snapshot is the current one, its id is the one reported and
  larger than the parent, and its rows are the rows of the parent followed by the new ones, with the
  data and the column statistics that were sent, less every row whose key is in the list of deleted
  keys.
\<close>

theorem commit_visibility:
  assumes "reachable S s" "reg_CommitSnapshot (se_pg S) name parent opn parts keys s = Some (r, s')"
    and "cr_Success r"
  shows "\<exists>old new. partitions_at (db_of s) name parent = Some old \<and>
    partitions_at (db_of s') name (cr_SnapshotID r) =
      Some (filter (\<lambda>p. pr_PartitionKey p \<notin> set keys) (old @ new)) \<and>
    map row_data new = map row_data parts \<and> map pr_ColumnStats new = map (stats_of (se_pg S)) parts \<and>
    current_of name (db_of s') = cr_SnapshotID r \<and> parent < cr_SnapshotID r"
proof (rule commit_cases [OF assms(1,2)])
  fix v
  assume e: "commit_effect (se_pg S) (seq_of s) name v parent opn parts keys (db_of s) (db_of s')"
    and par: "parent = current_of name (db_of s)" and inv': "db_inv (db_of s') (seq_of s')"
    and id: "cr_Success r \<longrightarrow> cr_SnapshotID r = uint64_of_int64 (q_snapshot (seq_of s) + 1)"
  show ?thesis
    using committed_views [OF reachable_parts(1) [OF assms(1)] inv' e par] id assms(3) by simp
qed (use assms(3) in blast)

theorem commit_all_or_nothing_witness:
  "\<exists>r s'. commit_c = Some (r, s') \<and> cr_Success r \<and> 1 < current_of ''t'' (db_of s') \<and>
     rows_at 1 1 (db_of s') = rows_at 1 1 (db_of two_rows)"
proof (rule commit_c_run)
  fix s' assume run: "commit_c = Some (\<lparr>cr_Success = True, cr_SnapshotID = 2, cr_ErrorMsg = []\<rparr>, s')"
  have q: "1 \<le> q_snapshot (seq_of two_rows)" by (simp add: two_rows_is two_rows_core_def)
  from commit_all_or_nothing [OF reachable_two_rows run]
  have "1 < current_of ''t'' (db_of s')"
    "\<forall>tid. \<forall>m \<le> q_snapshot (seq_of two_rows). rows_at tid m (db_of s') = rows_at tid m (db_of two_rows)"
    unfolding CommitResult.simps by blast+
  with run q show ?thesis by (intro exI conjI) (assumption, simp, assumption, blast)
qed

theorem commit_visibility_witness:
  "\<exists>r s' rows. commit_c = Some (r, s') \<and> partitions_at (db_of s') ''t'' 2 = Some rows \<and>
     map row_data rows = [(''b'', ''fb'', ''parquet'', 4, 7), (''c'', ''fc'', ''parquet'', 5, 7)] \<and>
     current_of ''t'' (db_of s') = 2"
proof (rule commit_c_run)
  fix s' assume run: "commit_c = Some (\<lparr>cr_Success = True, cr_SnapshotID = 2, cr_ErrorMsg = []\<rparr>, s')"
  from commit_visibility [OF reachable_two_rows run] obtain o' n' where
    v: "partitions_at two_rows_db ''t'' 1 = Some o'"
      "partitions_at (db_of s') ''t'' 2 = Some (filter (\<lambda>p. pr_PartitionKey p \<notin> set [''a'']) (o' @ n'))"
      "map row_data n' = map row_data [protoToRow (info ''c'' 5)]" "current_of ''t'' (db_of s') = 2"
    unfolding CommitResult.simps db_two_rows by blast
  obtain p where n': "n' = [p]" "row_data p = row_data (protoToRow (info ''c'' 5))"
    using v(3) by (auto simp: map_eq_Cons_conv)
  then have "row_data p = (''c'', ''fc'', ''parquet'', 5, 7)" "pr_PartitionKey p = ''c''"
    by (simp_all add: row_data_def protoToRow_def info_def defaultString_def)
  then have "map row_data (filter (\<lambda>p. pr_PartitionKey p \<notin> set [''a'']) (o' @ n')) =
      [(''b'', ''fb'', ''parquet'', 4, 7), (''c'', ''fc'', ''parquet'', 5, 7)]"
    using v(1) by (simp add: two_rows_old n'(1)) (auto simp: row_data_def)
  with run v(2,4) show ?thesis by (intro exI conjI)
qed

text \<open>
  C14: A commit whose parent is not the current snapshot of the table fails and changes nothing in the
  database, and so does every commit on a table that does not exist.
\<close>

theorem stale_commit_rejected:
  assumes "reachable S s" "reg_CommitSnapshot (se_pg S) name parent opn parts keys s = Some (r, s')"
    and "parent \<noteq> current_of name (db_of s) \<or> live_table name (db_of s) = None"
  shows "\<not> cr_Success r \<and> db_of s' = db_of s"
proof (rule commit_cases [OF assms(1,2)])
  fix v
  assume "commit_effect (se_pg S) (seq_of s) name v parent opn parts keys (db_of s) (db_of s')"
    "parent = current_of name (db_of s)"
  then show ?thesis using assms(3) unfolding commit_effect_def Let_def by auto
qed blast

theorem stale_commit_rejected_witness:
  "\<exists>r s'. reg_CommitSnapshot (se_pg healthy) ''t'' 0 ''append'' [] [''a''] two_rows = Some (r, s') \<and>
     \<not> cr_Success r \<and> db_of s' = db_of two_rows"
proof -
  obtain r s' where run: "reg_CommitSnapshot (se_pg healthy) ''t'' 0 ''append'' [] [''a''] two_rows = Some (r, s')"
    by (rule commit_eval [OF refl])
  have "current_of ''t'' two_rows_db = 1" by code_simp
  with stale_commit_rejected [OF reachable_two_rows run] run show ?thesis by simp
qed

text \<open>
  C4: There are no lost updates. Once a commit on top of a snapshot has succeeded, no later commit
  with the same parent succeeds on that table, whatever happens in between.
\<close>

lemma pointer_grows:
  assumes ev: "evolves K db sq db' sq'" and inv: "db_inv db sq" "db_inv db' sq'"
    and t: "live_table a db = Some t" "live_table b db' = Some t'" "t_id t' = t_id t"
  shows "t_snapshot t \<le> t_snapshot t'"
proof (cases "snapshots_of (t_id t) (d_snapshots db) = []")
  let ?tid = "t_id t"
  have chain: "chain_ok (t_snapshot t) (snapshots_of ?tid (d_snapshots db))"
    "chain_ok (t_snapshot t') (snapshots_of ?tid (d_snapshots db'))"
    using inv live_table_Some [OF t(1)] live_table_Some [OF t(2)] t(3)
    by (force simp: db_inv_def store_inv_def heads_def)+
  {
    case True
    then have "t_snapshot t = 0" using chain(1) by (simp add: chain_ok_def)
    then show ?thesis using pointer_of(2) [OF inv(2) t(2)] by simp
  next
    case False
    have "?tid \<in> table_ids db'"
      using live_table_Some [OF t(2)] t(3) unfolding table_ids_def by (metis imageI)
    moreover have "?tid \<le> q_table sq"
      using live_table_Some [OF t(1)] db_inv_below [OF inv(1)] by (simp add: ids_below_def)
    ultimately have "prefix (snapshots_of ?tid (d_snapshots db)) (snapshots_of ?tid (d_snapshots db'))"
      using ev by (simp add: evolves_def)
    then have "last (snapshots_of ?tid (d_snapshots db)) \<in> set (snapshots_of ?tid (d_snapshots db'))"
      using False by (metis last_in_set prefix_def Un_iff set_append)
    then have "is_snapshot ?tid (s_id (last (snapshots_of ?tid (d_snapshots db)))) (d_snapshots db')"
      by (auto simp: is_snapshot_def snapshots_of_def)
    moreover have "t_snapshot t = s_id (last (snapshots_of ?tid (d_snapshots db)))"
      using chain(1) False by (simp add: chain_ok_def last_map)
    moreover have "ids_upto s_id (q_snapshot sq') (d_snapshots db')"
      using inv(2) by (simp add: db_inv_def store_inv_def)
    ultimately show ?thesis using chain_le chain(2) by metis
  }
qed

lemma current_grows:
  assumes s: "reachable S s" and run: "leads_to S s s'"
    and t: "live_table a (db_of s) = Some t" "live_table b (db_of s') = Some t'" "t_id t' = t_id t"
  shows "current_of a (db_of s) \<le> current_of b (db_of s')"
proof -
  have s': "reachable S s'" using reachable_leads_to [OF s run] .
  note inv = reachable_parts(1) [OF s] reachable_parts(1) [OF s']
  have "t_snapshot t \<le> t_snapshot t'" using pointer_grows [OF leads_to_evolves [OF s run] inv t] .
  moreover have "0 \<le> t_snapshot t" "t_snapshot t' < 2 ^ 63"
    using pointer_of(2) [OF inv(1) t(1)] pointer_of(2) [OF inv(2) t(2)] inv(2)
    by (auto simp: db_inv_def store_inv_def)
  ultimately show ?thesis using t uint64_less [of "t_snapshot t" "t_snapshot t'"]
    by (cases "t_snapshot t = t_snapshot t'") (auto simp: current_of_def)
qed

lemma srv_CommitSnapshot_run:
  assumes "srv_CommitSnapshot S name parts keys parent opn s = Some (Inr r, s')"
  shows "reg_CommitSnapshot (se_pg S) name parent (defaultString opn ''append'') (map protoToRow parts) keys s =
      Some (r, s') \<or> \<not> cr_Success r \<and> s' = s"
  using assms unfolding srv_CommitSnapshot_def
  by (auto simp: act_then_def act_ret_def commit_failed_def split: option.splits)

lemma commit_pointer:
  assumes "reachable S s" "reg_CommitSnapshot (se_pg S) name parent opn parts keys s = Some (r, s')" "cr_Success r"
  shows "parent < current_of name (db_of s')"
proof (rule commit_cases [OF assms(1,2)])
  fix v
  assume "commit_effect (se_pg S) (seq_of s) name v parent opn parts keys (db_of s) (db_of s')"
    "parent = current_of name (db_of s)" "db_inv (db_of s') (seq_of s')"
  then show ?thesis using committed_views [OF reachable_parts(1) [OF assms(1)]] by metis
qed (use assms(3) in blast)

theorem no_lost_update:
  assumes "reachable S s" "srv_CommitSnapshot S name parts keys parent opn s = Some (Inr r, s1)" "cr_Success r"
    and "leads_to S s1 s2" "table_id_of name' (db_of s2) = table_id_of name (db_of s1)"
    and "srv_CommitSnapshot S name' parts' keys' parent opn' s2 = Some (Inr r', s3)"
  shows "\<not> cr_Success r' \<and> db_of s3 = db_of s2"
proof -
  have s1: "reachable S s1"
    using assms(2) by (intro reachable_request [OF assms(1), of "Req_CommitSnapshot name parts keys parent opn"])
      (simp add: run_act_def)
  have s2: "reachable S s2" using reachable_leads_to [OF s1 assms(4)] .
  have less: "parent < current_of name (db_of s1)"
    using srv_CommitSnapshot_run [OF assms(2)] assms(3) commit_pointer [OF assms(1)] by blast
  have "\<not> cr_Success r' \<and> db_of s3 = db_of s2" if
    run: "reg_CommitSnapshot (se_pg S) name' parent opn'' ps keys' s2 = Some (r', s3)" for opn'' ps
  proof (rule commit_cases [OF s2 run])
    fix v
    assume e: "commit_effect (se_pg S) (seq_of s2) name' v parent opn'' ps keys' (db_of s2) (db_of s3)"
      and par: "parent = current_of name' (db_of s2)"
    obtain t' where t': "live_table name' (db_of s2) = Some t'"
      using e unfolding commit_effect_def Let_def by auto
    obtain t where t: "live_table name (db_of s1) = Some t"
      using less by (cases "live_table name (db_of s1)") (simp_all add: current_of_def)
    have "t_id t' = t_id t" using assms(5) t t' by (simp add: table_id_of_def)
    from current_grows [OF s1 assms(4) t t' this] less par show ?thesis by simp
  qed blast
  then show ?thesis using srv_CommitSnapshot_run [OF assms(6)] by blast
qed

theorem no_lost_update_witness:
  "\<exists>s1 r s2. srv_CommitSnapshot healthy ''t'' [info ''c'' 5] [''a''] 1 ''append'' two_rows =
       Some (Inr \<lparr>cr_Success = True, cr_SnapshotID = 2, cr_ErrorMsg = []\<rparr>, s1) \<and>
     srv_CommitSnapshot healthy ''t'' [] [''b''] 1 ''append'' s1 = Some (Inr r, s2) \<and>
     \<not> cr_Success r \<and> db_of s2 = db_of s1"
proof (rule commit_c_run)
  fix s1 assume "commit_c = Some (\<lparr>cr_Success = True, cr_SnapshotID = 2, cr_ErrorMsg = []\<rparr>, s1)"
  then have 1: "srv_CommitSnapshot healthy ''t'' [info ''c'' 5] [''a''] 1 ''append'' two_rows =
      Some (Inr \<lparr>cr_Success = True, cr_SnapshotID = 2, cr_ErrorMsg = []\<rparr>, s1)"
    by (simp add: srv_CommitSnapshot_def act_then_def act_ret_def defaultString_def) (simp add: info_def)
  have "reachable healthy s1"
    by (rule reachable_request [OF reachable_two_rows, of "Req_CommitSnapshot ''t'' [info ''c'' 5] [''a''] 1 ''append''"])
      (simp add: run_act_def 1)
  then obtain r s2 where
    "reg_CommitSnapshot (se_pg healthy) ''t'' 1 ''append'' (map protoToRow []) [''b''] s1 = Some (r, s2)"
    using locked_eval [of healthy s1 "[(True, ''t'')]"] unfolding reg_CommitSnapshot_def by fastforce
  then have 2: "srv_CommitSnapshot healthy ''t'' [] [''b''] 1 ''append'' s1 = Some (Inr r, s2)"
    by (simp add: srv_CommitSnapshot_def act_then_def act_ret_def defaultString_def)
  from no_lost_update [OF reachable_two_rows 1 _ leads_to.here refl 2]
  have "\<not> cr_Success r \<and> db_of s2 = db_of s1" by simp
  with 1 2 show ?thesis by blast
qed

end
