(* ===== verification/Read_Answers.thy ===== *)
theory Read_Answers
  imports Catalog_Runs
begin

text \<open>
  What the read methods answer. \<open>answers P m f\<close> says that \<open>m\<close> leaves the database alone and, on
  databases that satisfy \<open>P\<close>, gives \<open>f\<close> of the database whenever it gives a result; \<open>act_answers\<close>
  says the same of a method under its locks and \<open>replies\<close> of a gRPC handler, where \<open>Internal\<close> is the
  status of a failed database call. The rules follow the structure of the methods.
\<close>

subsection \<open>Queries\<close>

definition answers :: "(database \<Rightarrow> bool) \<Rightarrow> (pg \<Rightarrow> (pg_error + 'a) \<times> pg) \<Rightarrow> (database \<Rightarrow> 'a) \<Rightarrow> bool" where
  "answers P m f \<longleftrightarrow> (\<forall>w r w'. P (pg_db w) \<longrightarrow> m w = (r, w') \<longrightarrow>
     same_db w w' \<and> (\<forall>x. r = Inr x \<longrightarrow> x = f (pg_db w)))"

lemma answersI:
  "(\<And>w r w'. P (pg_db w) \<Longrightarrow> m w = (r, w') \<Longrightarrow> same_db w w' \<and> (\<forall>x. r = Inr x \<longrightarrow> x = f (pg_db w))) \<Longrightarrow> answers P m f"
  unfolding answers_def by blast

lemma answersD:
  "answers P m f \<Longrightarrow> P (pg_db w) \<Longrightarrow> m w = (r, w') \<Longrightarrow> same_db w w' \<and> (\<forall>x. r = Inr x \<longrightarrow> x = f (pg_db w))"
  unfolding answers_def by blast

lemma answers_ret: "(\<And>db. P db \<Longrightarrow> x = f db) \<Longrightarrow> answers P (ret (Inr x)) f"
  by (rule answersI) (auto simp: ret_def)

lemma answers_error: "answers P (ret (Inl e)) f"
  by (rule answersI) (auto simp: ret_def)

lemma answers_query: "(\<And>db. P db \<Longrightarrow> g db = f db) \<Longrightarrow> answers P (pool_exec E texts (query g)) f"
  by (rule answersI) (use pool_query in \<open>force simp: same_db_def\<close>)

lemma answers_bind:
  assumes "answers P m g" "\<And>x. answers (\<lambda>db. P db \<and> x = g db) (k x) f"
  shows "answers P (on_err m (\<lambda>e. ret (Inl e)) k) f"
proof (rule answersI)
  fix w r w' assume P: "P (pg_db w)" and run: "on_err m (\<lambda>e. ret (Inl e)) k w = (r, w')"
  from run show "same_db w w' \<and> (\<forall>x. r = Inr x \<longrightarrow> x = f (pg_db w))"
  proof (cases rule: on_err_cases)
    case (err e w1)
    then show ?thesis using answersD [OF assms(1) P] by (auto simp: ret_def)
  next
    case (ok x w1)
    from answersD [OF assms(1) P ok(1)] have 1: "same_db w w1" "x = g (pg_db w)" by auto
    then have "P (pg_db w1) \<and> x = g (pg_db w1)" using P by (simp add: same_db_def)
    from answersD [OF assms(2) this ok(2)] 1(1) show ?thesis by (auto simp: same_db_def)
  qed
qed

text \<open>One row or none.\<close>

lemma answers_row:
  assumes "\<And>db. P db \<Longrightarrow> g db = None \<Longrightarrow> f db = n" "\<And>x. answers (\<lambda>db. P db \<and> g db = Some x) (k x) f"
  shows "answers P (on_err (scan_row (pool_exec E texts (query g))) (on_no_rows n) k) f"
proof (rule answersI)
  fix w r w' assume P: "P (pg_db w)"
    and run: "on_err (scan_row (pool_exec E texts (query g))) (on_no_rows n) k w = (r, w')"
  from run show "same_db w w' \<and> (\<forall>x. r = Inr x \<longrightarrow> x = f (pg_db w))"
  proof (cases rule: on_err_cases)
    case (err e w1)
    from pool_row [OF err(1)] err(2) P assms(1) show ?thesis
      by (auto simp: on_no_rows_def ret_def split: if_splits)
  next
    case (ok x w1)
    from pool_row [OF ok(1)] have 1: "same_db w w1" "g (pg_db w) = Some x" by auto
    then have "P (pg_db w1) \<and> g (pg_db w1) = Some x" using P by (simp add: same_db_def)
    from answersD [OF assms(2) this ok(2)] 1(1) show ?thesis by (auto simp: same_db_def)
  qed
qed

lemma answers_if:
  "(b \<Longrightarrow> answers P m f) \<Longrightarrow> (\<not> b \<Longrightarrow> answers P m' f) \<Longrightarrow> answers P (if b then m else m') f"
  by simp

lemma answers_cong: "answers P m g \<Longrightarrow> (\<And>db. P db \<Longrightarrow> g db = f db) \<Longrightarrow> answers P m f"
  unfolding answers_def by simp

lemma answers_pre: "answers P m f \<Longrightarrow> (\<And>db. Q db \<Longrightarrow> P db) \<Longrightarrow> answers Q m f"
  unfolding answers_def by blast

subsection \<open>The client\<close>

definition sound :: "database \<Rightarrow> bool" where
  "sound db \<longleftrightarrow> (\<exists>sq. db_inv db sq)"

lemma answers_table: "answers P (pg_GetTable E name) (\<lambda>db. map_option table_row (live_table name db))"
  by (rule answersI) (rule pg_GetTable_spec)

lemma answers_table_id: "answers P (pg_GetTableID E name) (table_id_of name)"
  by (rule answersI) (rule pg_GetTableID_spec)

lemma answers_current: "answers P (pg_GetCurrentSnapshot E name) (current_of name)"
  by (rule answersI) (rule pg_GetCurrentSnapshot_spec)

lemma answers_resolve: "answers P (resolveSnapshot E name snap) (resolved name snap)"
  by (rule answersI) (rule resolveSnapshot_spec)

text \<open>Methods that look the table up first: an id below zero stands for an unknown table.\<close>

lemma answers_by_id:
  assumes "\<And>db. sound db \<Longrightarrow> P db \<Longrightarrow> live_table name db = None \<Longrightarrow> f db = n"
    and "\<And>tid. 0 < tid \<Longrightarrow>
      answers (\<lambda>db. sound db \<and> P db \<and> (\<exists>t. live_table name db = Some t \<and> t_id t = tid)) (k tid) f"
  shows "answers (\<lambda>db. sound db \<and> P db)
    (on_err (pg_GetTableID E name) (\<lambda>e. ret (Inl e)) (\<lambda>tid. if tid < 0 then ret (Inr n) else k tid)) f"
proof (rule answers_bind [OF answers_table_id], rule answers_if)
  fix tid :: int64
  have pos: "0 < t_id t" if "sound db" "live_table name db = Some t" for db t
    using that live_id_pos unfolding sound_def by blast
  {
    assume "tid < 0"
    then show "answers (\<lambda>db. (sound db \<and> P db) \<and> tid = table_id_of name db) (ret (Inr n)) f"
      by (intro answers_ret) (use assms(1) pos in \<open>force simp: table_id_of_def split: option.splits\<close>)
  next
    assume n: "\<not> tid < 0"
    have "answers (\<lambda>db. (sound db \<and> P db) \<and> tid = table_id_of name db) (k tid) f" if "0 < tid"
      by (rule answers_pre [OF assms(2) [OF that]]) (use n in \<open>auto simp: table_id_of_def split: option.splits\<close>)
    moreover have "0 < tid" if "(sound db \<and> P db) \<and> tid = table_id_of name db" for db
      using that n pos by (auto simp: table_id_of_def split: option.splits)
    ultimately show "answers (\<lambda>db. (sound db \<and> P db) \<and> tid = table_id_of name db) (k tid) f"
      unfolding answers_def by blast
  }
qed

lemmas by_id = answers_by_id [where P = "\<lambda>_. True", simplified]

lemma answers_partitions: "answers sound (pg_QueryPartitions E name snap) (\<lambda>db. partitions_at db name snap)"
  unfolding pg_QueryPartitions_def
  by (rule by_id, simp add: partitions_at_def, rule answers_bind, simp only: sql_partitions_def,
      rule answers_query, rule refl, rule answers_ret) (auto simp: partitions_at_def visible_rows_def)

text \<open>A page: the rows after an id, at most as many as asked for.\<close>

definition page :: "int32 \<Rightarrow> int64 \<Rightarrow> PartitionRow list \<Rightarrow> PartitionRow list" where
  "page lim last_id rows = take (nat (if lim \<le> 0 then 1000 else lim)) (filter (\<lambda>p. last_id < pr_PartitionID p) rows)"

lemma sort_key_filter_ids:
  assumes "sound db"
  shows "sort_key p_id (filter Q (d_partitions db)) = filter Q (d_partitions db)"
  using assms sort_key_ids [of p_id _ "filter Q (d_partitions db)"] ids_upto_filter
  unfolding sound_def db_inv_def store_inv_def by blast

lemma answers_page: "answers sound (pg_QueryPartitionsPaged E name snap lim last_id)
    (\<lambda>db. map_option (page lim last_id) (partitions_at db name snap))"
proof -
  have eq: "map scan_partition (take k (sort_key p_id (filter (\<lambda>p. visible tid n p \<and> last_id < p_id p) (d_partitions db)))) =
      take k (filter (\<lambda>p. last_id < pr_PartitionID p) (map scan_partition (visible_rows tid n db)))"
    if "sound db" for k tid n db
    using that
    by (simp add: sort_key_filter_ids visible_rows_def take_map filter_map comp_def scan_partition_def conj_commute)
  show ?thesis
    unfolding pg_QueryPartitionsPaged_def Let_def
    by (rule by_id, simp add: partitions_at_def, rule answers_bind, simp only: sql_partitions_paged_def,
        rule answers_query, rule refl, rule answers_ret) (auto simp: partitions_at_def page_def eq)
qed

lemma answers_count: "answers sound (pg_GetVisiblePartitionCount E name snap)
    (\<lambda>db. case partitions_at db name snap of None \<Rightarrow> 0 | Some rows \<Rightarrow> int (length rows))"
  unfolding pg_GetVisiblePartitionCount_def
  by (rule by_id, simp add: partitions_at_def, simp only: sql_count_partitions_def, rule answers_query)
    (auto simp: partitions_at_def visible_rows_def)

definition snapshots_at :: "pg_env \<Rightarrow> string \<Rightarrow> database \<Rightarrow> SnapshotRow list" where
  "snapshots_at E name db = (case live_table name db of
     None \<Rightarrow> [] | Some t \<Rightarrow> map (scan_snapshot E) (snapshots_of (t_id t) (d_snapshots db)))"

lemma answers_snapshot: "answers sound (pg_GetSnapshot E name snap)
    (\<lambda>db. find (\<lambda>s. sr_SnapshotID s = int64_of_uint64 snap) (snapshots_at E name db))"
proof -
  have find: "find (\<lambda>s. sr_SnapshotID s = n) (map (scan_snapshot E) (snapshots_of tid ss)) =
      map_option (scan_snapshot E) (find (\<lambda>s. s_table s = tid \<and> s_id s = n) ss)" for n tid ss
    by (induction ss) (auto simp: snapshots_of_def scan_snapshot_def)
  show ?thesis
    unfolding pg_GetSnapshot_def
    by (rule by_id, simp add: snapshots_at_def, simp only: sql_select_snapshot_def, rule answers_row)
      (auto simp: snapshots_at_def find intro!: answers_ret)
qed

definition manifests_at :: "string \<Rightarrow> uint64 \<Rightarrow> database \<Rightarrow> (ManifestListRow \<times> ManifestFileRow list) option" where
  "manifests_at name snap db = (case live_table name db of
     None \<Rightarrow> None
   | Some t \<Rightarrow> map_option (\<lambda>l. (l, sort_key mf_ManifestFileID (filter (\<lambda>f. mf_SnapshotID f = int64_of_uint64 snap) (d_mfiles db))))
       (find (\<lambda>l. ml_SnapshotID l = int64_of_uint64 snap \<and> ml_TableID l = t_id t) (d_mlists db)))"

lemma answers_manifest_list: "answers sound (pg_GetManifestList E name snap) (manifests_at name snap)"
  unfolding pg_GetManifestList_def
  by (rule by_id, simp add: manifests_at_def, simp only: sql_select_manifest_list_def, rule answers_row,
      force simp: manifests_at_def, rule answers_bind, simp only: sql_list_manifest_files_def, rule answers_query, rule refl)
    (auto simp: manifests_at_def intro!: answers_ret)

subsection \<open>Methods and handlers\<close>

definition act_answers ::
    "server_env \<Rightarrow> (database \<Rightarrow> bool) \<Rightarrow> (pg_error + 'a) act \<Rightarrow> (database \<Rightarrow> 'a) \<Rightarrow> bool" where
  "act_answers S P m f \<longleftrightarrow> (\<forall>b s r s'. idle (sys_locks s) \<longrightarrow> good S b (sys_core s) \<longrightarrow> P (db_of s) \<longrightarrow>
     m s = Some (r, s') \<longrightarrow> idle (sys_locks s') \<and> good S b (sys_core s') \<and> db_of s' = db_of s \<and>
       (\<forall>x. r = Inr x \<longrightarrow> x = f (db_of s)))"

definition replies ::
    "server_env \<Rightarrow> (database \<Rightarrow> bool) \<Rightarrow> (status + 'a) act \<Rightarrow> (database \<Rightarrow> status + 'a) \<Rightarrow> bool" where
  "replies S P m f \<longleftrightarrow> (\<forall>b s r s'. idle (sys_locks s) \<longrightarrow> good S b (sys_core s) \<longrightarrow> P (db_of s) \<longrightarrow>
     m s = Some (r, s') \<longrightarrow> idle (sys_locks s') \<and> good S b (sys_core s') \<and> db_of s' = db_of s \<and>
       ((\<forall>e. r \<noteq> Inl (Internal, e)) \<longrightarrow> r = f (db_of s)))"

lemma good_sound: "good S b c \<Longrightarrow> sound (pg_db (c_pg c))"
  by (auto simp: good_but_def sound_def)

lemma act_answers_locked:
  assumes "answers Q m f" "\<And>db. sound db \<Longrightarrow> P db \<Longrightarrow> Q db"
  shows "act_answers S P (with_locks [(False, name)] (on_pg m)) f"
  unfolding act_answers_def
proof (intro allI impI)
  fix b r and s s' :: sys
  assume idle: "idle (sys_locks s)" and g: "good S b (sys_core s)" and P: "P (db_of s)"
    and run: "with_locks [(False, name)] (on_pg m) s = Some (r, s')"
  obtain w where m: "m (c_pg (sys_core s)) = (r, w)" and s': "idle (sys_locks s')" "sys_core s' = (sys_core s)\<lparr>c_pg := w\<rparr>"
    using with_locks_idle [OF idle, of "[(False, name)]" "on_pg m"] run by (auto simp: on_pg_def split: prod.splits)
  from answersD [OF assms(1) assms(2) [OF good_sound [OF g] P] m]
  show "idle (sys_locks s') \<and> good S b (sys_core s') \<and> db_of s' = db_of s \<and> (\<forall>x. r = Inr x \<longrightarrow> x = f (db_of s))"
    using s' g good_same_db by (auto simp: same_db_def)
qed

lemma act_answers_unlocked:
  assumes "answers Q m f" "\<And>db. sound db \<Longrightarrow> P db \<Longrightarrow> Q db"
  shows "act_answers S P (unlocked (on_pg m)) f"
  unfolding act_answers_def
proof (intro allI impI)
  fix b r and s s' :: sys
  assume idle: "idle (sys_locks s)" and g: "good S b (sys_core s)" and P: "P (db_of s)"
    and run: "unlocked (on_pg m) s = Some (r, s')"
  obtain w where m: "m (c_pg (sys_core s)) = (r, w)" and s': "s' = s\<lparr>sys_core := (sys_core s)\<lparr>c_pg := w\<rparr>\<rparr>"
    using run by (auto simp: on_pg_def unlocked_def split: prod.splits)
  from answersD [OF assms(1) assms(2) [OF good_sound [OF g] P] m]
  show "idle (sys_locks s') \<and> good S b (sys_core s') \<and> db_of s' = db_of s \<and> (\<forall>x. r = Inr x \<longrightarrow> x = f (db_of s))"
    using s' g good_same_db idle by (auto simp: same_db_def)
qed

text \<open>A cached read answers as the database would, unless the answer to some commit was lost.\<close>

lemma act_answers_partitions:
  "act_answers S (\<lambda>_. \<not> acks_lost (se_pg S)) (reg_GetPartitions S name snap)
     (\<lambda>db. partitions_at db name (resolved name snap db))"
  unfolding act_answers_def
proof (intro allI impI)
  fix b r and s s' :: sys
  assume idle: "idle (sys_locks s)" and g: "good S b (sys_core s)" and P: "\<not> acks_lost (se_pg S)"
    and run: "reg_GetPartitions S name snap s = Some (r, s')"
  have m: "GetPartitions_locked S name snap (sys_core s) = (r, sys_core s')" and "idle (sys_locks s')"
    using with_locks_idle [OF idle, of "[(False, name)]" "GetPartitions_locked S name snap"] run
    unfolding reg_GetPartitions_def by auto
  with GetPartitions_reads [OF g m] P show "idle (sys_locks s') \<and> good S b (sys_core s') \<and> db_of s' = db_of s \<and>
      (\<forall>x. r = Inr x \<longrightarrow> x = partitions_at (db_of s) name (resolved name snap (db_of s)))"
    by (auto simp: reads_as_def same_db_def)
qed

lemma repliesD:
  assumes "replies S P m f" "reachable S s" "P (db_of s)" "m s = Some (r, s')" "\<forall>e. r \<noteq> Inl (Internal, e)"
  shows "r = f (db_of s) \<and> db_of s' = db_of s"
  using assms reachable_good [OF assms(2)] unfolding replies_def by blast

lemma replies_ret: "(\<And>db. sound db \<Longrightarrow> P db \<Longrightarrow> r = f db) \<Longrightarrow> replies S P (act_ret r) f"
  using good_sound by (auto simp: replies_def act_ret_def)

lemma replies_internal: "replies S P (act_ret (grpc Internal e)) f"
  by (auto simp: replies_def act_ret_def)

lemma replies_if:
  "(b \<Longrightarrow> replies S P m f) \<Longrightarrow> (\<not> b \<Longrightarrow> replies S P m' f) \<Longrightarrow> replies S P (if b then m else m') f"
  by simp

lemma replies_option:
  "(v = None \<Longrightarrow> replies S P m f) \<Longrightarrow> (\<And>x. v = Some x \<Longrightarrow> replies S P (k x) f) \<Longrightarrow>
   replies S P (case v of None \<Rightarrow> m | Some x \<Rightarrow> k x) f"
  by (cases v) simp_all

lemma replies_internal_or:
  assumes "act_answers S P m g" "\<And>x. replies S (\<lambda>db. P db \<and> x = g db) (k x) f"
  shows "replies S P (internal_or S m k) f"
  unfolding replies_def
proof (intro allI impI)
  fix b r and s s' :: sys
  assume a: "idle (sys_locks s)" "good S b (sys_core s)" "P (db_of s)" and run: "internal_or S m k s = Some (r, s')"
  obtain x s1 where m: "m s = Some (x, s1)"
    using run by (auto simp: internal_or_def act_then_def split: option.splits)
  have 1: "idle (sys_locks s1)" "good S b (sys_core s1)" "db_of s1 = db_of s" "\<forall>y. x = Inr y \<longrightarrow> y = g (db_of s)"
    using assms(1) a m unfolding act_answers_def by blast+
  show "idle (sys_locks s') \<and> good S b (sys_core s') \<and> db_of s' = db_of s \<and>
      ((\<forall>e. r \<noteq> Inl (Internal, e)) \<longrightarrow> r = f (db_of s))"
  proof (cases x)
    case (Inl e)
    then show ?thesis using run m 1 by (auto simp: internal_or_def act_then_def act_ret_def)
  next
    case (Inr y)
    then have k: "k y s1 = Some (r, s')" using run m by (simp add: internal_or_def act_then_def)
    have P1: "P (db_of s1) \<and> y = g (db_of s1)" using 1(3,4) Inr a(3) by simp
    from assms(2) [of y, unfolded replies_def, rule_format, OF 1(1,2) P1 k] 1(3) show ?thesis by auto
  qed
qed

lemma act_answers_pre: "act_answers S P m f \<Longrightarrow> (\<And>db. Q db \<Longrightarrow> P db) \<Longrightarrow> act_answers S Q m f"
  unfolding act_answers_def by blast

lemma act_answers_if:
  "(b \<Longrightarrow> act_answers S P m f) \<Longrightarrow> (\<not> b \<Longrightarrow> act_answers S P m' f) \<Longrightarrow> act_answers S P (if b then m else m') f"
  by simp

subsection \<open>Partition lists\<close>

definition partitions_reply :: "string \<Rightarrow> int32 \<Rightarrow> PartitionRow list option \<Rightarrow> status + PartitionListResponse" where
  "partitions_reply name lim rows = (case rows of
     None \<Rightarrow> grpc NotFound (''table not found: '' @ name) | Some ps \<Rightarrow> Inr (partition_list lim ps))"

lemma act_answers_paged:
  "act_answers S P (reg_GetPartitionsPaged E name snap lim last_id)
     (\<lambda>db. map_option (page lim last_id) (partitions_at db name (resolved name snap db)))"
proof -
  have "answers sound (GetPartitionsPaged_locked E name snap lim last_id)
      (\<lambda>db. map_option (page lim last_id) (partitions_at db name (resolved name snap db)))"
    unfolding GetPartitionsPaged_locked_def
    by (rule answers_bind [OF answers_resolve], rule answers_bind, rule answers_pre [OF answers_page], blast,
        rule answers_ret) simp
  then show ?thesis unfolding reg_GetPartitionsPaged_def by (rule act_answers_locked)
qed

lemma GetPartitions_paged_replies:
  assumes "0 < lim"
  shows "replies S (\<lambda>_. True) (srv_GetPartitions S name snap lim tok)
    (\<lambda>db. partitions_reply name lim
       (map_option (page lim (page_offset tok)) (partitions_at db name (resolved name snap db))))"
  unfolding srv_GetPartitions_def if_P [OF assms]
  by (rule replies_internal_or [OF act_answers_paged], rule replies_option; rule replies_ret)
    (auto simp: partitions_reply_def)

lemma GetPartitions_replies:
  assumes "lim \<le> 0"
  shows "replies S (\<lambda>_. \<not> acks_lost (se_pg S)) (srv_GetPartitions S name snap lim tok)
    (\<lambda>db. partitions_reply name lim (partitions_at db name (resolved name snap db)))"
  unfolding srv_GetPartitions_def if_not_P [OF leD [OF assms]]
  by (rule replies_internal_or [OF act_answers_partitions], rule replies_option; rule replies_ret)
    (auto simp: partitions_reply_def)

end
