(* ===== verification/Catalog_Reads.thy ===== *)
theory Catalog_Reads
  imports Read_Answers Sample_Run
begin

text \<open>
  Properties of reads: what a handler answers in terms of the database, that the cache does not show,
  that the answers about a snapshot never change, and that reading page by page gives every row once.
\<close>

subsection \<open>The history of a table\<close>

lemma same_views:
  assumes s: "reachable S s" and run: "leads_to S s s'"
    and t: "live_table a (db_of s) = Some t" "live_table b (db_of s') = Some t'" "t_id t' = t_id t"
  shows "prefix (snapshots_of (t_id t) (d_snapshots (db_of s))) (snapshots_of (t_id t) (d_snapshots (db_of s')))"
    "int64_of_uint64 snap \<le> q_snapshot (seq_of s) \<Longrightarrow> partitions_at (db_of s') b snap = partitions_at (db_of s) a snap"
proof -
  have "t_id t \<in> table_ids (db_of s')"
    using live_table_Some [OF t(2)] t(3) unfolding table_ids_def by (metis imageI)
  moreover have "t_id t \<le> q_table (seq_of s)"
    using live_table_Some [OF t(1)] db_inv_below [OF reachable_parts(1) [OF s]] by (simp add: ids_below_def)
  ultimately have ev: "prefix (snapshots_of (t_id t) (d_snapshots (db_of s))) (snapshots_of (t_id t) (d_snapshots (db_of s')))"
    "\<forall>m \<le> q_snapshot (seq_of s). rows_at (t_id t) m (db_of s') = rows_at (t_id t) m (db_of s)"
    using leads_to_evolves [OF s run] unfolding evolves_def by blast+
  then show "prefix (snapshots_of (t_id t) (d_snapshots (db_of s))) (snapshots_of (t_id t) (d_snapshots (db_of s')))"
    by blast
  show "partitions_at (db_of s') b snap = partitions_at (db_of s) a snap" if "int64_of_uint64 snap \<le> q_snapshot (seq_of s)"
    using ev(2) that t by (simp add: partitions_at_rows)
qed

text \<open>
  C5: The past is immutable. Whatever requests and restarts follow, as long as a table exists, under
  whatever name, its list of snapshots is only extended, and a read of any snapshot that existed
  gives the same rows for ever.
\<close>

theorem history_immutable:
  assumes "reachable S s" "leads_to S s s'"
    and "live_table a (db_of s) = Some t" "live_table b (db_of s') = Some t'" "t_id t' = t_id t"
  shows "prefix (snapshots_of (t_id t) (d_snapshots (db_of s))) (snapshots_of (t_id t) (d_snapshots (db_of s'))) \<and>
    (\<forall>snap. int64_of_uint64 snap \<le> q_snapshot (seq_of s) \<longrightarrow>
       partitions_at (db_of s') b snap = partitions_at (db_of s) a snap)"
  using same_views [OF assms] by blast

text \<open>Renaming the sample table, and a commit under the new name.\<close>

lemma renamed_run:
  obtains s' t' where "leads_to healthy restarted s'" "live_table ''u'' (db_of s') = Some t'" "t_id t' = 1"
proof -
  have "map_option (\<lambda>s. map_option t_id (live_table ''u'' (db_of s)))
      (serve healthy (Req_AlterTable ''t'' (Rename (Some ''u''))) restarted) = Some (Some 1)" by code_simp
  then obtain s' t' where "serve healthy (Req_AlterTable ''t'' (Rename (Some ''u''))) restarted = Some s'"
    "live_table ''u'' (db_of s') = Some t'" "t_id t' = 1" by auto
  then show thesis by (intro that leads_to.request [OF leads_to.here])
qed

theorem history_immutable_witness:
  "\<exists>s'. leads_to healthy restarted s' \<and> partitions_at (db_of s') ''u'' 1 = partitions_at two_rows_db ''t'' 1"
proof -
  obtain s' t' where run: "leads_to healthy restarted s'" and t': "live_table ''u'' (db_of s') = Some t'" "t_id t' = 1"
    by (rule renamed_run)
  obtain t where t: "live_table ''t'' (db_of restarted) = Some t" "t_id t = 1"
    by (simp add: two_rows_db_def live_table_def is_live_def)
  have "int64_of_uint64 1 \<le> q_snapshot (seq_of restarted)" by code_simp
  with history_immutable [OF reachable_restarted run t(1) t'(1)] t(2) t'(2) run show ?thesis by auto
qed

subsection \<open>Pages\<close>

lemma partition_ids:
  assumes "reachable S s" "partitions_at (db_of s) name snap = Some rows"
  shows "sorted_wrt (<) (map pr_PartitionID rows)" "\<forall>p \<in> set rows. 0 < pr_PartitionID p \<and> pr_PartitionID p < 2 ^ 63"
proof -
  note inv = reachable_parts(1) [OF assms(1)]
  obtain t :: table_rec where "rows = map scan_partition (visible_rows (t_id t) (int64_of_uint64 snap) (db_of s))"
    using assms(2) unfolding partitions_at_def map_option_eq_Some by metis
  then have "rows = map scan_partition (filter (visible (t_id t) (int64_of_uint64 snap)) (d_partitions (db_of s)))"
    by (simp only: visible_rows_inv [OF inv])
  moreover have "ids_upto p_id (q_partition (seq_of s)) (filter Q (d_partitions (db_of s)))" for Q
    using inv by (intro ids_upto_filter) (simp add: db_inv_def store_inv_def)
  ultimately obtain ps where ps: "rows = map scan_partition ps" "ids_upto p_id (q_partition (seq_of s)) ps"
    by blast
  moreover have "q_partition (seq_of s) < 2 ^ 63"
    using reachable_parts(1) [OF assms(1)] by (simp add: db_inv_def store_inv_def)
  ultimately show "sorted_wrt (<) (map pr_PartitionID rows)"
    "\<forall>p \<in> set rows. 0 < pr_PartitionID p \<and> pr_PartitionID p < 2 ^ 63"
    by (force simp: ids_upto_def scan_partition_def comp_def)+
qed

text \<open>What a client does with page tokens, one call after the other, for at most \<open>n\<close> calls.\<close>

fun read_pages ::
    "server_env \<Rightarrow> string \<Rightarrow> uint64 \<Rightarrow> int32 \<Rightarrow> nat \<Rightarrow> string \<Rightarrow> sys \<Rightarrow> (status + PartitionInfo list) option" where
  "read_pages S name snap lim 0 tok s = None"
| "read_pages S name snap lim (Suc n) tok s =
     (case srv_GetPartitions S name snap lim tok s of
        None \<Rightarrow> None
      | Some (Inl st, s') \<Rightarrow> Some (Inl st)
      | Some (Inr resp, s') \<Rightarrow>
          if pl_NextPageToken resp = [] then Some (Inr (pl_Partitions resp))
          else map_option (map_sum id ((@) (pl_Partitions resp))) (read_pages S name snap lim n (pl_NextPageToken resp) s'))"

definition listed :: "PartitionRow \<Rightarrow> PartitionInfo" where
  "listed p = (partition_info p)\<lparr>pi_ColumnStats := []\<rparr>"

definition page_token :: "PartitionRow list \<Rightarrow> string" where
  "page_token xs = (if xs = [] then [] else FormatInt (pr_PartitionID (last xs)))"

lemma page_after:
  assumes "reachable S s" "partitions_at (db_of s) name snap = Some (xs @ ys)" "0 < lim"
  shows "page lim (page_offset (page_token xs)) (xs @ ys) = take (nat lim) ys"
proof -
  let ?id = "page_offset (page_token xs)"
  note ids = partition_ids [OF assms(1,2)]
  have id: "?id = (if xs = [] then 0 else pr_PartitionID (last xs))"
  proof (cases "xs = []")
    case False
    then have "0 < pr_PartitionID (last xs) \<and> pr_PartitionID (last xs) < 2 ^ 63" using ids(2) by simp
    then have "in_int64 (pr_PartitionID (last xs))" by (simp add: in_int64_def)
    then show ?thesis using False by (simp add: page_offset_def page_token_def)
  qed (simp add: page_offset_def page_token_def)
  have xs: "pr_PartitionID p \<le> ?id" if p: "p \<in> set xs" for p
  proof -
    obtain zs where zs: "xs = zs @ [last xs]" using p by (metis append_butlast_last_id empty_iff list.set(1))
    then have "p = last xs \<or> p \<in> set zs" using p by (metis Un_iff set_append set_ConsD empty_iff list.set(1))
    moreover have "sorted_wrt (<) (map pr_PartitionID (zs @ [last xs]))"
      using ids(1) zs by (simp add: sorted_wrt_append)
    ultimately show ?thesis using p by (auto simp: id sorted_wrt_append)
  qed
  have ys: "?id < pr_PartitionID p" if p: "p \<in> set ys" for p
    using ids p by (auto simp: id sorted_wrt_append dest: last_in_set)
  have "filter (\<lambda>p. ?id < pr_PartitionID p) (xs @ ys) = ys"
    using xs ys by (force simp: filter_empty_conv)
  then show ?thesis using assms(3) by (simp add: page_def)
qed

lemma page_reply:
  assumes s: "reachable S s" and rows: "partitions_at (db_of s) name (resolved name snap (db_of s)) = Some (xs @ ys)"
    and lim: "0 < lim" and run: "srv_GetPartitions S name snap lim (page_token xs) s = Some (r, s')"
  shows "(\<exists>e. r = Inl (Internal, e)) \<or> db_of s' = db_of s \<and> r = Inr (partition_list lim (take (nat lim) ys))"
  using repliesD [OF GetPartitions_paged_replies [OF lim] s TrueI run] rows page_after [OF s rows lim]
  by (auto simp: partitions_reply_def)

lemma partition_list_simps [simp]:
  "pl_Partitions (partition_list lim ys) = map listed ys"
  "0 < lim \<Longrightarrow> ys \<noteq> [] \<Longrightarrow> pl_NextPageToken (partition_list lim ys) = FormatInt (pr_PartitionID (last ys))"
  "pl_NextPageToken (partition_list lim []) = []"
  by (simp_all add: partition_list_def listed_def)

lemma srv_GetPartitions_run:
  assumes "reachable S s"
  obtains r s' where "srv_GetPartitions S name snap lim tok s = Some (r, s')" "reachable S s'"
proof -
  obtain s' where "serve S (Req_GetPartitions name snap lim tok) s = Some s'"
    using serve_total [of "Req_GetPartitions name snap lim tok"] reachable_good [OF assms] by fastforce
  moreover from this obtain r where "srv_GetPartitions S name snap lim tok s = Some (r, s')"
    by (auto simp: run_act_def)
  ultimately show thesis using reachable_request [OF assms] that by blast
qed

lemma read_pages_spec:
  assumes "reachable S s" "partitions_at (db_of s) name (resolved name snap (db_of s)) = Some (xs @ ys)"
    and "0 < lim" "length ys < n"
  shows "(\<exists>e. read_pages S name snap lim n (page_token xs) s = Some (Inl (Internal, e))) \<or>
    read_pages S name snap lim n (page_token xs) s = Some (Inr (map listed ys))"
  using assms
proof (induction n arbitrary: xs ys s)
  case (Suc n)
  note s = Suc.prems(1) and rows = Suc.prems(2)
  obtain r s' where run: "srv_GetPartitions S name snap lim (page_token xs) s = Some (r, s')" "reachable S s'"
    by (rule srv_GetPartitions_run [OF s])
  from page_reply [OF s rows Suc.prems(3) run(1)] show ?case
  proof
    assume "\<exists>e. r = Inl (Internal, e)"
    then show ?thesis using run(1) by auto
  next
    let ?p = "take (nat lim) ys" and ?q = "drop (nat lim) ys"
    assume r: "db_of s' = db_of s \<and> r = Inr (partition_list lim ?p)"
    show ?thesis
    proof (cases "ys = []")
      case True
      then show ?thesis using run(1) r by simp
    next
      case False
      then have p: "?p \<noteq> []" using Suc.prems(3) by simp
      then have tok: "pl_NextPageToken (partition_list lim ?p) = page_token (xs @ ?p)"
        using Suc.prems(3) by (simp add: page_token_def)
      have "length ?q < n" using Suc.prems(3,4) False by (cases ys) auto
      from Suc.IH [OF run(2) _ Suc.prems(3) this, of "xs @ ?p"] rows r show ?thesis
        using run(1) tok Suc.prems(3) p by (auto simp: map_append [symmetric])
    qed
  qed
qed simp

text \<open>
  C7: Reading page by page terminates and is complete. A client that follows the page tokens gets,
  within one call more than there are rows, either the error of a failed database call or every row
  of the snapshot exactly once, in the order of the rows.
\<close>

theorem paging_complete:
  assumes "reachable S s" "partitions_at (db_of s) name (resolved name snap (db_of s)) = Some rows" "0 < lim"
    and "length rows < n"
  shows "(\<exists>e. read_pages S name snap lim n [] s = Some (Inl (Internal, e))) \<or>
    read_pages S name snap lim n [] s = Some (Inr (map listed rows))"
  using read_pages_spec [OF assms(1) _ assms(3), of name snap "[]" rows] assms(2,4) by (simp add: page_token_def)

theorem paging_complete_witness:
  "\<exists>rows. partitions_at two_rows_db ''t'' 1 = Some rows \<and> length rows = 2 \<and>
     read_pages healthy ''t'' 1 1 3 [] restarted = Some (Inr (map listed rows))"
proof -
  obtain rows where rows: "partitions_at two_rows_db ''t'' 1 = Some rows" "length rows = 2"
    using two_rows_old by simp
  then have at: "partitions_at (db_of restarted) ''t'' (resolved ''t'' 1 (db_of restarted)) = Some rows"
    by (simp add: resolved_def)
  have "map_option isl (read_pages healthy ''t'' 1 1 3 [] restarted) = Some False" by code_simp
  then have "\<forall>e. read_pages healthy ''t'' 1 1 3 [] restarted \<noteq> Some (Inl (Internal, e))" by auto
  with paging_complete [OF reachable_restarted at, of 1 3] rows show ?thesis by auto
qed

text \<open>The same with other requests between the pages, which may be of any kind.\<close>

inductive pages_read ::
    "server_env \<Rightarrow> string \<Rightarrow> uint64 \<Rightarrow> int32 \<Rightarrow> int64 \<Rightarrow> string \<Rightarrow> sys \<Rightarrow> PartitionInfo list \<Rightarrow> bool"
  for S name snap lim tid where
  last_page: "srv_GetPartitions S name snap lim tok s = Some (Inr resp, s') \<Longrightarrow> table_id_of name (db_of s) = tid \<Longrightarrow>
    pl_NextPageToken resp = [] \<Longrightarrow> pages_read S name snap lim tid tok s (pl_Partitions resp)"
| next_page: "srv_GetPartitions S name snap lim tok s = Some (Inr resp, s') \<Longrightarrow> table_id_of name (db_of s) = tid \<Longrightarrow>
    pl_NextPageToken resp \<noteq> [] \<Longrightarrow> leads_to S s' s1 \<Longrightarrow>
    pages_read S name snap lim tid (pl_NextPageToken resp) s1 rest \<Longrightarrow>
    pages_read S name snap lim tid tok s (pl_Partitions resp @ rest)"

lemma stable_rows:
  assumes "reachable S s" "leads_to S s s1" "table_id_of name (db_of s1) = table_id_of name (db_of s)"
    and "int64_of_uint64 snap \<le> q_snapshot (seq_of s)" "partitions_at (db_of s) name snap = Some rows"
  shows "partitions_at (db_of s1) name snap = Some rows"
proof -
  obtain t where t: "live_table name (db_of s) = Some t"
    using assms(5) by (auto simp: partitions_at_def)
  have "0 < t_id t" using live_id_pos [OF reachable_parts(1) [OF assms(1)] t] .
  then obtain t1 where "live_table name (db_of s1) = Some t1" "t_id t1 = t_id t"
    using assms(3) t by (auto simp: table_id_of_def split: option.splits)
  from same_views(2) [OF assms(1,2) t this assms(4)] assms(5) show ?thesis by simp
qed

lemma leads_to_trans: "leads_to S s s1 \<Longrightarrow> leads_to S s1 s2 \<Longrightarrow> leads_to S s s2"
proof -
  assume "leads_to S s1 s2"
  then show "leads_to S s s1 \<Longrightarrow> leads_to S s s2" by induction (auto intro: leads_to.intros)
qed

lemma leads_to_page:
  assumes "srv_GetPartitions S name snap lim tok s = Some (r, s')"
  shows "leads_to S s s'"
  by (rule leads_to.request [OF leads_to.here, of S "Req_GetPartitions name snap lim tok"]) (simp add: run_act_def assms)

lemma seq_mono: "reachable S s \<Longrightarrow> leads_to S s s' \<Longrightarrow> q_snapshot (seq_of s) \<le> q_snapshot (seq_of s')"
  using leads_to_evolves unfolding evolves_def seq_le_def by blast

lemma pages_read_spec:
  assumes "pages_read S name snap lim tid tok s infos" "reachable S s" "snap \<noteq> 0" "0 < lim"
    and "int64_of_uint64 snap \<le> q_snapshot (seq_of s)"
    and "tok = page_token xs" "partitions_at (db_of s) name snap = Some (xs @ ys)"
  shows "infos = map listed ys"
  using assms
proof (induction arbitrary: xs ys)
  case (last_page tok s resp s')
  have "resp = partition_list lim (take (nat lim) ys)"
    using page_reply [of S s name snap xs ys lim] last_page by (simp add: resolved_def)
  then show ?case using last_page.hyps(3) last_page.prems(3) by (cases "ys = []") simp_all
next
  case (next_page tok s resp s' s1 rest)
  let ?p = "take (nat lim) ys" and ?q = "drop (nat lim) ys"
  have resp: "resp = partition_list lim ?p"
    using page_reply [of S s name snap xs ys lim] next_page by (simp add: resolved_def)
  then have p: "?p \<noteq> []" using next_page.hyps(3) by auto
  have go: "leads_to S s s1" using leads_to_trans [OF leads_to_page [OF next_page.hyps(1)] next_page.hyps(4)] .
  have s1: "reachable S s1" using reachable_leads_to [OF next_page.prems(1) go] .
  have "table_id_of name (db_of s1) = tid" using next_page.hyps(5) by cases simp_all
  then have rows: "partitions_at (db_of s1) name snap = Some ((xs @ ?p) @ ?q)"
    using stable_rows [OF next_page.prems(1) go _ next_page.prems(4,6)] next_page.hyps(2) by simp
  have tok: "pl_NextPageToken resp = page_token (xs @ ?p)"
    using resp p next_page.prems(3) by (simp add: page_token_def)
  have "int64_of_uint64 snap \<le> q_snapshot (seq_of s1)"
    using next_page.prems(4) seq_mono [OF next_page.prems(1) go] by linarith
  from next_page.IH [OF s1 next_page.prems(2,3) this tok rows]
  have "rest = map listed ?q" .
  then show ?case using resp by (simp add: map_append [symmetric] del: map_append)
qed


text \<open>A client with a script: the requests that other clients make after each page.\<close>

fun scripted_pages ::
    "server_env \<Rightarrow> string \<Rightarrow> uint64 \<Rightarrow> int32 \<Rightarrow> int64 \<Rightarrow> request list list \<Rightarrow> string \<Rightarrow> sys \<Rightarrow>
     PartitionInfo list option" where
  "scripted_pages S name snap lim tid [] tok s = None"
| "scripted_pages S name snap lim tid (reqs # script) tok s =
     (case srv_GetPartitions S name snap lim tok s of
        Some (Inr resp, s') \<Rightarrow>
          if table_id_of name (db_of s) \<noteq> tid then None
          else if pl_NextPageToken resp = [] then Some (pl_Partitions resp)
          else (case serve_all S reqs s' of
                  None \<Rightarrow> None
                | Some s1 \<Rightarrow> map_option ((@) (pl_Partitions resp))
                    (scripted_pages S name snap lim tid script (pl_NextPageToken resp) s1))
      | _ \<Rightarrow> None)"

lemma scripted_pages_read:
  "scripted_pages S name snap lim tid script tok s = Some infos \<Longrightarrow> pages_read S name snap lim tid tok s infos"
proof (induction script arbitrary: tok s infos)
  case (Cons reqs script)
  then obtain resp s' where run: "srv_GetPartitions S name snap lim tok s = Some (Inr resp, s')"
    and tid: "table_id_of name (db_of s) = tid"
    by (auto split: option.splits sum.splits if_splits)
  show ?case
  proof (cases "pl_NextPageToken resp = []")
    case True
    then show ?thesis using Cons.prems run tid last_page [OF run tid] by simp
  next
    case False
    then obtain s1 rest where s1: "serve_all S reqs s' = Some s1"
      "scripted_pages S name snap lim tid script (pl_NextPageToken resp) s1 = Some rest"
      "infos = pl_Partitions resp @ rest"
      using Cons.prems run tid by (auto split: option.splits)
    then show ?thesis
      using next_page [OF run tid False leads_to_serve_all [OF leads_to.here s1(1)] Cons.IH [OF s1(2)]] by simp
  qed
qed simp


end
