(* ===== verification/Catalog_Answers.thy ===== *)
theory Catalog_Answers
  imports Catalog_Reads
begin

text \<open>
  Properties of the other read handlers: the cache does not show, the snapshots of a table are one
  line, manifest lists are complete, and statistics agree with the rows.
\<close>

subsection \<open>The cache\<close>


lemma healthy_acks: "\<not> acks_lost (se_pg healthy)"
  by (simp add: acks_lost_def healthy_def healthy_pg_def)


subsection \<open>The line of snapshots\<close>

lemma GetSnapshot_replies:
  "replies S (\<lambda>_. True) (srv_GetSnapshot S name snap) (\<lambda>db.
     case find (\<lambda>r. sr_SnapshotID r = int64_of_uint64 snap) (snapshots_at (se_pg S) name db) of
       None \<Rightarrow> grpc NotFound ''snapshot not found'' | Some r \<Rightarrow> Inr (snapshot_detail r))"
  unfolding srv_GetSnapshot_def
  by (rule replies_internal_or, rule act_answers_unlocked [OF answers_snapshot], assumption,
      rule replies_option; rule replies_ret) auto

text \<open>A client that follows the parents of a snapshot until there is none.\<close>

fun ancestry :: "server_env \<Rightarrow> string \<Rightarrow> nat \<Rightarrow> uint64 \<Rightarrow> sys \<Rightarrow> (status + uint64 list) option" where
  "ancestry S name 0 snap s = None"
| "ancestry S name (Suc n) snap s =
     (if snap = 0 then Some (Inr [])
      else (case srv_GetSnapshot S name snap s of
              None \<Rightarrow> None
            | Some (Inl st, s') \<Rightarrow> Some (Inl st)
            | Some (Inr d, s') \<Rightarrow>
                map_option (map_sum id ((#) (sd_SnapshotId d))) (ancestry S name n (sd_ParentSnapshotId d) s')))"

lemma srv_GetSnapshot_run:
  assumes "reachable S s"
  obtains r s' where "srv_GetSnapshot S name snap s = Some (r, s')" "reachable S s'"
proof -
  obtain s' where "serve S (Req_GetSnapshot name snap) s = Some s'"
    using serve_total [of "Req_GetSnapshot name snap"] reachable_good [OF assms] by fastforce
  moreover from this obtain r where "srv_GetSnapshot S name snap s = Some (r, s')"
    by (auto simp: run_act_def)
  ultimately show thesis using reachable_request [OF assms] that by blast
qed

text \<open>The ids of the snapshots of a table, oldest first.\<close>

definition snapshot_ids :: "string \<Rightarrow> database \<Rightarrow> uint64 list" where
  "snapshot_ids name db = (case live_table name db of
     None \<Rightarrow> [] | Some t \<Rightarrow> map (\<lambda>s. uint64_of_int64 (s_id s)) (snapshots_of (t_id t) (d_snapshots db)))"

lemma snapshot_line:
  assumes "reachable S s" "live_table name (db_of s) = Some t"
  defines "xs \<equiv> snapshots_of (t_id t) (d_snapshots (db_of s))"
  shows "map s_parent xs = butlast (0 # map s_id xs)" "t_snapshot t = last (0 # map s_id xs)"
    "\<forall>x \<in> set xs. 0 < s_id x \<and> s_id x < 2 ^ 63" "distinct (map s_id xs)"
proof -
  note inv = reachable_parts(1) [OF assms(1)]
  have "chain_ok (t_snapshot t) xs"
    using inv live_table_Some [OF assms(2)] by (force simp: xs_def db_inv_def store_inv_def heads_def)
  then show "map s_parent xs = butlast (0 # map s_id xs)" "t_snapshot t = last (0 # map s_id xs)"
    by (simp_all add: chain_ok_def)
  have "ids_upto s_id (q_snapshot (seq_of s)) xs"
    unfolding xs_def snapshots_of_def using inv by (intro ids_upto_filter) (simp add: db_inv_def store_inv_def)
  moreover have "q_snapshot (seq_of s) < 2 ^ 63" using inv by (simp add: db_inv_def store_inv_def)
  ultimately show "\<forall>x \<in> set xs. 0 < s_id x \<and> s_id x < 2 ^ 63" "distinct (map s_id xs)"
    using ids_upto_distinct by (force simp: ids_upto_def)+
qed

lemma find_snapshot:
  assumes "k < length xs" "distinct (map s_id xs)"
  shows "find (\<lambda>r. sr_SnapshotID r = s_id (xs ! k)) (map (scan_snapshot E) xs) = Some (scan_snapshot E (xs ! k))"
proof -
  have "i = k" if "i < length xs" "s_id (xs ! i) = s_id (xs ! k)" for i
    using assms that nth_eq_iff_index_eq [of "map s_id xs" i k] by simp
  then have "\<forall>j < k. s_id (xs ! j) \<noteq> s_id (xs ! k)" using assms(1) less_trans by blast
  then show ?thesis using assms(1) by (auto simp: find_Some_iff scan_snapshot_def intro!: exI [of _ k])
qed

lemma ancestry_spec:
  assumes "reachable S s" "live_table name (db_of s) = Some t"
    and "k \<le> length (snapshots_of (t_id t) (d_snapshots (db_of s)))" "k < n"
  defines "ids \<equiv> \<lambda>s. map s_id (snapshots_of (t_id t) (d_snapshots (db_of s)))"
  shows "(\<exists>e. ancestry S name n (uint64_of_int64 ((0 # ids s) ! k)) s = Some (Inl (Internal, e))) \<or>
    ancestry S name n (uint64_of_int64 ((0 # ids s) ! k)) s = Some (Inr (map uint64_of_int64 (rev (take k (ids s)))))"
  using assms(1-4)
proof (induction k arbitrary: n s)
  case 0
  then show ?case by (cases n) (simp_all add: uint64_of_int64_def)
next
  case (Suc k)
  let ?xs = "snapshots_of (t_id t) (d_snapshots (db_of s))"
  note line = snapshot_line [OF Suc.prems(1,2)]
  have k: "k < length ?xs" using Suc.prems(3) by simp
  obtain n' where n: "n = Suc n'" "k < n'" using Suc.prems(4) by (cases n) auto
  let ?x = "?xs ! k"
  have x: "0 < s_id ?x" "s_id ?x < 2 ^ 63" using line(3) k by simp_all
  have cur: "ids s ! k = s_id ?x" using k by (simp add: ids_def)
  have "map s_parent ?xs ! k = butlast (0 # map s_id ?xs) ! k" using line(1) by simp
  moreover have "butlast (0 # map s_id ?xs) ! k = (0 # map s_id ?xs) ! k" by (rule nth_butlast) (use k in auto)
  ultimately have par: "s_parent ?x = (0 # ids s) ! k" using k by (simp only: ids_def nth_map)
  have int: "int64_of_uint64 (uint64_of_int64 (s_id ?x)) = s_id ?x" "uint64_of_int64 (s_id ?x) \<noteq> 0"
    using x by (simp_all add: in_int64_def)
  obtain r s' where run: "srv_GetSnapshot S name (uint64_of_int64 (s_id ?x)) s = Some (r, s')" "reachable S s'"
    by (rule srv_GetSnapshot_run [OF Suc.prems(1)])
  show ?case
  proof (cases "\<exists>e. r = Inl (Internal, e)")
    case True
    then show ?thesis using run(1) int(2) by (auto simp: n cur)
  next
    case False
    then have r: "db_of s' = db_of s" "r = Inr (snapshot_detail (scan_snapshot (se_pg S) ?x))"
      using repliesD [OF GetSnapshot_replies Suc.prems(1) TrueI run(1)] Suc.prems(2) find_snapshot [OF k line(4)] int(1)
      by (simp_all add: snapshots_at_def)
    have "take (Suc k) (ids s) = take k (ids s) @ [s_id ?x]"
      using k by (simp add: ids_def take_Suc_conv_app_nth)
    with Suc.IH [OF run(2) _ _ n(2)] Suc.prems(2) k show ?thesis
      using run(1) r int(2) par
      by (auto simp: n cur ids_def snapshot_detail_def scan_snapshot_def)
  qed
qed

text \<open>
  C9: The history of a table is one line. A client that starts at the current snapshot and follows
  the parents reaches the start after as many calls as there are snapshots, and meets every snapshot
  of the table exactly once, unless a call to the database fails.
\<close>

theorem history_is_linear:
  assumes "reachable S s" "length (snapshot_ids name (db_of s)) < n"
  shows "(\<exists>e. ancestry S name n (current_of name (db_of s)) s = Some (Inl (Internal, e))) \<or>
    ancestry S name n (current_of name (db_of s)) s = Some (Inr (rev (snapshot_ids name (db_of s))))"
proof (cases "live_table name (db_of s)")
  case None
  then show ?thesis using assms(2) by (cases n) (simp_all add: current_of_def snapshot_ids_def)
next
  case (Some t)
  let ?ids = "map s_id (snapshots_of (t_id t) (d_snapshots (db_of s)))"
  have "t_snapshot t = (0 # ?ids) ! length ?ids"
    using snapshot_line(2) [OF assms(1) Some] by (simp add: last_conv_nth)
  moreover have "0 \<le> t_snapshot t" using pointer_of(2) [OF reachable_parts(1) [OF assms(1)] Some] by simp
  ultimately have "current_of name (db_of s) = uint64_of_int64 ((0 # ?ids) ! length ?ids)"
    using Some by (simp add: current_of_def)
  moreover have "length (snapshots_of (t_id t) (d_snapshots (db_of s))) < n"
    using assms(2) Some by (simp add: snapshot_ids_def)
  moreover have "rev (snapshot_ids name (db_of s)) = map uint64_of_int64 (rev (take (length ?ids) ?ids))"
    using Some by (simp add: snapshot_ids_def rev_map comp_def)
  ultimately show ?thesis
    using ancestry_spec [OF assms(1) Some, of "length ?ids" n] by simp
qed

theorem history_is_linear_witness:
  "ancestry healthy ''t'' 2 1 restarted = Some (Inr [1])"
proof -
  have "map_option isl (ancestry healthy ''t'' 2 1 restarted) = Some False"
    and ids: "snapshot_ids ''t'' two_rows_db = [1]"
    and cur: "current_of ''t'' two_rows_db = 1" by code_simp+
  then show ?thesis using history_is_linear [OF reachable_restarted, of "''t''" 2] by auto
qed

subsection \<open>Manifests\<close>

lemma GetManifestList_replies:
  assumes "name \<noteq> []" "snap \<noteq> 0"
  shows "replies S (\<lambda>_. True) (srv_GetManifestList S name snap) (\<lambda>db. case manifests_at name snap db of
      None \<Rightarrow> grpc NotFound ''manifest list not found for snapshot''
    | Some (l, files) \<Rightarrow> Inr \<lparr>mr_SnapshotId = snap, mr_ManifestCount = ml_ManifestCount l, mr_Manifests = files\<rparr>)"
  unfolding srv_GetManifestList_def ms_GetManifestList_def if_not_P [OF assms(1)] if_not_P [OF assms(2)]
  by (rule replies_internal_or, rule act_answers_unlocked [OF answers_manifest_list], assumption,
      rule replies_option, rule replies_ret) (auto simp: eq_commute [of "Some _"] split: prod.split intro!: replies_ret)

lemma manifests_at_cases:
  assumes "reachable S s"
  shows "if snap \<in> set (snapshot_ids name (db_of s))
    then \<exists>l files. manifests_at name snap (db_of s) = Some (l, files) \<and> ml_ManifestCount l = int (length files) \<and>
      (\<forall>f \<in> set files. mf_SnapshotID f = int64_of_uint64 snap)
    else manifests_at name snap (db_of s) = None"
proof (cases "live_table name (db_of s)")
  case None
  then show ?thesis by (simp add: manifests_at_def snapshot_ids_def)
next
  case (Some t)
  let ?n = "int64_of_uint64 snap" and ?db = "db_of s"
  let ?own = "\<lambda>l. ml_SnapshotID l = ?n \<and> ml_TableID l = t_id t"
  note inv = reachable_parts(1) [OF assms]
  have m: "manifests_ok (d_snapshots ?db) (d_mfiles ?db) (d_mlists ?db)"
    using inv by (simp add: db_inv_def store_inv_def)
  have "set (map (\<lambda>l. (ml_TableID l, ml_SnapshotID l)) (d_mlists ?db)) = set (map (\<lambda>s. (s_table s, s_id s)) (d_snapshots ?db))"
    using m by (simp only: manifests_ok_def)
  then have same: "(t_id t, ?n) \<in> (\<lambda>l. (ml_TableID l, ml_SnapshotID l)) ` set (d_mlists ?db) \<longleftrightarrow>
      (t_id t, ?n) \<in> (\<lambda>s. (s_table s, s_id s)) ` set (d_snapshots ?db)" by (simp only: set_map)
  have "(\<exists>l \<in> set (d_mlists ?db). ?own l) \<longleftrightarrow> (t_id t, ?n) \<in> (\<lambda>l. (ml_TableID l, ml_SnapshotID l)) ` set (d_mlists ?db)"
    unfolding image_iff by (rule bex_cong) auto
  also have "\<dots> \<longleftrightarrow> (t_id t, ?n) \<in> (\<lambda>s. (s_table s, s_id s)) ` set (d_snapshots ?db)" by (rule same)
  also have "\<dots> \<longleftrightarrow> (\<exists>x \<in> set (snapshots_of (t_id t) (d_snapshots ?db)). s_id x = ?n)"
    unfolding image_iff snapshots_of_def by force
  also have "\<dots> \<longleftrightarrow> (\<exists>x \<in> set (snapshots_of (t_id t) (d_snapshots ?db)). uint64_of_int64 (s_id x) = snap)"
  proof (rule bex_cong [OF refl])
    fix x assume "x \<in> set (snapshots_of (t_id t) (d_snapshots ?db))"
    then have "in_int64 (s_id x)" using snapshot_line(3) [OF assms Some] by (force simp: in_int64_def)
    then show "s_id x = ?n \<longleftrightarrow> uint64_of_int64 (s_id x) = snap" by auto
  qed
  also have "\<dots> \<longleftrightarrow> snap \<in> set (snapshot_ids name ?db)" using Some by (auto simp: snapshot_ids_def)
  finally have iff: "(\<exists>l \<in> set (d_mlists ?db). ?own l) \<longleftrightarrow> snap \<in> set (snapshot_ids name ?db)" .
  show ?thesis
  proof (cases "find ?own (d_mlists ?db)")
    case None
    then have "snap \<notin> set (snapshot_ids name ?db)" using iff by (auto simp: find_None_iff)
    then show ?thesis using None Some by (simp add: manifests_at_def)
  next
    case (Some l)
    then have l: "l \<in> set (d_mlists ?db)" "?own l" by (auto simp: find_Some_iff)
    then have "ml_ManifestCount l = int (length (filter (\<lambda>f. mf_SnapshotID f = ?n) (d_mfiles ?db)))"
      using m by (simp add: manifests_ok_def)
    then show ?thesis using l iff Some \<open>live_table name ?db = Some t\<close> by (auto simp: manifests_at_def)
  qed
qed

text \<open>
  C10: Every snapshot has its manifests. A request for the manifest list of a snapshot finds one
  exactly when the snapshot is one of the table, and then the count that was stored with the commit
  is the number of files in the answer, all of them written by that commit.
\<close>

theorem manifest_lists_complete:
  assumes "reachable S s" "name \<noteq> []" "snap \<noteq> 0"
    and "srv_GetManifestList S name snap s = Some (r, s')" "\<forall>e. r \<noteq> Inl (Internal, e)"
  shows "if snap \<in> set (snapshot_ids name (db_of s))
    then \<exists>m. r = Inr m \<and> mr_ManifestCount m = int (length (mr_Manifests m)) \<and>
      (\<forall>f \<in> set (mr_Manifests m). mf_SnapshotID f = int64_of_uint64 snap)
    else \<exists>e. r = Inl (NotFound, e)"
  using repliesD [OF GetManifestList_replies [OF assms(2,3)] assms(1) TrueI assms(4,5)]
    manifests_at_cases [OF assms(1), of snap name] by (auto split: if_splits)

theorem manifest_lists_complete_witness:
  "\<exists>m s'. srv_GetManifestList healthy ''t'' 1 restarted = Some (Inr m, s') \<and>
     mr_ManifestCount m = 1 \<and> length (mr_Manifests m) = 1"
proof -
  have "map_option (\<lambda>(r, _). case r of Inl _ \<Rightarrow> False | Inr m \<Rightarrow> mr_ManifestCount m = 1)
      (srv_GetManifestList healthy ''t'' 1 restarted) = Some True"
    and ids: "snapshot_ids ''t'' two_rows_db = [1]" by code_simp+
  then obtain r s' where "srv_GetManifestList healthy ''t'' 1 restarted = Some (r, s')"
    "case r of Inl _ \<Rightarrow> False | Inr m \<Rightarrow> mr_ManifestCount m = 1" by auto
  then obtain m where run: "srv_GetManifestList healthy ''t'' 1 restarted = Some (Inr m, s')" "mr_ManifestCount m = 1"
    by (cases r) auto
  with manifest_lists_complete [OF reachable_restarted _ _ run(1)] ids show ?thesis by auto
qed

subsection \<open>Totals\<close>

lemma int64_of_add [simp]: "int64_of (int64_of a + b) = int64_of (a + b)"
  unfolding int64_of_def by (metis signed_take_bit_add signed_take_bit_signed_take_bit min.idem)

lemma int64_of_0 [simp]: "int64_of 0 = 0"
  by (simp add: int64_of_def)

lemma fold_int64_sum:
  "fold (\<lambda>p n. int64_of (n + f p)) ps (int64_of a) = int64_of (a + sum_list (map f ps))"
  by (induction ps arbitrary: a) (simp_all add: add.assoc)

lemma fold_int64_sum_0: "fold (\<lambda>p n. int64_of (n + f p)) ps 0 = int64_of (sum_list (map f ps))"
  using fold_int64_sum [of f ps 0] by simp

lemma fold_add_row:
  "TotalPartitions (fold add_row ps st) = TotalPartitions st"
  "TotalRows (fold add_row ps st) = fold (\<lambda>p n. int64_of (n + pr_RowCount p)) ps (TotalRows st)"
  "TotalBytes (fold add_row ps st) = fold (\<lambda>p n. int64_of (n + pr_SizeBytes p)) ps (TotalBytes st)"
  by (induction ps arbitrary: st) (simp_all add: add_row_def)

lemma stats_of_rows_totals:
  "TotalPartitions (stats_of_rows ps) = int (length ps)"
  "TotalRows (stats_of_rows ps) = int64_of (sum_list (map pr_RowCount ps))"
  "TotalBytes (stats_of_rows ps) = int64_of (sum_list (map pr_SizeBytes ps))"
  "AvgSizeBytes (stats_of_rows ps) =
     (if ps = [] then 0 else trunc_div (TotalBytes (stats_of_rows ps)) (int (length ps)))"
proof -
  have "AvgSizeBytes (fold add_row ps st) = AvgSizeBytes st" for st
    by (induction ps arbitrary: st) (simp_all add: add_row_def)
  then show "AvgSizeBytes (stats_of_rows ps) =
     (if ps = [] then 0 else trunc_div (TotalBytes (stats_of_rows ps)) (int (length ps)))"
    by (auto simp: stats_of_rows_def Let_def fold_add_row zero_stats_def)
qed (simp_all add: stats_of_rows_def Let_def fold_add_row zero_stats_def fold_int64_sum_0)

lemma GetPartitionStats_replies:
  assumes "name \<noteq> []"
  shows "replies S (\<lambda>_. True) (srv_GetPartitionStats S name) (\<lambda>db. Inr (case partitions_at db name (current_of name db) of
      None \<Rightarrow> zero_stats | Some ps \<Rightarrow> stats_of_rows ps))"
proof -
  have "answers sound (GetStats_locked E name) (\<lambda>db. case partitions_at db name (current_of name db) of
      None \<Rightarrow> zero_stats | Some ps \<Rightarrow> stats_of_rows ps)" for E
    unfolding GetStats_locked_def
    by (rule answers_bind [OF answers_resolve], rule answers_bind, rule answers_pre [OF answers_partitions], blast,
        rule answers_ret) (simp add: resolved_def)
  then show ?thesis
    unfolding srv_GetPartitionStats_def if_not_P [OF assms] reg_GetStats_def
    by (intro replies_internal_or [OF act_answers_locked [where Q = sound]] replies_ret) auto
qed

lemma GetTableMetadata_replies:
  assumes "name \<noteq> []"
  shows "replies S (\<lambda>_. \<not> acks_lost (se_pg S)) (srv_GetTableMetadata S name snap) (\<lambda>db.
    case live_table name db of
      None \<Rightarrow> grpc NotFound (''table not found: '' @ name)
    | Some t \<Rightarrow> Inr (table_metadata (table_row t) (resolved name snap db)
        (the (partitions_at db name (resolved name snap db))) (the (table_properties (t_properties t)))))"
proof -
  let ?f = "\<lambda>db. case live_table name db of
      None \<Rightarrow> grpc NotFound (''table not found: '' @ name)
    | Some t \<Rightarrow> Inr (table_metadata (table_row t) (resolved name snap db)
        (the (partitions_at db name (resolved name snap db))) (the (table_properties (t_properties t))))"
  have snap: "(if snap \<noteq> 0 then snap else if tr_CurrentSnapshotID row < 0 then 0
      else uint64_of_int64 (tr_CurrentSnapshotID row)) = resolved name snap db"
    if "Some row = map_option table_row (live_table name db)" for row db
    using that by (cases "live_table name db") (auto simp: resolved_def current_of_def table_row_def)
  have tail: "replies S (\<lambda>db. (\<not> acks_lost (se_pg S) \<and> Some row = map_option table_row (live_table name db)) \<and>
        parts = partitions_at db name (resolved name rs db))
      (case table_properties (tr_PropertiesJSON row) of
         None \<Rightarrow> act_ret (grpc Internal ''failed to parse table properties JSON'')
       | Some props \<Rightarrow> act_ret (Inr (table_metadata row rs (case parts of None \<Rightarrow> [] | Some ps \<Rightarrow> ps) props))) ?f"
    if rs: "rs = (if snap \<noteq> 0 then snap else if tr_CurrentSnapshotID row < 0 then 0
      else uint64_of_int64 (tr_CurrentSnapshotID row))" for row parts rs
  proof (rule replies_option)
    fix props assume props: "table_properties (tr_PropertiesJSON row) = Some props"
    show "replies S (\<lambda>db. (\<not> acks_lost (se_pg S) \<and> Some row = map_option table_row (live_table name db)) \<and>
        parts = partitions_at db name (resolved name rs db))
      (act_ret (Inr (table_metadata row rs (case parts of None \<Rightarrow> [] | Some ps \<Rightarrow> ps) props))) ?f"
    proof (rule replies_ret)
      fix db assume P: "(\<not> acks_lost (se_pg S) \<and> Some row = map_option table_row (live_table name db)) \<and>
        parts = partitions_at db name (resolved name rs db)"
      then obtain t where t: "live_table name db = Some t" "row = table_row t"
        by (cases "live_table name db") auto
      have "rs = resolved name snap db" using snap [of row db] P unfolding rs by blast
      moreover from this have "parts = partitions_at db name (resolved name snap db)"
        using P by (simp add: resolved_def)
      moreover obtain ps where "partitions_at db name (resolved name snap db) = Some ps"
        using t by (auto simp: partitions_at_def)
      ultimately show "Inr (table_metadata row rs (case parts of None \<Rightarrow> [] | Some ps \<Rightarrow> ps) props) = ?f db"
        using t props by (auto simp: table_row_def)
    qed
  qed (rule replies_internal)
  show ?thesis
    unfolding srv_GetTableMetadata_def if_not_P [OF assms] cm_GetTable_def Let_def
    by (rule replies_internal_or [OF act_answers_locked [OF answers_table [where P = sound]]], assumption,
        rule replies_option, rule replies_ret, force split: option.split, hypsubst,
        rule replies_internal_or [OF act_answers_pre [OF act_answers_partitions]], blast, rule tail, rule refl)
qed



subsection \<open>Column statistics\<close>

definition stats_for :: "int32 \<Rightarrow> PartitionRow list \<Rightarrow> ColumnStats list" where
  "stats_for c rows = filter (\<lambda>cs. cs_ColumnID cs = c) (concat (map pr_ColumnStats rows))"

lemma agg_rows_concat: "agg_rows rows = fold agg_column (concat (map pr_ColumnStats rows)) []"
proof -
  have "fold (\<lambda>p m. fold agg_column (pr_ColumnStats p) m) rows m =
      fold agg_column (concat (map pr_ColumnStats rows)) m" for m
    by (induction rows arbitrary: m) simp_all
  then show ?thesis by (simp add: agg_rows_def)
qed

lemma agg_column_lookup: "map_of (agg_column x m) c =
    (if cs_ColumnID x = c then Some (agg_add x (gomap_get zero_agg m c)) else map_of m c)"
  by (auto simp: agg_column_def update_conv')

lemma agg_columns:
  "map_of (fold agg_column css m) c =
     (if map_of m c = None \<and> filter (\<lambda>cs. cs_ColumnID cs = c) css = [] then None
      else Some (fold agg_add (filter (\<lambda>cs. cs_ColumnID cs = c) css) (gomap_get zero_agg m c)))"
  by (induction css arbitrary: m) (auto simp: agg_column_lookup gomap_get_def split: option.split)

lemma agg_columns_distinct: "distinct (map fst m) \<Longrightarrow> distinct (map fst (fold agg_column css m))"
  by (induction css arbitrary: m) (simp_all add: agg_column_def distinct_update)

lemma agg_add_max: "maxValue (agg_add cs a) = max (cs_MaxValue cs) (maxValue a)"
proof (cases "cs_MaxValue cs")
  case Nil
  then show ?thesis by (cases "maxValue a") (simp_all add: agg_add_def Let_def max_def)
next
  case Cons
  then show ?thesis by (auto simp: agg_add_def Let_def max_def)
qed

lemma agg_add_min:
  "hasMin (agg_add cs a) \<longleftrightarrow> hasMin a \<or> cs_MinValue cs \<noteq> []"
  "minValue (agg_add cs a) = (if cs_MinValue cs = [] then minValue a
     else if hasMin a then min (cs_MinValue cs) (minValue a) else cs_MinValue cs)"
  by (auto simp: agg_add_def Let_def min_def)

lemma agg_counts:
  "nullCount (fold agg_add css a) = fold (\<lambda>cs n. int64_of (n + cs_NullCount cs)) css (nullCount a)"
  "nanCount (fold agg_add css a) = fold (\<lambda>cs n. int64_of (n + cs_NaNCount cs)) css (nanCount a)"
  "valueCount (fold agg_add css a) = fold (\<lambda>cs n. int64_of (n + cs_ValueCount cs)) css (valueCount a)"
proof -
  have "nullCount (agg_add cs a) = int64_of (nullCount a + cs_NullCount cs)"
    "nanCount (agg_add cs a) = int64_of (nanCount a + cs_NaNCount cs)"
    "valueCount (agg_add cs a) = int64_of (valueCount a + cs_ValueCount cs)" for cs a
    by (simp_all add: agg_add_def Let_def)
  then show "nullCount (fold agg_add css a) = fold (\<lambda>cs n. int64_of (n + cs_NullCount cs)) css (nullCount a)"
    "nanCount (fold agg_add css a) = fold (\<lambda>cs n. int64_of (n + cs_NaNCount cs)) css (nanCount a)"
    "valueCount (fold agg_add css a) = fold (\<lambda>cs n. int64_of (n + cs_ValueCount cs)) css (valueCount a)"
    by (induction css arbitrary: a) simp_all
qed

lemma agg_max: "maxValue (fold agg_add css a) = fold max (map cs_MaxValue css) (maxValue a)"
  by (induction css arbitrary: a) (simp_all add: agg_add_max)

lemma agg_min:
  "hasMin a \<Longrightarrow> minValue (fold agg_add css a) = fold min (filter (\<lambda>v. v \<noteq> []) (map cs_MinValue css)) (minValue a)"
  "\<not> hasMin a \<Longrightarrow> minValue (fold agg_add css a) = (case filter (\<lambda>v. v \<noteq> []) (map cs_MinValue css) of
     [] \<Rightarrow> minValue a | v # vs \<Rightarrow> fold min vs v)"
proof -
  have has: "hasMin a \<Longrightarrow> minValue (fold agg_add css a) =
      fold min (filter (\<lambda>v. v \<noteq> []) (map cs_MinValue css)) (minValue a)" for css a
    by (induction css arbitrary: a) (simp_all add: agg_add_min)
  then show "hasMin a \<Longrightarrow> minValue (fold agg_add css a) =
      fold min (filter (\<lambda>v. v \<noteq> []) (map cs_MinValue css)) (minValue a)" .
  show "\<not> hasMin a \<Longrightarrow> minValue (fold agg_add css a) = (case filter (\<lambda>v. v \<noteq> []) (map cs_MinValue css) of
     [] \<Rightarrow> minValue a | v # vs \<Rightarrow> fold min vs v)"
    by (induction css arbitrary: a) (auto simp: agg_add_min has split: list.split)
qed

text \<open>What the statistics of one column should be.\<close>

definition column_summary :: "int32 \<Rightarrow> ColumnStats list \<Rightarrow> ColumnBounds" where
  "column_summary c css =
     (let mins = filter (\<lambda>v. v \<noteq> []) (map cs_MinValue css) in
      \<lparr>cb_ColumnId = c,
       cb_MinValue = (if mins = [] then [] else Min (set mins)),
       cb_MaxValue = Max (insert [] (set (map cs_MaxValue css))),
       cb_NullCount = int64_of (sum_list (map cs_NullCount css)),
       cb_NanCount = int64_of (sum_list (map cs_NaNCount css)),
       cb_ValueCount = int64_of (sum_list (map cs_ValueCount css))\<rparr>)"

lemma column_summary_agg:
  "column_bounds (agg_stats (c, fold agg_add css zero_agg)) = column_summary c css"
proof -
  have "fold max (map cs_MaxValue css) [] = Max (insert [] (set (map cs_MaxValue css)))"
    using Max.set_eq_fold [of "[]" "map cs_MaxValue css"] by simp
  moreover have min: "(case vs of [] \<Rightarrow> [] | v # vs \<Rightarrow> fold min vs v) = (if vs = [] then [] else Min (set vs))"
    for vs :: "string list" by (cases vs) (simp_all add: Min.set_eq_fold [symmetric])
  moreover have zero: "\<not> hasMin zero_agg" "minValue zero_agg = []" by (simp_all add: zero_agg_def)
  have "minValue (fold agg_add css zero_agg) = (let mins = filter (\<lambda>v. v \<noteq> []) (map cs_MinValue css) in
      if mins = [] then [] else Min (set mins))"
    unfolding agg_min(2) [OF zero(1)] zero(2) min Let_def by (rule refl)
  ultimately show ?thesis
    by (simp add: column_bounds_def agg_stats_def column_summary_def agg_counts agg_max zero_agg_def
        fold_int64_sum_0 Let_def)
qed

lemma column_summaries:
  "set (map (column_bounds \<circ> agg_stats) (agg_rows rows)) =
     (\<lambda>c. column_summary c (stats_for c rows)) ` {c. stats_for c rows \<noteq> []}"
  "distinct (map fst (agg_rows rows))"
proof -
  show d: "distinct (map fst (agg_rows rows))"
    unfolding agg_rows_concat by (rule agg_columns_distinct) simp
  have look: "map_of (agg_rows rows) c = (if stats_for c rows = [] then None
      else Some (fold agg_add (stats_for c rows) zero_agg))" for c
    unfolding agg_rows_concat agg_columns stats_for_def by (simp add: gomap_get_def)
  have "set (agg_rows rows) = {(c, a). map_of (agg_rows rows) c = Some a}"
    using d by (auto simp: map_of_eq_Some_iff)
  also have "\<dots> = (\<lambda>c. (c, fold agg_add (stats_for c rows) zero_agg)) ` {c. stats_for c rows \<noteq> []}"
    by (auto simp: look split: if_splits)
  finally show "set (map (column_bounds \<circ> agg_stats) (agg_rows rows)) =
     (\<lambda>c. column_summary c (stats_for c rows)) ` {c. stats_for c rows \<noteq> []}"
    by (simp add: image_image column_summary_agg)
qed

lemma GetColumnStats_replies:
  assumes "name \<noteq> []" "snap \<noteq> 0"
  shows "replies S (\<lambda>_. True) (srv_GetColumnStats S name snap) (\<lambda>db. Inr (snap, map (column_bounds \<circ> agg_stats)
    (agg_rows (case partitions_at db name snap of None \<Rightarrow> [] | Some ps \<Rightarrow> ps))))"
proof -
  have "answers sound (pg_GetColumnStatsForSnapshot E name snap)
      (\<lambda>db. map agg_stats (agg_rows (case partitions_at db name snap of None \<Rightarrow> [] | Some ps \<Rightarrow> ps)))" for E
    unfolding pg_GetColumnStatsForSnapshot_def
    by (rule answers_bind [OF answers_partitions], rule answers_ret) simp
  then show ?thesis
    unfolding srv_GetColumnStats_def Let_def if_not_P [OF assms(1)] if_P [OF assms(2)]
    by (intro replies_internal_or [OF act_answers_unlocked [where Q = sound]] replies_ret) auto
qed

text \<open>
  C12: Column statistics of a snapshot are the statistics of its rows. For every column that occurs
  in the statistics of a visible row, and for no other, there is exactly one entry; its counts are
  the sums over the rows as 64-bit integers, its maximum is the greatest maximum, and its minimum is
  the least of the minima that are not empty.
\<close>

theorem column_stats_exact:
  assumes "reachable S s" "name \<noteq> []" "snap \<noteq> 0" "partitions_at (db_of s) name snap = Some rows"
    and "srv_GetColumnStats S name snap s = Some (Inr (n, bounds), s')"
  shows "n = snap \<and> distinct (map cb_ColumnId bounds) \<and>
    set bounds = (\<lambda>c. column_summary c (stats_for c rows)) ` {c. stats_for c rows \<noteq> []}"
proof -
  have "(n, bounds) = (snap, map (column_bounds \<circ> agg_stats) (agg_rows rows))"
    using repliesD [OF GetColumnStats_replies [OF assms(2,3)] assms(1) TrueI assms(5)] assms(4) by simp
  then have n: "n = snap" and b: "bounds = map (column_bounds \<circ> agg_stats) (agg_rows rows)" by simp_all
  have "map cb_ColumnId bounds = map fst (agg_rows rows)"
    unfolding b by (simp add: column_bounds_def agg_stats_def)
  then show ?thesis using n column_summaries [of rows] unfolding b by metis
qed

text \<open>A table with statistics: one more commit on the sample table, and a restart.\<close>

definition stats_1 :: ColumnStats where
  "stats_1 = \<lparr>cs_ColumnID = 1, cs_NullCount = 2, cs_NaNCount = 0, cs_ValueCount = 3, cs_MinValue = ''b'',
     cs_MaxValue = ''c'', cs_SizeBytes = 0\<rparr>"

definition stats_json :: string where
  \<open>stats_json = ''[{"column_id":1,"null_count":2,"nan_count":0,"value_count":3,"min_value":"b","max_value":"c","size_bytes":0}]''\<close>

definition commit_stats :: request where
  "commit_stats = Req_CommitSnapshot ''t'' [(info ''c'' 5)\<lparr>pi_ColumnStats := columnStatsToProto [stats_1]\<rparr>] [] 1 ''append''"

definition stats_pg :: pg where
  "stats_pg =
     \<lparr>pg_db = two_rows_db
        \<lparr>d_tables := map (\<lambda>t. t\<lparr>t_snapshot := 2, t_updated_at := 19\<rparr>) (d_tables two_rows_db),
         d_snapshots := d_snapshots two_rows_db @ [\<lparr>s_id = 2, s_table = 1, s_parent = 1, s_committed_at = 19,
           s_operation = ''append'', s_added = 1, s_deleted = 0\<rparr>],
         d_partitions := d_partitions two_rows_db @ [\<lparr>p_id = 3, p_table = 1, p_snapshot = 2, p_key = ''c'',
           p_path = ''fc'', p_format = ''parquet'', p_rows = 5, p_bytes = 7, p_stats = stats_json, p_deleted = False,
           p_deleted_snapshot = None\<rparr>],
         d_mfiles := d_mfiles two_rows_db @ [\<lparr>mf_ManifestFileID = 2, mf_TableID = 1, mf_SnapshotID = 2,
           mf_ManifestPath = ''iceberg://t/2/0.avro'', mf_PartitionSpecID = 1, mf_AddedFilesCount = 1,
           mf_DeletedFilesCount = 0, mf_AddedRowsCount = 5, mf_DeletedRowsCount = 0,
           mf_PartitionSummaries = summaries_json [''c'']\<rparr>],
         d_mlists := d_mlists two_rows_db @ [\<lparr>ml_ManifestListID = 2, ml_SnapshotID = 2, ml_TableID = 1,
           ml_ManifestCount = 1\<rparr>]\<rparr>,
      pg_seq = \<lparr>q_table = 1, q_history = 0, q_snapshot = 2, q_partition = 3, q_txn = 0, q_mfile = 2,
        q_mlist = 2, q_spec = 1\<rparr>,
      pg_tick = 28, pg_tx = None\<rparr>"

definition with_stats :: sys where
  "with_stats = NewServer small_config stats_pg"

lemma commit_stats_pg: "map_option (\<lambda>s. c_pg (sys_core s)) (serve healthy commit_stats restarted) = Some stats_pg"
  by code_simp

lemma reachable_with_stats: "reachable healthy with_stats"
proof -
  obtain s where s: "serve healthy commit_stats restarted = Some s" "c_pg (sys_core s) = stats_pg"
    using commit_stats_pg by auto
  have "leads_to healthy restarted (NewServer small_config (c_pg (sys_core s)))"
    by (rule leads_to.restart [OF leads_to.request [OF leads_to.here s(1)]])
  then show ?thesis using reachable_leads_to [OF reachable_restarted] s(2) by (simp add: with_stats_def)
qed

lemma stats_json_parsed: "unmarshalColumnStats stats_json = [stats_1]" "unmarshalColumnStats ''[]'' = []"
  by code_simp+

lemma with_stats_rows:
  obtains rows where "partitions_at (db_of with_stats) ''t'' 2 = Some rows" "map pr_ColumnStats rows = [[], [], [stats_1]]"
proof -
  have ps: "d_partitions (db_of with_stats) = d_partitions (pg_db stats_pg)"
    and t: "live_table ''t'' (db_of with_stats) = Some (hd (d_tables (pg_db stats_pg)))" "t_id (hd (d_tables (pg_db stats_pg))) = 1"
    by (simp_all add: with_stats_def NewServer_def stats_pg_def two_rows_db_def live_table_def is_live_def)
  have "\<forall>p \<in> set (d_partitions (pg_db stats_pg)). visible 1 2 p"
    by (simp add: stats_pg_def two_rows_db_def visible_def)
  then have "partitions_at (db_of with_stats) ''t'' 2 = Some (map scan_partition (d_partitions (pg_db stats_pg)))"
    using t by (simp add: partitions_at_def visible_rows_inv [OF reachable_parts(1) [OF reachable_with_stats]]
        int64_of_uint64_def ps)
  moreover have "map pr_ColumnStats (map scan_partition (d_partitions (pg_db stats_pg))) = [[], [], [stats_1]]"
    by (simp add: stats_pg_def two_rows_db_def scan_partition_def stats_json_parsed)
  ultimately show thesis by (rule that)
qed

theorem column_stats_exact_witness:
  "\<exists>s2 bounds. srv_GetColumnStats healthy ''t'' 2 with_stats = Some (Inr (2, bounds), s2) \<and>
     set bounds = {\<lparr>cb_ColumnId = 1, cb_MinValue = ''b'', cb_MaxValue = ''c'', cb_NullCount = 2, cb_NanCount = 0,
       cb_ValueCount = 3\<rparr>}"
proof -
  have "map_option (isl \<circ> fst) (srv_GetColumnStats healthy ''t'' 2 with_stats) = Some False" by code_simp
  then obtain r s2 where "srv_GetColumnStats healthy ''t'' 2 with_stats = Some (r, s2)" "\<not> isl r" by auto
  then obtain n bounds where ans: "srv_GetColumnStats healthy ''t'' 2 with_stats = Some (Inr (n, bounds), s2)"
    by (cases r) auto
  obtain rows where at: "partitions_at (db_of with_stats) ''t'' 2 = Some rows"
    and rows: "map pr_ColumnStats rows = [[], [], [stats_1]]" by (rule with_stats_rows)
  have "stats_for c rows = (if c = 1 then [stats_1] else [])" for c
    unfolding stats_for_def rows by (simp add: stats_1_def)
  moreover have "column_summary 1 [stats_1] = \<lparr>cb_ColumnId = 1, cb_MinValue = ''b'', cb_MaxValue = ''c'',
      cb_NullCount = 2, cb_NanCount = 0, cb_ValueCount = 3\<rparr>" by code_simp
  ultimately show ?thesis
    using column_stats_exact [OF reachable_with_stats _ _ at ans] ans by auto
qed

end
