(* ===== verification/Sample_Versions.thy ===== *)
theory Sample_Versions
  imports Sample_Run
begin

text \<open>
  A second state for the witnesses: the table of \<open>Sample_Run\<close> after its schema was altered, the
  server restarted, its partition spec altered, and the server restarted again.
\<close>

definition a_schema :: string where
  \<open>a_schema = ''{"a":[]}''\<close>

definition cd_fields :: PartitionSpecProto where
  "cd_fields =
     [\<lparr>pp_FieldId = 1, pp_SourceColumn = ''c'', pp_Transform = 0, pp_TransformParam = 0\<rparr>,
      \<lparr>pp_FieldId = 2, pp_SourceColumn = ''d'', pp_Transform = 3, pp_TransformParam = 0\<rparr>]"

definition cd_json :: string where
  \<open>cd_json = ''{"fields":[{"field_id":1,"source_column":"c","transform":"identity"},'' @
     ''{"field_id":2,"source_column":"d","transform":"day"}]}''\<close>

definition evolved_pg :: pg where
  "evolved_pg = two_rows_pg\<lparr>
     pg_db := two_rows_db\<lparr>
       d_tables := [\<lparr>t_id = 1, t_name = ''t'', t_schema = a_schema, t_schema_version = 2, t_spec = t_spec_json,
         t_spec_version = 1, t_snapshot = 1, t_properties = ''{}'', t_updated_at = 19, t_deleted = False\<rparr>],
       d_history := [\<lparr>h_id = 1, h_table = 1, h_version = 2, h_schema = a_schema, h_changed_at = 19,
         h_summary = ''schema evolution via AlterTable''\<rparr>]\<rparr>,
     pg_seq := (pg_seq two_rows_pg)\<lparr>q_history := 1\<rparr>, pg_tick := 24\<rparr>"

definition versioned_pg :: pg where
  "versioned_pg = evolved_pg\<lparr>
     pg_db := (pg_db evolved_pg)\<lparr>
       d_tables := [\<lparr>t_id = 1, t_name = ''t'', t_schema = a_schema, t_schema_version = 2, t_spec = cd_json,
         t_spec_version = 2, t_snapshot = 1, t_properties = ''{}'', t_updated_at = 26, t_deleted = False\<rparr>],
       d_specs := d_specs two_rows_db @ [\<lparr>g_id = 2, g_table = 1, g_version = 2, g_spec = cd_json,
         g_changed_at = 26, g_summary = ''partition spec evolution via AlterTable''\<rparr>]\<rparr>,
     pg_seq := (pg_seq evolved_pg)\<lparr>q_spec := 2\<rparr>, pg_tick := 30\<rparr>"

definition versioned :: sys where
  "versioned = NewServer small_config versioned_pg"

lemma proposed_cd: "proposed_json (Some cd_fields) = cd_json"
  by code_simp

text \<open>The two specs and the check of the second against the first.\<close>

definition c_spec :: PartitionSpec where
  "c_spec = \<lparr>ps_Fields = [\<lparr>pf_FieldID = 1, pf_SourceColumn = ''c'', pf_Transform = TransformIdentity, pf_TransformParam = None\<rparr>]\<rparr>"

definition cd_spec :: PartitionSpec where
  "cd_spec = \<lparr>ps_Fields = ps_Fields c_spec @
     [\<lparr>pf_FieldID = 2, pf_SourceColumn = ''d'', pf_Transform = TransformDay, pf_TransformParam = None\<rparr>]\<rparr>"

lemma sample_specs: "unmarshalSpec t_spec_json = Some c_spec" "unmarshalSpec cd_json = Some cd_spec"
proof -
  have "marshalSpec c_spec = t_spec_json" "marshalSpec cd_spec = cd_json" by code_simp+
  moreover have "unmarshalSpec (marshalSpec c_spec) = Some c_spec" "unmarshalSpec (marshalSpec cd_spec) = Some cd_spec"
    by (rule spec_roundtrip, simp add: c_spec_def cd_spec_def field_codable_def in_int64_def go_defs byte_def)+
  ultimately show "unmarshalSpec t_spec_json = Some c_spec" "unmarshalSpec cd_json = Some cd_spec" by simp_all
qed

lemma sample_change: "ValidateSpecChange t_spec_json cd_json = None"
  by (rule validateI [OF sample_specs])
    (auto simp: spec_wf_def spec_evolves_def c_spec_def cd_spec_def field_wf_def validTransforms_def
      paramRequired_def go_defs)

subsection \<open>Running it\<close>

text \<open>A method that returns a result and not an error, in a form that evaluates.\<close>

definition answered :: "(('e + 'a) \<times> sys) option \<Rightarrow> bool" where
  "answered m \<longleftrightarrow> (\<exists>x s'. m = Some (Inr x, s'))"

lemma answered_code: "answered m \<longleftrightarrow> map_option (\<lambda>(r, s). isl r) m = Some False"
  by (cases m) (auto simp: answered_def isl_def split: prod.split, metis sum.exhaust)

text \<open>A database method under one lock, from idle locks.\<close>

lemma locked_pg:
  assumes "idle (sys_locks s)"
  shows "\<exists>s'. with_locks [(x, name)] (on_pg m) s = Some (fst (m (c_pg (sys_core s))), s') \<and> idle (sys_locks s') \<and>
    sys_core s' = (sys_core s)\<lparr>c_pg := snd (m (c_pg (sys_core s)))\<rparr>"
  using with_locks_idle [OF assms, of "[(x, name)]" "on_pg m"] by (auto simp: on_pg_def split: prod.split)

lemma NewServer_idle [simp]: "idle (sys_locks (NewServer cfg w))"
  by (simp add: NewServer_def)

lemma evolved_run: "map_option (\<lambda>(r, s). c_pg (sys_core s)) (srv_AlterTable healthy ''t'' (NewSchemaJson a_schema) restarted) =
    Some evolved_pg"
  by code_simp

lemma reachable_evolved: "reachable healthy (NewServer small_config evolved_pg)"
proof -
  obtain r s' where run: "srv_AlterTable healthy ''t'' (NewSchemaJson a_schema) restarted = Some (r, s')"
    "c_pg (sys_core s') = evolved_pg" using evolved_run by auto
  have "reachable healthy s'"
    by (rule reachable_request [OF reachable_restarted, of "Req_AlterTable ''t'' (NewSchemaJson a_schema)"])
      (simp add: run_act_def run(1))
  from reachable_leads_to [OF this leads_to.restart [OF leads_to.here]] show ?thesis by (simp add: run(2))
qed

lemma versioned_core:
  "GetCurrentSpec_locked (se_pg healthy) ''t'' evolved_pg =
     (Inr (Some \<lparr>pv_Version = 1, pv_SpecJSON = t_spec_json, pv_ChangedAt = [], pv_ChangeSummary = ''current''\<rparr>),
      evolved_pg\<lparr>pg_tick := 25\<rparr>)"
  "AlterTablePartitionSpec_locked (se_pg healthy) ''t'' cd_json ''partition spec evolution via AlterTable''
     (evolved_pg\<lparr>pg_tick := 25\<rparr>) = (success, versioned_pg)"
  by code_simp+

lemma versioned_run:
  obtains s' where "srv_AlterTable healthy ''t'' (NewPartitionSpec (Some cd_fields)) (NewServer small_config evolved_pg) =
      Some (Inr success, s')" "c_pg (sys_core s') = versioned_pg"
proof -
  let ?s = "NewServer small_config evolved_pg" and ?m = "''partition spec evolution via AlterTable''"
  have core: "c_pg (sys_core ?s) = evolved_pg" by (simp add: NewServer_def)
  obtain s1 where s1: "sp_GetCurrentSpec (se_pg healthy) ''t'' ?s =
      Some (Inr (Some \<lparr>pv_Version = 1, pv_SpecJSON = t_spec_json, pv_ChangedAt = [], pv_ChangeSummary = ''current''\<rparr>), s1)"
    "idle (sys_locks s1)" "sys_core s1 = (sys_core ?s)\<lparr>c_pg := evolved_pg\<lparr>pg_tick := 25\<rparr>\<rparr>"
    using locked_pg [of ?s False "''t''" "GetCurrentSpec_locked (se_pg healthy) ''t''"]
    by (auto simp: sp_GetCurrentSpec_def core versioned_core)
  obtain s2 where s2: "cm_AlterTablePartitionSpec (se_pg healthy) ''t'' cd_json ?m s1 = Some (success, s2)"
    "sys_core s2 = (sys_core ?s)\<lparr>c_pg := versioned_pg\<rparr>"
    using locked_pg [OF s1(2), of True "''t''" "AlterTablePartitionSpec_locked (se_pg healthy) ''t'' cd_json ?m"]
    by (auto simp: cm_AlterTablePartitionSpec_def s1(3) versioned_core)
  obtain n s3 where s3: "invalidate ''t'' s2 = Some (n, s3)" "c_pg (sys_core s3) = versioned_pg"
    using s2(2) by (cases "lru_InvalidateIf (\<lambda>key. length ''t:'' \<le> length key \<and> take (length ''t:'') key = ''t:'')
        (c_cache (sys_core s2))")
      (simp add: invalidate_def unlocked_def InvalidateTableCache_def)
  have "AlterSpec healthy ''t'' (Some cd_fields) ?s = Some (Inr success, s3)"
    unfolding AlterSpec_def proposed_cd
    by (simp add: internal_or_def act_then_def s1(1) s2(1) s3(1) sample_change act_ret_def)
  then show thesis using s3(2) by (intro that) (simp_all add: srv_AlterTable_def)
qed

lemma reachable_versioned: "reachable healthy versioned"
proof -
  obtain s' where run: "srv_AlterTable healthy ''t'' (NewPartitionSpec (Some cd_fields)) (NewServer small_config evolved_pg) =
      Some (Inr success, s')" "c_pg (sys_core s') = versioned_pg" by (rule versioned_run)
  have "reachable healthy s'"
    by (rule reachable_request [OF reachable_evolved, of "Req_AlterTable ''t'' (NewPartitionSpec (Some cd_fields))"])
      (simp add: run_act_def run(1))
  from reachable_leads_to [OF this leads_to.restart [OF leads_to.here]] show ?thesis
    by (simp add: versioned_def run(2))
qed

lemma db_versioned [simp]: "db_of versioned = pg_db versioned_pg"
  by (simp add: versioned_def NewServer_def)

lemma specs_kept_healthy: "specs_kept (se_pg healthy)"
  by (simp add: specs_kept_def healthy_def healthy_pg_def)

end
