(* ===== verification/Version_Reads.thy ===== *)
theory Version_Reads
  imports Read_Answers Sample_Versions
begin

text \<open>
  The histories of schemas and partition specs: every version is there, the last one is the current
  one, and no stored spec gives up a field of an earlier one.
\<close>

subsection \<open>Versions in order\<close>

lemma counted_upto:
  assumes "counted v vs" "- (2 ^ 31) \<le> v" "v + int (length vs) \<le> 2 ^ 31"
  shows "vs = [v..v + int (length vs) - 1]"
proof (rule nth_equalityI)
  fix i assume i: "i < length vs"
  then have "vs ! i = int32_of (v + int i)"
    using assms(1) unfolding counted_def by (metis (no_types, lifting) add_cancel_left_left diff_zero length_map length_upt nth_map nth_upt)
  also have "\<dots> = v + int i" using assms(2,3) i by (intro int32_of_id) (simp add: in_int32_def)
  also have "\<dots> = [v..v + int (length vs) - 1] ! i" using i by (subst nth_upto) auto
  finally show "vs ! i = [v..v + int (length vs) - 1] ! i" .
qed simp

lemma sort_descending:
  assumes "map f xs = [v..n]"
  shows "sort_key (\<lambda>x. - f x) xs = rev xs"
proof (rule sort_key_inj_key_eq)
  have "distinct (map f xs)" "sorted (map f xs)" using assms by simp_all
  then show "inj_on (\<lambda>x. - f x) (set xs)" by (auto simp: distinct_map inj_on_def)
  have "sorted_wrt (\<ge>) (rev (map f xs))" using \<open>sorted (map f xs)\<close> by (simp add: sorted_wrt_rev)
  then have "sorted_wrt (\<lambda>x y. f x \<ge> f y) (rev xs)" by (simp only: rev_map sorted_wrt_map)
  then show "sorted (map (\<lambda>x. - f x) (rev xs))" by (simp add: sorted_map)
qed simp

lemma find_by_version:
  assumes "map f xs = [v..n]"
  shows "find (\<lambda>x. f x = k) xs = (if v \<le> k \<and> k \<le> n then Some (xs ! nat (k - v)) else None)"
proof (cases "v \<le> k \<and> k \<le> n")
  case False
  moreover have "f ` set xs = {v..n}" using assms by (metis set_map set_upto)
  ultimately have "\<forall>x \<in> set xs. f x \<noteq> k" by force
  with False show ?thesis by (auto simp: find_None_iff)
next
  case True
  have len: "length xs = nat (n - v + 1)" using assms by (metis length_map length_upto)
  have at: "f (xs ! i) = v + int i" if "i < length xs" for i
  proof -
    have "f (xs ! i) = [v..n] ! i" using that by (simp flip: assms)
    then show ?thesis using that len by simp
  qed
  let ?i = "nat (k - v)"
  have i: "?i < length xs" using True len by simp
  moreover have "f (xs ! ?i) = k" using at [OF i] True by simp
  moreover have "f (xs ! j) \<noteq> k" if "j < ?i" for j using at [of j] that i by auto
  ultimately have "find (\<lambda>x. f x = k) xs = Some (xs ! ?i)" by (auto simp: find_Some_iff)
  with True show ?thesis by simp
qed

lemma find_map: "find P (map f xs) = map_option f (find (P \<circ> f) xs)"
  by (induction xs) auto

lemma find_rev:
  assumes "distinct (map f xs)"
  shows "find (\<lambda>x. f x = k) (rev xs) = find (\<lambda>x. f x = k) xs"
proof -
  have app: "find P (ys @ zs) = (case find P ys of None \<Rightarrow> find P zs | Some y \<Rightarrow> Some y)" for P ys zs
    by (induction ys) auto
  show ?thesis using assms
  proof (induction xs)
    case (Cons x xs)
    then have "f x = k \<Longrightarrow> find (\<lambda>x. f x = k) xs = None" by (simp add: find_None_iff) (metis imageI)
    with Cons show ?case by (auto simp: app split: option.split)
  qed simp
qed

text \<open>The histories of a table that has not seen \<open>2 ^ 31\<close> versions.\<close>

lemma history_versions:
  assumes "reachable S s" "live_table name (db_of s) = Some t"
    and "length (history_of (t_id t) (db_of s)) < 2 ^ 31 - 1"
  shows "map h_version (history_of (t_id t) (db_of s)) = [2..t_schema_version t]"
    and "history_of (t_id t) (db_of s) \<noteq> [] \<longrightarrow> t_schema t = h_schema (last (history_of (t_id t) (db_of s)))"
proof -
  let ?hs = "history_of (t_id t) (db_of s)"
  have c: "schema_current t ?hs"
    using reachable_versions(1) [OF assms(1)] live_table_Some [OF assms(2)] by (simp add: versions_ok_def)
  then have "t_schema_version t = 1 + int (length ?hs)"
    using assms(3) by (simp add: schema_current_def in_int32_def)
  then show "map h_version ?hs = [2..t_schema_version t]" using c assms(3) counted_upto [of 2 "map h_version ?hs"]
    by (simp add: schema_current_def)
  show "?hs \<noteq> [] \<longrightarrow> t_schema t = h_schema (last ?hs)" using c by (simp add: schema_current_def)
qed

lemma spec_versions:
  assumes "reachable S s" "live_table name (db_of s) = Some t"
    and "length (specs_of (t_id t) (db_of s)) < 2 ^ 31 - 1"
  obtains v where "v \<in> {1, 2}" "map g_version (specs_of (t_id t) (db_of s)) = [v..t_spec_version t]"
    "specs_of (t_id t) (db_of s) \<noteq> [] \<longrightarrow> t_spec t = g_spec (last (specs_of (t_id t) (db_of s)))"
proof -
  let ?gs = "specs_of (t_id t) (db_of s)"
  have "spec_current t ?gs"
    using reachable_versions(1) [OF assms(1)] live_table_Some [OF assms(2)] by (simp add: versions_ok_def)
  then obtain v where v: "v \<in> {1, 2}" "counted v (map g_version ?gs)" "t_spec_version t = int32_of (v - 1 + int (length ?gs))"
    and last: "?gs \<noteq> [] \<longrightarrow> t_spec t = g_spec (last ?gs)" unfolding spec_current_def by blast
  then have "t_spec_version t = v - 1 + int (length ?gs)" using assms(3) by (auto simp: in_int32_def)
  then have "map g_version ?gs = [v..t_spec_version t]" using v assms(3) counted_upto [of v "map g_version ?gs"] by auto
  with v(1) last show thesis by (intro that)
qed

subsection \<open>What the stores answer\<close>

definition schema_list :: "pg_env \<Rightarrow> string \<Rightarrow> database \<Rightarrow> SchemaVersion list" where
  "schema_list E name db = (case live_table name db of
     None \<Rightarrow> [] | Some t \<Rightarrow> map (scan_history E) (sort_key (\<lambda>h. - h_version h) (history_of (t_id t) db)))"

definition spec_list :: "pg_env \<Rightarrow> string \<Rightarrow> database \<Rightarrow> PartitionSpecVersion list" where
  "spec_list E name db = (case live_table name db of
     None \<Rightarrow> []
   | Some t \<Rightarrow> map (\<lambda>g. spec_version (scan_spec E g)) (sort_key (\<lambda>g. - g_version g) (specs_of (t_id t) db)))"

lemma ListSchemaHistory_answers: "act_answers S (\<lambda>_. True) (ss_ListSchemaHistory E name) (schema_list E name)"
  unfolding ss_ListSchemaHistory_def
  by (rule act_answers_locked [where Q = sound], unfold ListSchemaHistory_locked_def, rule by_id,
      simp add: schema_list_def, rule answers_bind, simp only: sql_list_history_def, rule answers_query, rule refl)
    (auto simp: schema_list_def history_of_def intro!: answers_ret)

lemma answers_spec_rows: "answers P (pg_ListPartitionSpecHistory E tid)
    (\<lambda>db. map (scan_spec E) (sort_key (\<lambda>g. - g_version g) (specs_of tid db)))"
  unfolding pg_ListPartitionSpecHistory_def sql_list_specs_def
  by (rule answers_bind, rule answers_query, rule refl, rule answers_ret) (simp add: specs_of_def)

lemma answers_spec_row: "answers P (pg_GetPartitionSpecByVersion E tid k)
    (\<lambda>db. map_option (scan_spec E) (find (\<lambda>g. g_version g = k) (specs_of tid db)))"
proof -
  have find: "find (\<lambda>g. g_table g = tid \<and> g_version g = k) gs = find (\<lambda>g. g_version g = k) (filter (\<lambda>g. g_table g = tid) gs)"
    for gs by (induction gs) auto
  show ?thesis unfolding pg_GetPartitionSpecByVersion_def sql_select_spec_def
    by (rule answers_row) (auto simp: find specs_of_def intro!: answers_ret)
qed

lemma ListSpecHistory_answers: "act_answers S (\<lambda>_. True) (sp_ListSpecHistory E name) (spec_list E name)"
proof -
  have "answers sound (ListSpecHistory_locked E name) (spec_list E name)"
    unfolding ListSpecHistory_locked_def
    by (rule by_id, simp add: spec_list_def, rule answers_bind [OF answers_spec_rows])
      (auto simp: spec_list_def intro!: answers_ret)
  then show ?thesis unfolding sp_ListSpecHistory_def by (rule act_answers_locked)
qed

lemma GetSpecAtVersion_answers:
  "act_answers S (\<lambda>_. True) (sp_GetSpecAtVersion E name k) (\<lambda>db. case live_table name db of
     None \<Rightarrow> None
   | Some t \<Rightarrow> map_option (\<lambda>g. spec_version (scan_spec E g)) (find (\<lambda>g. g_version g = k) (specs_of (t_id t) db)))"
  (is "act_answers S _ _ ?f")
proof -
  have "answers sound (GetSpecAtVersion_locked E name k) ?f"
    unfolding GetSpecAtVersion_locked_def
    by (rule by_id, simp, rule answers_bind [OF answers_spec_row])
      (auto simp: option.map_comp comp_def intro!: answers_ret)
  then show ?thesis unfolding sp_GetSpecAtVersion_def by (rule act_answers_locked)
qed

lemma GetCurrentSpec_answers:
  "act_answers S (\<lambda>_. True) (sp_GetCurrentSpec E name) (\<lambda>db. map_option (\<lambda>t. \<lparr>pv_Version = t_spec_version t,
     pv_SpecJSON = t_spec t, pv_ChangedAt = [], pv_ChangeSummary = ''current''\<rparr>) (live_table name db))"
proof -
  have "answers sound (GetCurrentSpec_locked E name) (\<lambda>db. map_option (\<lambda>t. \<lparr>pv_Version = t_spec_version t,
      pv_SpecJSON = t_spec t, pv_ChangedAt = [], pv_ChangeSummary = ''current''\<rparr>) (live_table name db))"
    unfolding GetCurrentSpec_locked_def
    by (rule answers_bind [OF answers_table], rule answers_ret) (auto simp: table_row_def option.map_comp comp_def)
  then show ?thesis unfolding sp_GetCurrentSpec_def by (rule act_answers_locked)
qed

lemma GetCurrentSchema_answers:
  "act_answers S (\<lambda>_. True) (ss_GetCurrentSchema E name) (\<lambda>db. map_option (\<lambda>t. \<lparr>sv_Version = t_schema_version t,
     sv_SchemaJSON = t_schema t, sv_ChangedAt = [], sv_ChangeSummary = ''current''\<rparr>) (live_table name db))"
proof -
  have "answers sound (GetCurrentSchema_locked E name) (\<lambda>db. map_option (\<lambda>t. \<lparr>sv_Version = t_schema_version t,
      sv_SchemaJSON = t_schema t, sv_ChangedAt = [], sv_ChangeSummary = ''current''\<rparr>) (live_table name db))"
    unfolding GetCurrentSchema_locked_def
    by (rule answers_bind [OF answers_table], rule answers_ret) (auto simp: table_row_def option.map_comp comp_def)
  then show ?thesis unfolding ss_GetCurrentSchema_def by (rule act_answers_locked)
qed

text \<open>Asking for one version of the schema gives its row, or nothing, also when the query fails.\<close>

lemma GetSchemaAtVersion_run:
  assumes "GetSchemaAtVersion_locked E name k w = (Inr x, w')" "live_table name (pg_db w) = Some t"
  shows "x = None \<or> x = map_option (scan_history E) (find (\<lambda>h. h_version h = k) (history_of (t_id t) (pg_db w)))"
  using assms(1) unfolding GetSchemaAtVersion_locked_def
proof (cases rule: on_err_cases)
  case (ok i w1)
  note id = pg_GetTableID_spec [OF ok(1)]
  have find: "find (\<lambda>h. h_table h = tid \<and> h_version h = k) hs = find (\<lambda>h. h_version h = k) (filter (\<lambda>h. h_table h = tid) hs)"
    for tid hs by (induction hs) auto
  show ?thesis
  proof (cases "i < 0")
    case False
    with ok(2) have "on_err (scan_row (pool_exec E [] (sql_select_history i k))) (\<lambda>e. ret (Inr None))
        (\<lambda>h. ret (Inr (Some (scan_history E h)))) w1 = (Inr x :: pg_error + SchemaVersion option, w')" by simp
    then show ?thesis
    proof (cases rule: on_err_cases)
      case (ok h w2)
      then show ?thesis using pool_row [OF ok(1)[unfolded sql_select_history_def]] id assms(2)
        by (auto simp: ret_def table_id_of_def same_db_def find history_of_def)
    qed (simp add: ret_def)
  qed (use ok in \<open>simp add: ret_def\<close>)
qed (simp add: ret_def)

lemma act_answersD:
  assumes "act_answers S P m f" "reachable S s" "P (db_of s)" "m s = Some (Inr x, s')"
  shows "x = f (db_of s) \<and> db_of s' = db_of s"
  using assms reachable_good [OF assms(2)] unfolding act_answers_def by blast

lemma ListPartitionSpecs_replies:
  "replies S (\<lambda>_. True) (srv_ListPartitionSpecs S name) (\<lambda>db.
     if name = [] then grpc InvalidArgument ''table_name is required''
     else Inr (List.map_filter (spec_response name) (spec_list (se_pg S) name db)))"
  unfolding srv_ListPartitionSpecs_def
  by (rule replies_if, rule replies_ret, simp, rule replies_internal_or [OF ListSpecHistory_answers], rule replies_ret) simp

text \<open>Of two entries of a list in the order of their versions, the older comes first.\<close>

lemma in_version_order:
  assumes "map f xs = [v..n]" "x \<in> set xs" "y \<in> set xs" "f x \<le> f y" "sorted_wrt P xs"
  shows "x = y \<or> P x y"
proof -
  obtain i j where ij: "i < length xs" "x = xs ! i" "j < length xs" "y = xs ! j"
    using assms(2,3) by (metis in_set_conv_nth)
  have len: "length xs = nat (n - v + 1)" using assms(1) by (metis length_map length_upto)
  have "f (xs ! k) = v + int k" if "k < length xs" for k
  proof -
    have "f (xs ! k) = [v..n] ! k" using that by (simp flip: assms(1))
    then show ?thesis using that len by simp
  qed
  with ij assms(4) have "i \<le> j" by simp
  then show ?thesis using assms(5) ij by (cases "i = j") (auto simp: sorted_wrt_iff_nth_less)
qed

subsection \<open>Properties\<close>



text \<open>
  C16: The history of the schema has every version from the second on, the newest being the schema in
  force, but never the first: the schema a table is created with is not recorded, so asking for
  version 1 finds nothing, whatever happened to the table.
\<close>

theorem schema_history_complete:
  assumes "reachable S s" "live_table name (db_of s) = Some t"
    and "length (history_of (t_id t) (db_of s)) < 2 ^ 31 - 1"
    and "ss_ListSchemaHistory (se_pg S) name s = Some (Inr vs, s1)"
    and "ss_GetSchemaAtVersion (se_pg S) name k s = Some (Inr x, s2)"
    and "ss_GetCurrentSchema (se_pg S) name s = Some (Inr cur, s3)"
  shows "map sv_Version vs = rev [2..t_schema_version t] \<and> (x = None \<or> x = find (\<lambda>y. sv_Version y = k) vs) \<and>
    (k = 1 \<longrightarrow> x = None) \<and>
    (vs \<noteq> [] \<longrightarrow> (\<exists>c. cur = Some c \<and> sv_Version c = t_schema_version t \<and> sv_SchemaJSON c = sv_SchemaJSON (hd vs)))"
proof -
  let ?hs = "history_of (t_id t) (db_of s)" and ?f = "scan_history (se_pg S)"
  note v = history_versions(1) [OF assms(1-3)] and last = history_versions(2) [OF assms(1-3)]
  have vs: "vs = map ?f (rev ?hs)"
    using act_answersD [OF ListSchemaHistory_answers assms(1) TrueI assms(4)] assms(2) sort_descending [OF v]
    by (simp add: schema_list_def)
  have version: "sv_Version (?f h) = h_version h" "sv_SchemaJSON (?f h) = h_schema h" for h
    by (simp_all add: scan_history_def)
  have "on_pg (GetSchemaAtVersion_locked (se_pg S) name k) (sys_core s) = (Inr x, sys_core s2)"
    using locked_run [OF assms(1) assms(5)[unfolded ss_GetSchemaAtVersion_def]] by simp
  then have "x = None \<or> x = map_option ?f (find (\<lambda>h. h_version h = k) ?hs)"
    using GetSchemaAtVersion_run [OF _ assms(2)] by (auto simp: on_pg_def split: prod.splits)
  moreover have "find (\<lambda>h. h_version h = k) (rev ?hs) = find (\<lambda>h. h_version h = k) ?hs"
    by (rule find_rev) (simp add: v)
  ultimately have x: "x = None \<or> x = find (\<lambda>y. sv_Version y = k) vs"
    by (simp add: vs find_map comp_def version)
  have cur: "cur = Some \<lparr>sv_Version = t_schema_version t, sv_SchemaJSON = t_schema t, sv_ChangedAt = [],
      sv_ChangeSummary = ''current''\<rparr>"
    using act_answersD [OF GetCurrentSchema_answers assms(1) TrueI assms(6)] assms(2) by simp
  have list: "map sv_Version vs = rev [2..t_schema_version t]"
    by (simp add: vs version comp_def flip: v rev_map)
  then have "sv_Version ` set vs = {2..t_schema_version t}" by (metis set_map set_rev set_upto)
  then have "k = 1 \<longrightarrow> find (\<lambda>y. sv_Version y = k) vs = None" by (force simp: find_None_iff)
  moreover have "vs \<noteq> [] \<longrightarrow> (\<exists>c. cur = Some c \<and> sv_Version c = t_schema_version t \<and> sv_SchemaJSON c = sv_SchemaJSON (hd vs))"
    using last by (cases ?hs rule: rev_cases) (simp_all add: vs cur version)
  ultimately show ?thesis using list x by blast
qed

theorem schema_history_complete_witness:
  "\<exists>vs s1 s2. ss_ListSchemaHistory (se_pg healthy) ''t'' versioned = Some (Inr vs, s1) \<and> map sv_Version vs = [2] \<and>
     ss_GetSchemaAtVersion (se_pg healthy) ''t'' 1 versioned = Some (Inr None, s2)"
proof -
  have "answered (ss_ListSchemaHistory (se_pg healthy) ''t'' versioned)"
    "answered (ss_GetSchemaAtVersion (se_pg healthy) ''t'' 1 versioned)"
    "answered (ss_GetCurrentSchema (se_pg healthy) ''t'' versioned)" by (simp only: answered_code, code_simp)+
  then obtain vs s1 x s2 c s3 where runs: "ss_ListSchemaHistory (se_pg healthy) ''t'' versioned = Some (Inr vs, s1)"
    "ss_GetSchemaAtVersion (se_pg healthy) ''t'' 1 versioned = Some (Inr x, s2)"
    "ss_GetCurrentSchema (se_pg healthy) ''t'' versioned = Some (Inr c, s3)" unfolding answered_def by blast
  obtain t where t: "live_table ''t'' (db_of versioned) = Some t" "t_schema_version t = 2"
    "length (history_of (t_id t) (db_of versioned)) = 1"
    unfolding db_versioned by (rule that) code_simp+
  show ?thesis using schema_history_complete [OF reachable_versioned t(1) _ runs] t(2,3) runs(1,2)
    by (auto simp: upto_rec1)
qed


lemma versioned_list:
  "ListSpecHistory_locked (se_pg healthy) ''t'' versioned_pg =
     (Inr [\<lparr>pv_Version = 2, pv_SpecJSON = cd_json, pv_ChangedAt = [],
             pv_ChangeSummary = ''partition spec evolution via AlterTable''\<rparr>,
           \<lparr>pv_Version = 1, pv_SpecJSON = t_spec_json, pv_ChangedAt = [], pv_ChangeSummary = ''initial spec''\<rparr>],
      versioned_pg\<lparr>pg_tick := 32\<rparr>)"
  by code_simp


end
