(* ===== verification/Catalog_Changes.thy ===== *)
theory Catalog_Changes
  imports Catalog_Reads
begin

text \<open>
  What creating, renaming and dropping a table does, seen from the outside: which names are free,
  what the other tables keep, and what stays behind for ever.
\<close>

subsection \<open>The operations on reachable states\<close>

lemma invalidate_pg: "invalidate name s = Some (n, s') \<Longrightarrow> c_pg (sys_core s') = c_pg (sys_core s)"
  by (cases "lru_InvalidateIf (\<lambda>key. length name + 1 \<le> length key \<and> take (length name + 1) key = name @ '':'')
        (c_cache (sys_core s))")
    (auto simp: invalidate_def unlocked_def InvalidateTableCache_def Let_def)

lemma locked_pg_run:
  assumes "reachable S s" "with_locks ts (on_pg m) s = Some (r, s')" "distinct (map snd ts)"
  shows "m (c_pg (sys_core s)) = (r, c_pg (sys_core s'))"
proof -
  have "fst (on_pg m c) = fst (m (c_pg c)) \<and> c_pg (snd (on_pg m c)) = snd (m (c_pg c))" for c
    by (simp add: on_pg_def split: prod.split)
  then show ?thesis using locked_run [OF assms] by (metis fst_conv snd_conv prod.collapse)
qed

text \<open>A successful result, or an effect whose acknowledgement was lost.\<close>

lemma create_cases:
  assumes "reachable S s" "srv_CreateTable S name schema spec props s = Some (x, s')"
  obtains (unchanged) r where "x = Inr r" "\<not> Success r" "db_of s' = db_of s"
  | (created) r where "x = Inr r" "Success r \<or> acks_lost (se_pg S)"
      "create_effect (se_pg S) (seq_of s) name schema (initialSpecJSON spec) (propertiesToJSON props) (db_of s) (db_of s')"
proof -
  obtain r where x: "x = Inr r"
    and run: "cm_CreateTable (se_pg S) name schema (initialSpecJSON spec) (propertiesToJSON props) s = Some (r, s')"
    using assms(2) by (auto simp: srv_CreateTable_def act_then_def act_ret_def split: option.splits)
  note m = locked_pg_run [OF assms(1) run[unfolded cm_CreateTable_def]]
  show thesis
    using CreateTable_post(1) [OF m reachable_parts(2) [OF assms(1)]] that x by (auto simp: tx_post_def)
qed

lemma rename_cases:
  assumes "reachable S s" "srv_AlterTable S old (Rename (Some new)) s = Some (x, s')" "old \<noteq> new"
  obtains (refused) "\<exists>e. x = Inl e" "db_of s' = db_of s"
  | (unchanged) r where "x = Inr r" "\<not> Success r" "db_of s' = db_of s"
  | (renamed) r where "x = Inr r" "Success r \<or> acks_lost (se_pg S)" "rename_effect old new (db_of s) (db_of s')"
proof (cases "old = [] \<or> new = []")
  case True
  then show ?thesis using assms(2) by (intro refused) (auto simp: srv_AlterTable_def AlterName_def act_ret_def split: if_splits)
next
  case False
  then obtain r s1 s2 s3 n k where run: "cm_RenameTable (se_pg S) old new s = Some (r, s1)"
    and inv: "invalidate old s1 = Some (n, s2)" "invalidate new s2 = Some (k, s')" and x: "x = Inr r"
    using assms(2) by (auto simp: srv_AlterTable_def AlterName_def act_then_def act_ret_def split: option.splits)
  have m: "RenameTable_locked (se_pg S) old new (c_pg (sys_core s)) = (r, c_pg (sys_core s1))"
    by (rule locked_pg_run [OF assms(1) run[unfolded cm_RenameTable_def]]) (simp add: assms(3))
  have "db_of s' = db_of s1" using invalidate_pg [OF inv(1)] invalidate_pg [OF inv(2)] by simp
  then show ?thesis using RenameTable_post [OF m] unchanged [OF x] renamed [OF x] by auto
qed

lemma drop_cases:
  assumes "reachable S s" "srv_DropTable S name purge s = Some (x, s')"
  obtains (refused) "\<exists>e. x = Inl e" "db_of s' = db_of s"
  | (unchanged) r where "x = Inr r" "\<not> Success r" "db_of s' = db_of s"
  | (gone) r where "x = Inr r" "Success r \<or> acks_lost (se_pg S)" "drop_effect purge name (db_of s) (db_of s')"
proof (cases "name = []")
  case True
  then show ?thesis using assms(2) by (intro refused) (auto simp: srv_DropTable_def act_ret_def)
next
  case False
  then obtain r s1 where run: "cm_DropTable (se_pg S) name purge s = Some (r, s1)"
    and rest: "(if Success r then act_then (invalidate name) (\<lambda>_. act_ret (Inr r)) else act_ret (Inr r)) s1 = Some (x, s')"
    using assms(2) by (auto simp: srv_DropTable_def act_then_def split: option.splits)
  have m: "DropTable_locked (se_pg S) name purge (c_pg (sys_core s)) = (r, c_pg (sys_core s1))"
    by (rule locked_pg_run [OF assms(1) run[unfolded cm_DropTable_def]]) simp
  have x: "x = Inr r" "db_of s' = db_of s1"
    using rest invalidate_pg by (auto simp: act_then_def act_ret_def split: if_splits option.splits)
  then show ?thesis
    using DropTable_post [OF m reachable_parts(2) [OF assms(1)]] unchanged [OF x(1)] gone [OF x(1)]
    by (auto simp: tx_post_def)
qed

subsection \<open>What a table answers\<close>

text \<open>
  \<open>same_answers E a db b db'\<close>: the table called \<open>b\<close> in \<open>db'\<close> gives readers the same partitions,
  snapshots and manifests as the one called \<open>a\<close> in \<open>db\<close>, or there is neither.
\<close>

definition same_answers :: "pg_env \<Rightarrow> string \<Rightarrow> database \<Rightarrow> string \<Rightarrow> database \<Rightarrow> bool" where
  "same_answers E a db b db' \<longleftrightarrow>
     (\<forall>snap. partitions_at db' b snap = partitions_at db a snap) \<and> snapshots_at E b db' = snapshots_at E a db \<and>
     (\<forall>snap. manifests_at b snap db' = manifests_at a snap db) \<and> current_of b db' = current_of a db"

lemma same_answersI:
  assumes "rel_option (\<lambda>t t'. t_id t' = t_id t \<and> t_snapshot t' = t_snapshot t) (live_table a db) (live_table b db')"
    and "\<And>t. live_table a db = Some t \<Longrightarrow>
      filter (\<lambda>p. p_table p = t_id t) (d_partitions db') = filter (\<lambda>p. p_table p = t_id t) (d_partitions db) \<and>
      snapshots_of (t_id t) (d_snapshots db') = snapshots_of (t_id t) (d_snapshots db) \<and>
      filter (\<lambda>l. ml_TableID l = t_id t) (d_mlists db') = filter (\<lambda>l. ml_TableID l = t_id t) (d_mlists db)"
    and "\<And>t l. live_table a db = Some t \<Longrightarrow> l \<in> set (d_mlists db) \<Longrightarrow> ml_TableID l = t_id t \<Longrightarrow>
      filter (\<lambda>f. mf_SnapshotID f = ml_SnapshotID l) (d_mfiles db') = filter (\<lambda>f. mf_SnapshotID f = ml_SnapshotID l) (d_mfiles db)"
  shows "same_answers E a db b db'"
proof (cases "live_table a db")
  case None
  then have "live_table b db' = None" using assms(1) by simp
  with None show ?thesis
    by (simp add: same_answers_def partitions_at_def snapshots_at_def manifests_at_def current_of_def)
next
  case (Some t)
  then obtain t' where t': "live_table b db' = Some t'" "t_id t' = t_id t" "t_snapshot t' = t_snapshot t"
    using assms(1) by (auto simp: option_rel_Some1)
  have vis: "filter (visible (t_id t) m) ps = filter (visible (t_id t) m) (filter (\<lambda>p. p_table p = t_id t) ps)" for m ps
    by (auto simp: visible_def intro: filter_cong)
  have rows: "rows_at (t_id t) m db' = rows_at (t_id t) m db" for m
    unfolding rows_at_def visible_rows_def
    using vis [of m "d_partitions db"] vis [of m "d_partitions db'"] assms(2) [OF Some] by simp
  have find: "find (\<lambda>l. ml_SnapshotID l = n \<and> ml_TableID l = t_id t) ls =
      find (\<lambda>l. ml_SnapshotID l = n) (filter (\<lambda>l. ml_TableID l = t_id t) ls)" for n ls
    by (induction ls) auto
  have "manifests_at b snap db' = manifests_at a snap db" for snap
  proof (cases "find (\<lambda>l. ml_SnapshotID l = int64_of_uint64 snap \<and> ml_TableID l = t_id t) (d_mlists db)")
    case None
    with Some t' assms(2) [OF Some] show ?thesis by (simp add: manifests_at_def find)
  next
    case l: (Some l)
    then have "l \<in> set (d_mlists db)" "ml_TableID l = t_id t" "ml_SnapshotID l = int64_of_uint64 snap"
      by (auto simp: find_Some_iff)
    with assms(3) [OF Some] have "filter (\<lambda>f. mf_SnapshotID f = int64_of_uint64 snap) (d_mfiles db') =
        filter (\<lambda>f. mf_SnapshotID f = int64_of_uint64 snap) (d_mfiles db)" by metis
    with Some t' assms(2) [OF Some] show ?thesis by (simp add: manifests_at_def find)
  qed
  then show ?thesis using Some t' rows assms(2) [OF Some]
    by (simp add: same_answers_def partitions_at_rows snapshots_at_def current_of_def)
qed

lemma same_answers_tables:
  assumes "rel_option (\<lambda>t t'. t_id t' = t_id t \<and> t_snapshot t' = t_snapshot t) (live_table a db) (live_table b db')"
    and "d_partitions db' = d_partitions db" "d_snapshots db' = d_snapshots db" "d_mlists db' = d_mlists db"
      "d_mfiles db' = d_mfiles db"
  shows "same_answers E a db b db'"
  by (rule same_answersI) (simp_all add: assms)

text \<open>An update of the rows called \<open>name\<close> does not touch the others.\<close>

lemma find_live_update:
  assumes "\<And>x. x \<in> set xs \<Longrightarrow> is_live name x \<Longrightarrow> \<not> is_live n x \<and> \<not> is_live n (f x)"
  shows "find (is_live n) (map (\<lambda>t. if is_live name t then f t else t) xs) = find (is_live n) xs"
  using assms by (induction xs) auto

lemma live_table_other:
  assumes "n \<noteq> name" "\<And>x. is_live name x \<Longrightarrow> \<not> is_live n (f x)"
  shows "live_table n (snd (update_live name f db)) = live_table n db"
  unfolding live_table_def update_live_def using assms
  by (simp, intro find_live_update) (auto simp: is_live_def)

lemma rel_option_same [simp]: "(\<And>x. P x x) \<Longrightarrow> rel_option P x x"
  by (cases x) simp_all

subsection \<open>Creating a table\<close>

lemma fresh_id:
  assumes "db_inv db sq"
  shows "visible_rows (q_table sq + 1) m db = []"
proof -
  have "p_table p \<le> q_table sq" if "p \<in> set (d_partitions db)" for p
  proof -
    have "ids_upto fst (q_table sq) (heads db)" "p_table p \<in> fst ` set (heads db)"
      using assms that by (simp_all add: db_inv_def store_inv_def partition_ok_def)
    then show ?thesis by (auto simp: ids_upto_def)
  qed
  then have "p_table p \<noteq> q_table sq + 1" if "p \<in> set (d_partitions db)" for p using that by fastforce
  then show ?thesis by (auto simp: visible_rows_inv [OF assms] visible_def filter_empty_conv)
qed

lemma created_table:
  assumes "db_inv db sq" "create_effect E sq name schema spec props db db'"
  obtains t where "live_table name db' = Some t" "t_schema_version t = 1" "t_snapshot t = 0"
    "pe_jsonb E schema = Some (t_schema t)" "\<And>snap. partitions_at db' name snap = Some []"
    "\<And>n. n \<noteq> name \<Longrightarrow> same_answers E n db n db'"
proof -
  let ?i = "q_table sq + 1"
  obtain sc g p now where new: "name \<notin> set (map t_name (d_tables db))" and sc: "pe_jsonb E schema = Some sc"
    and tabs: "d_tables db' = d_tables db @ [new_table ?i name sc g p now]"
    and rest: "d_partitions db' = d_partitions db" "d_snapshots db' = d_snapshots db"
      "d_mlists db' = d_mlists db" "d_mfiles db' = d_mfiles db"
    using assms(2) unfolding create_effect_def by auto
  have app: "find P (xs @ ys) = (case find P xs of None \<Rightarrow> find P ys | Some y \<Rightarrow> Some y)" for P xs and ys :: "table_rec list"
    by (induction xs) auto
  have "find (is_live name) (d_tables db) = None" using new by (force simp: find_None_iff is_live_def)
  then have t: "live_table name db' = Some (new_table ?i name sc g p now)"
    by (simp add: live_table_def tabs app) (simp add: is_live_def new_table_def)
  have "rows_at ?i m db' = []" for m
    using fresh_id [OF assms(1)] rows_at_cong [OF rest(1), of ?i m] by (simp add: rows_at_def)
  then have "partitions_at db' name snap = Some []" for snap
    by (simp add: partitions_at_rows t) (simp add: new_table_def)
  moreover have "same_answers E n db n db'" if "n \<noteq> name" for n
  proof (rule same_answers_tables [OF _ rest])
    have "live_table n db' = live_table n db"
      using that by (simp add: live_table_def tabs app) (simp add: is_live_def new_table_def split: option.split)
    then show "rel_option (\<lambda>t t'. t_id t' = t_id t \<and> t_snapshot t' = t_snapshot t) (live_table n db) (live_table n db')" by simp
  qed
  ultimately show thesis using sc by (intro that [OF t]) (simp_all add: new_table_def)
qed



subsection \<open>Renaming a table\<close>



subsection \<open>Dropping a table\<close>

lemma is_live_name: "is_live n t \<Longrightarrow> t_name t = n"
  by (simp add: is_live_def)

lemma filter_within: "(\<And>x. x \<in> set xs \<Longrightarrow> P x \<Longrightarrow> Q x) \<Longrightarrow> filter P (filter Q xs) = filter P xs"
  by (induction xs) auto

lemma filter_other: "a \<noteq> b \<Longrightarrow> filter (\<lambda>x. f x = a) (filter (\<lambda>x. f x \<noteq> b) xs) = filter (\<lambda>x. f x = a) xs"
  by (rule filter_within) simp

lemma not_in_filtered: "x \<notin> f ` set (filter (\<lambda>p. f p \<noteq> x) xs)"
  by auto

lemma purge_live: "live_table n (purge_db (t_id t) name db) = (if n = name then None else live_table n db)"
proof -
  have "find (is_live n) (filter (\<lambda>t. t_name t \<noteq> name) ts) = (if n = name then None else find (is_live n) ts)" for ts
    by (induction ts) (auto dest: is_live_name)
  then show ?thesis by (simp add: live_table_def purge_db_def)
qed

lemma purge_others:
  assumes inv: "db_inv db sq" and t: "live_table name db = Some t" and "n \<noteq> name"
  shows "same_answers E n db n (purge_db (t_id t) name db)"
proof (rule same_answersI)
  let ?db = "purge_db (t_id t) name db"
  show "rel_option (\<lambda>t t'. t_id t' = t_id t \<and> t_snapshot t' = t_snapshot t) (live_table n db) (live_table n ?db)"
    by (simp add: purge_live assms(3))
  fix u assume u: "live_table n db = Some u"
  have ne: "t_id u \<noteq> t_id t" using live_ids_distinct [OF inv u t assms(3)] .
  then show "filter (\<lambda>p. p_table p = t_id u) (d_partitions ?db) = filter (\<lambda>p. p_table p = t_id u) (d_partitions db) \<and>
      snapshots_of (t_id u) (d_snapshots ?db) = snapshots_of (t_id u) (d_snapshots db) \<and>
      filter (\<lambda>l. ml_TableID l = t_id u) (d_mlists ?db) = filter (\<lambda>l. ml_TableID l = t_id u) (d_mlists db)"
    by (simp add: purge_db_def snapshots_of_def filter_other del: filter_filter)
  fix l assume l: "l \<in> set (d_mlists db)" "ml_TableID l = t_id u"
  have man: "manifests_ok (d_snapshots db) (d_mfiles db) (d_mlists db)" and ids: "ids_upto s_id (q_snapshot sq) (d_snapshots db)"
    using inv by (simp_all add: db_inv_def store_inv_def)
  have "(ml_TableID l, ml_SnapshotID l) \<in> set (map (\<lambda>l. (ml_TableID l, ml_SnapshotID l)) (d_mlists db))"
    using l(1) by force
  then obtain x where x: "x \<in> set (d_snapshots db)" "s_table x = t_id u" "s_id x = ml_SnapshotID l"
    using man l(2) unfolding manifests_ok_def by auto
  have "mf_TableID f \<noteq> t_id t" if f: "f \<in> set (d_mfiles db)" "mf_SnapshotID f = ml_SnapshotID l" for f
  proof -
    have "is_snapshot (mf_TableID f) (mf_SnapshotID f) (d_snapshots db)" using man f(1) by (simp add: manifests_ok_def)
    then obtain y where "y \<in> set (d_snapshots db)" "s_id y = ml_SnapshotID l" "s_table y = mf_TableID f"
      using f(2) by (auto simp: is_snapshot_def)
    then have "mf_TableID f = t_id u" using x ids_upto_inj [OF ids, of x y] by auto
    with ne show ?thesis by simp
  qed
  then show "filter (\<lambda>f. mf_SnapshotID f = ml_SnapshotID l) (d_mfiles ?db) =
      filter (\<lambda>f. mf_SnapshotID f = ml_SnapshotID l) (d_mfiles db)"
    by (simp add: purge_db_def filter_within del: filter_filter)
qed



end
