(* ===== verification/Client_Transactions.thy ===== *)
theory Client_Transactions
  imports Catalog_Changes Sample_Versions
begin

text \<open>
  Client transactions end to end: what \<^verbatim>\<open>BeginTransaction\<close> registers, and what the rows it leaves
  in the database mean for later requests.
\<close>

subsection \<open>The steps of the handlers\<close>

lemma unlocked_pg_run:
  assumes "unlocked (on_pg m) s = Some (r, s')"
  shows "m (c_pg (sys_core s)) = (r, c_pg (sys_core s'))" "c_mvcc (sys_core s') = c_mvcc (sys_core s)"
  using assms by (auto simp: unlocked_def on_pg_def split: prod.splits)

lemma mvcc_do_run:
  assumes "mvcc_do f s = Some (r, s')"
  shows "f (c_mvcc (sys_core s)) = (r, c_mvcc (sys_core s'))" "c_pg (sys_core s') = c_pg (sys_core s)"
  using assms by (auto simp: mvcc_do_def unlocked_def split: prod.splits)

lemma internal_or_InrE:
  assumes "internal_or S m k s = Some (Inr y, s')"
  obtains x s1 where "m s = Some (Inr x, s1)" "k x s1 = Some (Inr y, s')"
  using assms by (auto simp: internal_or_def act_then_def act_ret_def split: option.splits sum.splits)

lemma act_then_SomeE:
  assumes "act_then m k s = Some (y, s')"
  obtains x s1 where "m s = Some (x, s1)" "k x s1 = Some (y, s')"
  using assms by (auto simp: act_then_def split: option.splits)

lemma GetTable_run:
  assumes "reachable S s" "cm_GetTable (se_pg S) name s = Some (Inr x, s1)"
  shows "x = map_option table_row (live_table name (db_of s))" "same_db (c_pg (sys_core s)) (c_pg (sys_core s1))"
    "c_mvcc (sys_core s1) = c_mvcc (sys_core s)"
proof -
  note m = locked_pg_run [OF assms(1) assms(2)[unfolded cm_GetTable_def]]
  show "x = map_option table_row (live_table name (db_of s))" "same_db (c_pg (sys_core s)) (c_pg (sys_core s1))"
    using pg_GetTable_spec [OF m] by auto
  have "c_mvcc (snd (on_pg (pg_GetTable (se_pg S) name) c)) = c_mvcc c" for c
    by (simp add: on_pg_def split: prod.split)
  then show "c_mvcc (sys_core s1) = c_mvcc (sys_core s)"
    using locked_run [OF assms(1) assms(2)[unfolded cm_GetTable_def]] by (metis distinct_singleton list.simps(8,9) snd_conv)
qed

lemma InsertTransaction_run:
  assumes "pg_InsertTransaction E client tid snap isol w = (Inr k, w')" "0 \<le> q_txn (pg_seq w)"
  shows "int64_of_uint64 k = q_txn (pg_seq w) + 1"
    "pg_db w' = (pg_db w)\<lparr>d_txns := d_txns (pg_db w) @
       [\<lparr>x_id = int64_of_uint64 k, x_client = client, x_table = tid, x_read_snapshot = int64_of_uint64 snap,
         x_status = ''active'', x_isolation = isol, x_committed_at = None\<rparr>]\<rparr>"
proof -
  let ?st = "sql_insert_transaction client tid (int64_of_uint64 snap) isol"
  obtain i where i: "pool_exec E [client, isol] ?st w = (Inr i, w')" "k = (if i < 0 then 0 else uint64_of_int64 i)"
    using assms(1) unfolding pg_InsertTransaction_def by (elim on_err_cases) (auto simp: ret_def)
  from i(1) have st: "\<exists>now. ?st now (pg_db w) (pg_seq w) = (Inr (i, pg_db w'), pg_seq w')"
    by (cases rule: pool_exec_cases) auto
  then have q: "i = q_txn (pg_seq w) + 1" "q_txn (pg_seq w) < 2 ^ 63 - 1"
    and db: "pg_db w' = (pg_db w)\<lparr>d_txns := d_txns (pg_db w) @
      [\<lparr>x_id = i, x_client = client, x_table = tid, x_read_snapshot = int64_of_uint64 snap,
        x_status = ''active'', x_isolation = isol, x_committed_at = None\<rparr>]\<rparr>"
    by (auto simp: sql_insert_transaction_def split: option.splits if_splits dest!: nextval_Some)
  have "int64_of_uint64 k = i" using i(2) q assms(2) by (simp add: in_int64_def)
  with q db show "int64_of_uint64 k = q_txn (pg_seq w) + 1"
    "pg_db w' = (pg_db w)\<lparr>d_txns := d_txns (pg_db w) @
       [\<lparr>x_id = int64_of_uint64 k, x_client = client, x_table = tid, x_read_snapshot = int64_of_uint64 snap,
         x_status = ''active'', x_isolation = isol, x_committed_at = None\<rparr>]\<rparr>" by simp_all
qed

lemma UpdateTransactionStatus_run:
  assumes "pg_UpdateTransactionStatus E k status w = (Inr u, w')"
  shows "\<exists>now. pg_db w' = (pg_db w)\<lparr>d_txns := map (\<lambda>x. if x_id x = int64_of_uint64 k then
     (if status = ''committed'' then x\<lparr>x_status := status, x_committed_at := Some now\<rparr> else x\<lparr>x_status := status\<rparr>)
     else x) (d_txns (pg_db w))\<rparr>"
  using assms unfolding pg_UpdateTransactionStatus_def
  by (cases rule: pool_exec_cases) (auto simp: sql_update_txn_status_def update_def, rule exI, erule sym)

subsection \<open>Beginning a transaction\<close>

text \<open>
  C21: A transaction begins on a table that exists and reads the snapshot that is current at that
  moment. It gets an id that no active transaction has, is registered under it with its start time,
  and its snapshot is pinned; the only change of the database is one new row for it, marked active.
\<close>

theorem begin_transaction:
  assumes "reachable S s" "srv_BeginTransaction S now client name isol s = Some (Inr r, s')"
  shows "\<exists>t x. live_table name (db_of s) = Some t \<and> tn_ReadSnapshotId r = current_of name (db_of s) \<and>
    map_of (activeTransactions (c_mvcc (sys_core s))) (tn_TxnId r) = None \<and>
    map_of (activeTransactions (c_mvcc (sys_core s'))) (tn_TxnId r) =
      Some \<lparr>ts_TxnID = tn_TxnId r, ts_ReadSnapshotID = tn_ReadSnapshotId r, ts_StartedAt = now\<rparr> \<and>
    IsSnapshotPinned (tn_ReadSnapshotId r) (c_mvcc (sys_core s')) \<and>
    db_of s' = (db_of s)\<lparr>d_txns := d_txns (db_of s) @ [x]\<rparr> \<and>
    x_id x = int64_of_uint64 (tn_TxnId r) \<and> x_table x = t_id t \<and> x_status x = ''active''"
proof -
  let ?isol = "if isol = 1 then ''read_committed'' else ''snapshot''"
  let ?start = "\<lambda>t. let readSnapshot = (if tr_CurrentSnapshotID t > 0 then uint64_of_int64 (tr_CurrentSnapshotID t) else 0) in
      internal_or S (unlocked (on_pg (pg_InsertTransaction (se_pg S) client (tr_TableID t) readSnapshot ?isol)))
        (\<lambda>txnID. act_then (mvcc_do (\<lambda>m. ((), mvcc_RegisterTransaction now txnID readSnapshot m)))
          (\<lambda>_. act_ret (Inr \<lparr>tn_TxnId = txnID, tn_ReadSnapshotId = readSnapshot\<rparr>)))"
  let ?k = "\<lambda>tab. case tab of None \<Rightarrow> act_ret (grpc NotFound (''table not found: '' @ name)) | Some t \<Rightarrow> ?start t"
  have "client \<noteq> []" "name \<noteq> []"
    using assms(2) by (auto simp: srv_BeginTransaction_def act_ret_def split: if_splits)
  then have "internal_or S (cm_GetTable (se_pg S) name) ?k s = Some (Inr r, s')"
    using assms(2) unfolding srv_BeginTransaction_def Let_def by (simp only: if_False simp_thms)
  then obtain tab s1 where get: "cm_GetTable (se_pg S) name s = Some (Inr tab, s1)" and rest: "?k tab s1 = Some (Inr r, s')"
    by (rule internal_or_InrE)
  note g = GetTable_run [OF assms(1) get]
  obtain t where t: "live_table name (db_of s) = Some t" "tab = Some (table_row t)"
    using g(1) rest by (cases "live_table name (db_of s)") (auto simp: act_ret_def)
  let ?n = "current_of name (db_of s)"
  have n: "(if tr_CurrentSnapshotID (table_row t) > 0 then uint64_of_int64 (tr_CurrentSnapshotID (table_row t)) else 0) = ?n"
    using t(1) by (simp add: table_row_def current_of_def uint64_of_int64_def)
  have "internal_or S
      (unlocked (on_pg (pg_InsertTransaction (se_pg S) client (t_id t) ?n ?isol)))
      (\<lambda>txnID. act_then (mvcc_do (\<lambda>m. ((), mvcc_RegisterTransaction now txnID ?n m)))
        (\<lambda>_. act_ret (Inr \<lparr>tn_TxnId = txnID, tn_ReadSnapshotId = ?n\<rparr>))) s1 = Some (Inr r, s')"
    using rest unfolding t(2) option.case Let_def n by (simp add: table_row_def)
  then obtain k s2 where ins: "unlocked (on_pg (pg_InsertTransaction (se_pg S) client (t_id t) ?n ?isol)) s1 = Some (Inr k, s2)"
    and "act_then (mvcc_do (\<lambda>m. ((), mvcc_RegisterTransaction now k ?n m)))
      (\<lambda>_. act_ret (Inr \<lparr>tn_TxnId = k, tn_ReadSnapshotId = ?n\<rparr>)) s2 = Some (Inr r :: status + TransactionResponse, s')"
    by (rule internal_or_InrE)
  then have reg: "mvcc_do (\<lambda>m. ((), mvcc_RegisterTransaction now k ?n m)) s2 = Some ((), s')"
    and r: "r = \<lparr>tn_TxnId = k, tn_ReadSnapshotId = ?n\<rparr>"
    by (auto elim!: act_then_SomeE simp: act_ret_def)
  have good: "good S (empty_db, empty_seq) (sys_core s)" using reachable_good(2) [OF assms(1)] .
  then have q: "0 \<le> q_txn (pg_seq (c_pg (sys_core s1)))"
    using g(2) by (simp add: good_but_def txns_known_def same_db_def)
  note i = InsertTransaction_run [OF unlocked_pg_run(1) [OF ins] q]
  have m: "c_mvcc (sys_core s2) = c_mvcc (sys_core s)" using unlocked_pg_run(2) [OF ins] g(3) by simp
  have m': "c_mvcc (sys_core s') = mvcc_RegisterTransaction now k ?n (c_mvcc (sys_core s))"
    using mvcc_do_run(1) [OF reg] m by simp
  have "int64_of_uint64 k = q_txn (seq_of s) + 1" using i(1) g(2) by (simp add: same_db_def)
  then have new: "map_of (activeTransactions (c_mvcc (sys_core s))) k = None"
    using good by (force simp: good_but_def txns_known_def map_of_eq_None_iff)
  have inv: "mvcc_inv (c_mvcc (sys_core s))" using good by (simp add: good_but_def)
  then have "pins_ok (pinnedSnapshots (c_mvcc (sys_core s)))" by (simp add: mvcc_inv_def pins.tracks_def)
  then have "IsSnapshotPinned ?n (c_mvcc (sys_core s'))"
    using pins.count_nonneg [of _ ?n] by (simp add: IsSnapshotPinned_def m' mvcc_RegisterTransaction_def pins.count_pin)
  then show ?thesis
    using t(1) new i(2) g(2) mvcc_do_run(2) [OF reg]
    by (auto simp: r m' mvcc_RegisterTransaction_def map_of_update same_db_def)
qed

lemma begin_run:
  "map_option (\<lambda>(r, s). isl r) (srv_BeginTransaction healthy 5 ''client'' ''t'' 0 restarted) = Some False"
  by code_simp

lemma begun:
  obtains r s' where "srv_BeginTransaction healthy 5 ''client'' ''t'' 0 restarted = Some (Inr r, s')" "reachable healthy s'"
proof -
  obtain r s' where run: "srv_BeginTransaction healthy 5 ''client'' ''t'' 0 restarted = Some (Inr r, s')"
    using begin_run unfolding answered_code [symmetric] answered_def by blast
  have "reachable healthy s'"
    by (rule reachable_request [OF reachable_restarted, of "Req_BeginTransaction 5 ''client'' ''t'' 0"])
      (simp add: run_act_def run)
  with run show thesis by (rule that)
qed

theorem begin_transaction_witness:
  "\<exists>r s'. srv_BeginTransaction healthy 5 ''client'' ''t'' 0 restarted = Some (Inr r, s') \<and> tn_ReadSnapshotId r = 1 \<and>
     IsSnapshotPinned 1 (c_mvcc (sys_core s'))"
proof -
  obtain r s' where run: "srv_BeginTransaction healthy 5 ''client'' ''t'' 0 restarted = Some (Inr r, s')" by (rule begun)
  have "current_of ''t'' two_rows_db = 1" by code_simp
  with begin_transaction [OF reachable_restarted run] run show ?thesis by auto
qed

subsection \<open>Ending a transaction\<close>



end
