(* ===== verification/Catalog_Permanence.thy ===== *)
theory Catalog_Permanence
  imports Client_Transactions
begin

text \<open>
  What can never be undone: the row of a dropped table keeps its name, and the row of a transaction
  keeps its table.
\<close>

subsection \<open>Names of dropped tables\<close>

text \<open>
  C23: The name of a dropped table is never free again. Whatever requests and restarts follow a plain
  drop, creating a table under that name, and renaming one to it, is refused and changes nothing.
\<close>

theorem dropped_name_stays_taken:
  assumes "reachable S s" "t \<in> dropped (db_of s)" "leads_to S s s'"
  shows "(\<forall>schema spec props x s1. srv_CreateTable S (t_name t) schema spec props s' = Some (x, s1) \<longrightarrow>
      (\<exists>r. x = Inr r \<and> \<not> Success r) \<and> db_of s1 = db_of s') \<and>
    (\<forall>old x s1. old \<noteq> t_name t \<longrightarrow> srv_AlterTable S old (Rename (Some (t_name t))) s' = Some (x, s1) \<longrightarrow>
      (\<forall>r. x = Inr r \<longrightarrow> \<not> Success r) \<and> db_of s1 = db_of s')"
proof -
  have reach: "reachable S s'" using reachable_leads_to assms(1,3) .
  have taken: "t_name t \<in> t_name ` set (d_tables (db_of s'))"
    using leads_to_records(1) [OF assms(1,3)] assms(2) by (auto simp: dropped_def)
  have "(\<exists>r. x = Inr r \<and> \<not> Success r) \<and> db_of s1 = db_of s'"
    if "srv_CreateTable S (t_name t) schema spec props s' = Some (x, s1)" for schema spec props x s1
    using reach that by (cases rule: create_cases) (use taken in \<open>auto simp: create_effect_def\<close>)
  moreover have "(\<forall>r. x = Inr r \<longrightarrow> \<not> Success r) \<and> db_of s1 = db_of s'"
    if "old \<noteq> t_name t" "srv_AlterTable S old (Rename (Some (t_name t))) s' = Some (x, s1)" for old x s1
    using reach that(2,1) by (cases rule: rename_cases) (use taken that(1) in \<open>auto simp: rename_effect_def\<close>)
  ultimately show ?thesis by blast
qed

lemma dropped_run: "map_option (\<lambda>(r, s). map (\<lambda>t. (t_name t, t_deleted t)) (d_tables (db_of s)))
    (srv_DropTable healthy ''t'' False restarted) = Some [(''t'', True)]"
  by code_simp

theorem dropped_name_stays_taken_witness:
  "\<exists>s t x s1. serve healthy (Req_DropTable ''t'' False) restarted = Some s \<and> t \<in> dropped (db_of s) \<and> t_name t = ''t'' \<and>
     srv_CreateTable healthy ''t'' ''{}'' [] [] s = Some (Inr x, s1) \<and> \<not> Success x \<and> db_of s1 = db_of s"
proof -
  obtain r s where drop: "srv_DropTable healthy ''t'' False restarted = Some (r, s)"
    and "map (\<lambda>t. (t_name t, t_deleted t)) (d_tables (db_of s)) = [(''t'', True)]" using dropped_run by auto
  then obtain t where t: "t \<in> dropped (db_of s)" "t_name t = ''t''" by (auto simp: dropped_def)
  have srv: "serve healthy (Req_DropTable ''t'' False) restarted = Some s" by (simp add: run_act_def drop)
  have reach: "reachable healthy s" by (rule reachable_request [OF reachable_restarted srv])
  obtain x s1 where run: "srv_CreateTable healthy ''t'' ''{}'' [] [] s = Some (x, s1)"
    using serve_total [OF _ reachable_good [OF reach], of "Req_CreateTable ''t'' ''{}'' [] []"]
    by (force simp: run_act_def split: option.splits)
  have "(\<exists>r. x = Inr r \<and> \<not> Success r) \<and> db_of s1 = db_of s"
    using dropped_name_stays_taken [OF reach t(1) leads_to.here, THEN conjunct1, rule_format] run unfolding t(2) .
  with srv t run show ?thesis by blast
qed

subsection \<open>Tables with transactions\<close>

text \<open>
  C24: A table on which a transaction has ever begun can never be purged, not even after the
  transaction has ended, whatever requests and restarts follow: the purge is refused and the database
  keeps every row.
\<close>

theorem purge_blocked_by_transactions:
  assumes "reachable S s" "(k, i) \<in> txn_tables (db_of s)" "leads_to S s s'"
    and "live_table name (db_of s') = Some t" "t_id t = i" "srv_DropTable S name True s' = Some (x, s1)"
  shows "(\<forall>r. x = Inr r \<longrightarrow> \<not> Success r) \<and> db_of s1 = db_of s'"
proof -
  have "(k, i) \<in> txn_tables (db_of s')" using leads_to_records(2) [OF assms(1,3)] assms(2) by blast
  then obtain y where y: "y \<in> set (d_txns (db_of s'))" "x_table y = t_id t" using assms(5) by (auto simp: txn_tables_def)
  have "reachable S s'" using reachable_leads_to assms(1,3) .
  from this assms(6) show ?thesis
    by (cases rule: drop_cases) (use y assms(4) in \<open>auto simp: drop_effect_def purge_effect_def\<close>)
qed


lemma begin_drop:
  "\<exists>s0 s1 r s2 t. serve healthy (Req_BeginTransaction 5 ''client'' ''t'' 0) restarted = Some s0 \<and>
     serve healthy (Req_AbortTransaction 1) s0 = Some s1 \<and> srv_DropTable healthy ''t'' True s1 = Some (r, s2) \<and>
     (1, 1) \<in> txn_tables (db_of s0) \<and> live_table ''t'' (db_of s1) = Some t \<and> t_id t = 1"
proof -
  have "case serve healthy (Req_BeginTransaction 5 ''client'' ''t'' 0) restarted of None \<Rightarrow> False
    | Some s0 \<Rightarrow> map (\<lambda>x. (x_id x, x_table x)) (d_txns (db_of s0)) = [(1, 1)] \<and>
      (case serve healthy (Req_AbortTransaction 1) s0 of None \<Rightarrow> False
      | Some s1 \<Rightarrow> map_option t_id (live_table ''t'' (db_of s1)) = Some 1 \<and>
          (case srv_DropTable healthy ''t'' True s1 of None \<Rightarrow> False | Some _ \<Rightarrow> True))" by code_simp
  then show ?thesis by (auto simp: txn_tables_def split: option.splits)
qed

theorem purge_blocked_by_transactions_witness:
  "\<exists>s0 s1 r s2. serve healthy (Req_BeginTransaction 5 ''client'' ''t'' 0) restarted = Some s0 \<and>
     serve healthy (Req_AbortTransaction 1) s0 = Some s1 \<and> srv_DropTable healthy ''t'' True s1 = Some (r, s2) \<and>
     (\<forall>x. r = Inr x \<longrightarrow> \<not> Success x) \<and> db_of s2 = db_of s1"
proof -
  obtain s0 s1 r s2 t where run: "serve healthy (Req_BeginTransaction 5 ''client'' ''t'' 0) restarted = Some s0"
    "serve healthy (Req_AbortTransaction 1) s0 = Some s1" "srv_DropTable healthy ''t'' True s1 = Some (r, s2)"
    and t: "(1, 1) \<in> txn_tables (db_of s0)" "live_table ''t'' (db_of s1) = Some t" "t_id t = 1"
    using begin_drop by auto
  have "reachable healthy s0" by (rule reachable_request [OF reachable_restarted run(1)])
  from purge_blocked_by_transactions [OF this t(1) leads_to.request [OF leads_to.here run(2)] t(2,3) run(3)] run
  show ?thesis by blast
qed

end
