(* ===== verification/Go_Float.thy ===== *)
theory Go_Float
  imports Complex_Main Ice_Prelude
begin

text \<open>
  The part of \<^verbatim>\<open>float64\<close> arithmetic that IceCore uses: conversion of non-negative integers,
  multiplication, division and truncation. A number is a pair of a significand and an exponent; every
  operation gives the exact result rounded to 53 bits, to the nearest and on a tie to the even
  significand. Exponents are unbounded here: the numbers of the program lie between \<open>2 ^ - 65\<close> and
  \<open>2 ^ 65\<close>, far from overflow and from subnormal numbers.
\<close>

type_synonym float64 = "int \<times> int"

fun f64_value :: "float64 \<Rightarrow> real" where
  "f64_value (m, e) = of_int m * 2 powr of_int e"

subsection \<open>Rounding\<close>

definition round_even :: "int \<Rightarrow> int \<Rightarrow> int" where
  "round_even a b =
     (let q = a div b; r = a mod b in if 2 * r < b \<or> 2 * r = b \<and> even q then q else q + 1)"

fun bit_len :: "int \<Rightarrow> int" where
  "bit_len n = (if n \<le> 0 then 0 else 1 + bit_len (n div 2))"

declare bit_len.simps [simp del]

text \<open>The quotient of two integers; the exponent is chosen so that the significand has 53 bits.\<close>

definition scaled :: "int \<Rightarrow> int \<Rightarrow> int \<Rightarrow> int \<times> int" where
  "scaled a b e = (a * 2 ^ nat (- e), b * 2 ^ nat e)"

definition f64_ratio :: "int \<Rightarrow> int \<Rightarrow> float64" where
  "f64_ratio a b =
     (if a \<le> 0 then (0, 0)
      else
        (let e0 = bit_len a - bit_len b - 53;
             e = (case scaled a b e0 of (x, y) \<Rightarrow> if 2 ^ 53 * y \<le> x then e0 + 1 else e0)
         in (case scaled a b e of (x, y) \<Rightarrow> (round_even x y, e))))"

subsection \<open>Operations\<close>

definition f64_of_int :: "int \<Rightarrow> float64" where
  "f64_of_int n = f64_ratio n 1"

fun f64_mul :: "float64 \<Rightarrow> float64 \<Rightarrow> float64" where
  "f64_mul (m, e) (n, f) = f64_ratio (m * n * 2 ^ nat (e + f)) (2 ^ nat (- (e + f)))"

fun f64_div :: "float64 \<Rightarrow> float64 \<Rightarrow> float64" where
  "f64_div (m, e) (n, f) = f64_ratio (m * 2 ^ nat (e - f)) (n * 2 ^ nat (f - e))"

fun f64_trunc :: "float64 \<Rightarrow> int" where
  "f64_trunc (m, e) = m * 2 ^ nat e div 2 ^ nat (- e)"

subsection \<open>What rounding gives\<close>

definition near :: "real \<Rightarrow> int \<Rightarrow> bool" where
  "near x m \<longleftrightarrow> of_int m - 1 / 2 \<le> x \<and> x \<le> of_int m + 1 / 2 \<and> (odd m \<longrightarrow> of_int m - 1 / 2 < x \<and> x < of_int m + 1 / 2)"

lemma near_round_even:
  assumes "0 < b"
  shows "near (of_int a / of_int b) (round_even a b)"
proof -
  let ?q = "a div b" and ?r = "a mod b"
  define f :: real where "f = of_int ?r / of_int b"
  have "of_int a = of_int b * of_int ?q + (of_int ?r :: real)" by (simp flip: of_int_mult of_int_add)
  then have a: "of_int a / of_int b = of_int ?q + f" using assms by (simp add: f_def field_simps)
  have "0 \<le> ?r" "?r < b" using assms by simp_all
  then have f: "0 \<le> f" "f < 1" using assms by (simp_all add: f_def)
  have "f < 1 / 2 \<longleftrightarrow> of_int (2 * ?r) < (of_int b :: real)" "f = 1 / 2 \<longleftrightarrow> of_int (2 * ?r) = (of_int b :: real)"
    using assms by (auto simp: f_def field_simps)
  then have half: "f < 1 / 2 \<longleftrightarrow> 2 * ?r < b" "f = 1 / 2 \<longleftrightarrow> 2 * ?r = b" by (simp_all only: of_int_less_iff of_int_eq_iff)
  show ?thesis
  proof (cases "f < 1 / 2 \<or> f = 1 / 2 \<and> even ?q")
    case True
    then have "round_even a b = ?q" using half by (auto simp: round_even_def)
    with True f show ?thesis by (auto simp: near_def a)
  next
    case False
    then have "round_even a b = ?q + 1" using half by (auto simp: round_even_def Let_def)
    with False f show ?thesis by (auto simp: near_def a)
  qed
qed

lemma near_mono:
  assumes "near x m" "near y n" "x \<le> y"
  shows "m \<le> n"
proof (rule ccontr)
  assume "\<not> m \<le> n"
  then have "of_int n + 1 \<le> (of_int m :: real)" by linarith
  moreover have "even m \<and> even n \<or> of_int m - 1 / 2 < of_int n + (1 / 2 :: real)"
    using assms unfolding near_def by force
  ultimately have "even m" "even n" "of_int m = of_int n + (1 :: real)"
    using assms unfolding near_def by force+
  then have "m = n + 1" by linarith
  with \<open>even m\<close> \<open>even n\<close> show False by simp
qed

lemma near_int: "near (of_int k) m \<Longrightarrow> m = k"
  unfolding near_def by linarith

lemma near_bounds: "near x m \<Longrightarrow> of_int k \<le> x \<Longrightarrow> k \<le> m" "near x m \<Longrightarrow> x \<le> of_int k \<Longrightarrow> m \<le> k"
  unfolding near_def by linarith+

definition rounded :: "real \<Rightarrow> float64 \<Rightarrow> bool" where
  "rounded x f \<longleftrightarrow>
     (case f of (m, e) \<Rightarrow> let y = x / 2 powr of_int e in 2 ^ 52 \<le> y \<and> y < 2 ^ 53 \<and> near y m)"

lemma bit_len_bounds:
  "0 < n \<Longrightarrow> 0 < bit_len n \<and> 2 ^ nat (bit_len n - 1) \<le> n \<and> n < 2 ^ nat (bit_len n)"
proof (induction n rule: bit_len.induct)
  case (1 n)
  show ?case
  proof (cases "n = 1")
    case True
    then show ?thesis by (simp add: bit_len.simps)
  next
    case False
    then have n: "1 < n" using 1(2) by simp
    then have l: "bit_len n = 1 + bit_len (n div 2)" by (simp add: bit_len.simps [of n])
    have IH: "0 < bit_len (n div 2)" "2 ^ nat (bit_len (n div 2) - 1) \<le> n div 2" "n div 2 < 2 ^ nat (bit_len (n div 2))"
      using 1 n by simp_all
    have "nat (bit_len n - 1) = Suc (nat (bit_len (n div 2) - 1))" "nat (bit_len n) = Suc (nat (bit_len (n div 2)))"
      using IH(1) l by simp_all
    moreover have "2 * 2 ^ nat (bit_len (n div 2) - 1) \<le> n" "n < 2 * 2 ^ nat (bit_len (n div 2))"
      using IH(2,3) by linarith+
    ultimately show ?thesis using IH(1) l by simp
  qed
qed

lemma bit_len_powr:
  assumes "0 < n"
  shows "2 powr (of_int (bit_len n) - 1) \<le> (of_int n :: real)" "of_int n < (2 powr of_int (bit_len n) :: real)"
proof -
  have "(2 powr of_int (bit_len n - 1) :: real) = of_int (2 ^ nat (bit_len n - 1))"
    "(2 powr of_int (bit_len n) :: real) = of_int (2 ^ nat (bit_len n))"
    using bit_len_bounds [OF assms] by (simp_all add: powr_real_of_int del: of_int_diff)
  then show "2 powr (of_int (bit_len n) - 1) \<le> (of_int n :: real)" "of_int n < (2 powr of_int (bit_len n) :: real)"
    using bit_len_bounds [OF assms] by (simp_all only: of_int_le_iff of_int_less_iff of_int_diff of_int_1)
qed

lemma scaled_ratio:
  assumes "scaled a b e = (x, y)" "0 < b"
  shows "0 < y" "(of_int x / of_int y :: real) = of_int a / of_int b / 2 powr of_int e"
proof -
  have e: "2 powr of_int e = (2 ^ nat e / 2 ^ nat (- e) :: real)" by (simp add: powr_real_of_int inverse_eq_divide)
  have "x = a * 2 ^ nat (- e)" "y = b * 2 ^ nat e" using assms(1) by (simp_all add: scaled_def)
  then show "0 < y" "(of_int x / of_int y :: real) = of_int a / of_int b / 2 powr of_int e"
    using assms(2) by (simp_all add: e field_simps)
qed

theorem f64_ratio_rounded:
  assumes "0 < a" "0 < b"
  shows "rounded (of_int a / of_int b) (f64_ratio a b)"
proof -
  let ?x = "of_int a / of_int b :: real" and ?e = "bit_len a - bit_len b - 53"
  note la = bit_len_powr [OF assms(1)] and lb = bit_len_powr [OF assms(2)]
  have "2 powr (of_int (bit_len a) - 1) / 2 powr of_int (bit_len b) < ?x"
    by (rule frac_less2 [OF _ la(1) _ lb(2)]) (simp_all add: assms)
  moreover have "?x < 2 powr of_int (bit_len a) / 2 powr (of_int (bit_len b) - 1)"
    by (rule frac_less [OF _ la(2) _ lb(1)]) (use assms in simp_all)
  moreover define A B :: real where "A = 2 powr of_int (bit_len a)" and "B = 2 powr of_int (bit_len b)"
  ultimately have x0: "A / 2 / B < ?x" "?x < A / (B / 2)" by (simp_all add: powr_diff)
  have AB: "0 < A" "0 < B" by (simp_all add: A_def B_def)
  have "2 powr of_int ?e = A / B / 2 ^ 53" by (simp add: A_def B_def powr_diff flip: powr_realpow)
  moreover have "1 / 2 < x * B / A \<and> x * B / A < 2" if "A / 2 / B < x" "x < A / (B / 2)" for x
    using that AB by (simp add: field_simps)
  from this [OF x0] have "1 / 2 < ?x * B / A" "?x * B / A < 2" by simp_all
  moreover have "?x / (A / B / 2 ^ 53) = ?x * B / A * 2 ^ 53" by simp
  moreover define z where "z = ?x * B / A"
  ultimately have "?x / 2 powr of_int ?e = z * 2 ^ 53" "1 / 2 < z" "z < 2" by simp_all
  then have x: "2 ^ 52 < ?x / 2 powr of_int ?e" "?x / 2 powr of_int ?e < 2 ^ 54" by simp_all
  obtain p q where pq: "scaled a b ?e = (p, q)" by force
  have "2 ^ 53 * q \<le> p \<longleftrightarrow> 2 ^ 53 \<le> (of_int p / of_int q :: real)"
    using scaled_ratio(1) [OF pq assms(2)] by (simp add: pos_le_divide_eq flip: of_int_le_iff [where 'a = real])
  then have up: "2 ^ 53 * q \<le> p \<longleftrightarrow> 2 ^ 53 \<le> ?x / 2 powr of_int ?e" using scaled_ratio(2) [OF pq assms(2)] by simp
  have half: "?x / 2 powr of_int (?e + 1) = ?x / 2 powr of_int ?e / 2" 
    by (simp only: of_int_add of_int_1 powr_add powr_one) simp
  define e where "e = (if 2 ^ 53 * q \<le> p then ?e + 1 else ?e)"
  define w where "w = ?x / 2 powr of_int ?e"
  have "?x / 2 powr of_int e = (if 2 ^ 53 * q \<le> p then w / 2 else w)"
    unfolding e_def w_def by (cases "2 ^ 53 * q \<le> p") (simp_all only: half if_True if_False)
  then have e: "2 ^ 52 \<le> ?x / 2 powr of_int e" "?x / 2 powr of_int e < 2 ^ 53"
    using x up unfolding w_def [symmetric] by simp_all
  obtain u v where uv: "scaled a b e = (u, v)" by force
  have "f64_ratio a b = (round_even u v, e)"
    using assms(1) uv by (simp add: f64_ratio_def pq Let_def e_def split: if_splits)
  moreover have "near (?x / 2 powr of_int e) (round_even u v)"
    using near_round_even [OF scaled_ratio(1) [OF uv assms(2)], of u] scaled_ratio(2) [OF uv assms(2)] by simp
  ultimately show ?thesis using e by (simp add: rounded_def Let_def)
qed

text \<open>The value of a rounded number: monotone, and exact on integers of 53 bits.\<close>

lemma powr_double: "e < d \<Longrightarrow> 2 * 2 powr of_int e \<le> (2 powr of_int d :: real)"
  using powr_mono [of "of_int (e + 1)" "of_int d" "2 :: real"] by (simp add: powr_add flip: of_int_le_iff [where 'a = real])

lemma rounded_mono:
  assumes "rounded x f" "rounded y g" "x \<le> y"
  shows "f64_value f \<le> f64_value g"
proof -
  obtain m e n d where fg: "f = (m, e)" "g = (n, d)" by force
  let ?E = "2 powr of_int e :: real" and ?D = "2 powr of_int d :: real"
  have x: "2 ^ 52 \<le> x / ?E" "x / ?E < 2 ^ 53" "near (x / ?E) m" and y: "2 ^ 52 \<le> y / ?D" "y / ?D < 2 ^ 53" "near (y / ?D) n"
    using assms(1,2) by (simp_all add: rounded_def fg Let_def)
  have bounds: "m \<le> 2 ^ 53" "2 ^ 52 \<le> n"
    using near_bounds(2) [OF x(3), of "2 ^ 53"] near_bounds(1) [OF y(3), of "2 ^ 52"] x(2) y(1) by simp_all
  consider "e = d" | "e < d" | "d < e" by linarith
  then show ?thesis
  proof cases
    case 1
    then have "x / ?E \<le> y / ?D" using assms(3) by (simp add: divide_right_mono)
    then have "m \<le> n" by (rule near_mono [OF x(3) y(3)])
    with 1 show ?thesis by (simp add: fg)
  next
    case 2
    have "of_int m * ?E \<le> 2 ^ 53 * ?E" using bounds(1) by simp
    also have "\<dots> \<le> 2 ^ 52 * ?D" using powr_double [OF 2] by simp
    also have "\<dots> \<le> of_int n * ?D" using bounds(2) by simp
    finally show ?thesis by (simp add: fg)
  next
    case 3
    have "y < 2 ^ 53 * ?D" using y(2) by (simp add: pos_divide_less_eq)
    also have "\<dots> \<le> 2 ^ 52 * ?E" using powr_double [OF 3] by simp
    also have "\<dots> \<le> x" using x(1) by (simp add: pos_le_divide_eq)
    finally show ?thesis using assms(3) by simp
  qed
qed

lemma rounded_exact:
  assumes "rounded (of_int k) f" "k \<le> 2 ^ 53"
  shows "f64_value f = of_int k"
proof -
  obtain m e where f: "f = (m, e)" by force
  let ?E = "2 powr of_int e :: real"
  have x: "2 ^ 52 \<le> of_int k / ?E" "near (of_int k / ?E) m" using assms(1) by (simp_all add: rounded_def f Let_def)
  have "e \<le> 1"
  proof (rule ccontr)
    assume "\<not> e \<le> 1"
    then have "2 * 2 powr of_int 1 \<le> ?E" by (intro powr_double) simp
    then have "2 ^ 52 * 4 \<le> 2 ^ 52 * ?E" by simp
    also have "\<dots> \<le> of_int k" using x(1) by (simp add: pos_le_divide_eq)
    also have "\<dots> \<le> 2 ^ 53" using assms(2) by simp
    finally show False by simp
  qed
  show ?thesis
  proof (cases "e = 1")
    case True
    then have "k = 2 ^ 53" using x(1) assms(2) by simp
    then have "of_int k / ?E = of_int (2 ^ 52)" using True by simp
    then have "m = 2 ^ 52" using x(2) near_int by metis
    then show ?thesis using True \<open>k = 2 ^ 53\<close> by (simp add: f)
  next
    case False
    then have "e \<le> 0" using \<open>e \<le> 1\<close> by simp
    then have E: "?E = 1 / of_int (2 ^ nat (- e))" by (auto simp: powr_real_of_int inverse_eq_divide)
    then have "of_int k / ?E = of_int (k * 2 ^ nat (- e))" by simp
    then have "m = k * 2 ^ nat (- e)" using x(2) near_int by metis
    then show ?thesis using E by (simp add: f)
  qed
qed

text \<open>The operations: each is the exact result, rounded.\<close>

definition is_round :: "real \<Rightarrow> float64 \<Rightarrow> bool" where
  "is_round x f \<longleftrightarrow> (if x \<le> 0 then f = (0, 0) else rounded x f)"

lemma is_round_mono:
  assumes "is_round x f" "is_round y g" "x \<le> y"
  shows "f64_value f \<le> f64_value g"
proof (cases "x \<le> 0")
  case True
  then have "f64_value f = 0" using assms(1) by (simp add: is_round_def)
  moreover have "0 \<le> f64_value g"
  proof (cases "y \<le> 0")
    case False
    then obtain m e where "g = (m, e)" "near (y / 2 powr of_int e) m" "2 ^ 52 \<le> y / 2 powr of_int e"
      using assms(2) by (cases g) (auto simp: is_round_def rounded_def Let_def)
    then show ?thesis using near_bounds(1) [of _ m "2 ^ 52"] by fastforce
  qed (use assms(2) in \<open>simp add: is_round_def\<close>)
  ultimately show ?thesis by simp
next
  case False
  then show ?thesis using assms by (auto simp: is_round_def intro: rounded_mono)
qed

lemma is_round_exact: "is_round (of_int k) f \<Longrightarrow> 0 \<le> k \<Longrightarrow> k \<le> 2 ^ 53 \<Longrightarrow> f64_value f = of_int k"
  by (auto simp: is_round_def rounded_exact split: if_splits)

lemma f64_ratio_is_round: "0 < b \<Longrightarrow> is_round (of_int a / of_int b) (f64_ratio a b)"
  using f64_ratio_rounded [of a b] by (cases "a \<le> 0") (simp_all add: is_round_def divide_le_0_iff f64_ratio_def [of a])

lemma powr_parts: "2 powr of_int e = (2 ^ nat e / 2 ^ nat (- e) :: real)"
  by (simp add: powr_real_of_int inverse_eq_divide)

lemma f64_of_int_round: "is_round (of_int n) (f64_of_int n)"
  using f64_ratio_is_round [of 1 n] by (simp add: f64_of_int_def)

lemma f64_mul_round: "is_round (f64_value f * f64_value g) (f64_mul f g)"
proof -
  obtain m e n d where fg: "f = (m, e)" "g = (n, d)" by force
  have "f64_value f * f64_value g = of_int m * of_int n * 2 powr of_int (e + d)" by (simp add: fg powr_add)
  then have "f64_value f * f64_value g = of_int (m * n * 2 ^ nat (e + d)) / of_int (2 ^ nat (- (e + d)))"
    unfolding powr_parts [of "e + d"] by simp
  then show ?thesis using f64_ratio_is_round [of "2 ^ nat (- (e + d))" "m * n * 2 ^ nat (e + d)"] by (simp add: fg)
qed

lemma f64_div_round:
  assumes "0 < fst g"
  shows "is_round (f64_value f / f64_value g) (f64_div f g)"
proof -
  obtain m e n d where fg: "f = (m, e)" "g = (n, d)" by force
  have "2 powr of_int e / 2 powr of_int d = (2 ^ nat (e - d) / 2 ^ nat (d - e) :: real)"
    using powr_parts [of "e - d"] by (simp add: powr_diff)
  then have "f64_value f / f64_value g = of_int (m * 2 ^ nat (e - d)) / of_int (n * 2 ^ nat (d - e))"
    by (simp add: fg) (metis (no_types) times_divide_times_eq)
  then show ?thesis using f64_ratio_is_round [of "n * 2 ^ nat (d - e)" "m * 2 ^ nat (e - d)"] assms by (simp add: fg)
qed

lemma f64_trunc_floor: "f64_trunc f = \<lfloor>f64_value f\<rfloor>"
proof -
  obtain m e where f: "f = (m, e)" by force
  have "f64_value f = of_int (m * 2 ^ nat e) / of_int (2 ^ nat (- e))" by (simp add: f powr_parts)
  then show ?thesis by (simp only: f f64_trunc.simps floor_divide_of_int_eq)
qed

lemma f64_value_pos:
  assumes "0 < f64_value f"
  shows "0 < fst f"
proof (rule ccontr)
  obtain m e where f: "f = (m, e)" by force
  assume "\<not> 0 < fst f"
  then have "of_int m * 2 powr of_int e \<le> (0 :: real)" by (intro mult_nonpos_nonneg) (simp_all add: f)
  with assms show False by (simp add: f)
qed

lemma is_round_unit:
  assumes "is_round x f" "0 \<le> x" "x \<le> 1"
  shows "0 \<le> f64_value f" "f64_value f \<le> 1"
proof -
  have "is_round 0 (0, 0)" by (simp add: is_round_def)
  from is_round_mono [OF this assms(1,2)] show "0 \<le> f64_value f" by simp
  have "f64_value (f64_of_int 1) = 1" using is_round_exact [OF f64_of_int_round, of 1] by simp
  with is_round_mono [OF assms(1) f64_of_int_round [of 1]] assms(3) show "f64_value f \<le> 1" by simp
qed

end
