(* ===== verification/Cache_Metrics.thy ===== *)
theory Cache_Metrics
  imports Go_Float Partition_Registry
begin

text \<open>
  The statistics of the cache: \<^verbatim>\<open>HitRate\<close> of \<^verbatim>\<open>internal/cache/lru.go\<close> and the accessor
  \<^verbatim>\<open>CacheHitRate\<close> of the partition registry, over the \<^verbatim>\<open>float64\<close> operations of Go.
\<close>

definition lru_HitRate :: "('k, 'v) lru \<Rightarrow> float64" where
  "lru_HitRate l =
     (let h = lru_hits l; m = lru_misses l; total = h + m in
      if total = 0 then (0, 0) else f64_div (f64_of_int (uint h)) (f64_of_int (uint total)))"

definition CacheHitRate :: "core \<Rightarrow> float64" where
  "CacheHitRate c = lru_HitRate (c_cache c)"

subsection \<open>What the counters count\<close>

fun is_hit :: "'v lru_result \<Rightarrow> bool" where
  "is_hit (Res_Value (Some v)) \<longleftrightarrow> True"
| "is_hit r \<longleftrightarrow> False"

fun is_miss :: "'v lru_result \<Rightarrow> bool" where
  "is_miss (Res_Value None) \<longleftrightarrow> True"
| "is_miss r \<longleftrightarrow> False"

lemma lru_counters_Get:
  assumes "lru_inv l"
  shows "lru_hits (snd (lru_Get k l)) = lru_hits l + (if fst (lru_Get k l) = None then 0 else 1)"
    "lru_misses (snd (lru_Get k l)) = lru_misses l + (if fst (lru_Get k l) = None then 1 else 0)"
proof -
  have "map_of (lru_list l) e \<noteq> None" if k: "map_of (lru_items l) k = Some e" for e
    by (rule lru_hitE [OF assms k]) (auto simp: map_of_eq_None_iff intro: rev_image_eqI)
  then show "lru_hits (snd (lru_Get k l)) = lru_hits l + (if fst (lru_Get k l) = None then 0 else 1)"
    "lru_misses (snd (lru_Get k l)) = lru_misses l + (if fst (lru_Get k l) = None then 1 else 0)"
    by (auto simp: lru_Get_def split: option.split)
qed

lemma lru_counters_loop:
  "lru_hits (snd (InvalidateIf_loop P ps n l)) = lru_hits l"
  "lru_misses (snd (InvalidateIf_loop P ps n l)) = lru_misses l"
  by (induction P ps n l rule: InvalidateIf_loop.induct) simp_all

lemma lru_counters_step:
  assumes "lru_inv l"
  shows "lru_hits (snd (lru_step op l)) = lru_hits l + (if is_hit (fst (lru_step op l)) then 1 else 0)"
    "lru_misses (snd (lru_step op l)) = lru_misses l + (if is_miss (fst (lru_step op l)) then 1 else 0)"
proof -
  show "lru_hits (snd (lru_step op l)) = lru_hits l + (if is_hit (fst (lru_step op l)) then 1 else 0)"
    using lru_counters_Get(1) [OF assms]
    by (cases op) (auto simp: lru_Put_def lru_push_def lru_evict_def lru_Invalidate_def lru_InvalidateIf_def
        lru_counters_loop lru_Clear_def split: option.split)
  show "lru_misses (snd (lru_step op l)) = lru_misses l + (if is_miss (fst (lru_step op l)) then 1 else 0)"
    using lru_counters_Get(2) [OF assms]
    by (cases op) (auto simp: lru_Put_def lru_push_def lru_evict_def lru_Invalidate_def lru_InvalidateIf_def
        lru_counters_loop lru_Clear_def split: option.split)
qed

lemma lru_counters_run:
  assumes "lru_inv l" "run_ops lru_step ops l = (rs, l')"
  shows "lru_hits l' = lru_hits l + of_nat (length (filter is_hit rs)) \<and>
    lru_misses l' = lru_misses l + of_nat (length (filter is_miss rs))"
  using assms
proof (induction ops arbitrary: l rs)
  case (Cons op ops)
  obtain qs where rs: "rs = fst (lru_step op l) # qs" and run: "run_ops lru_step ops (snd (lru_step op l)) = (qs, l')"
    using Cons.prems(2) by (auto split: prod.splits)
  from Cons.IH [OF lru_step_refines(1) [OF Cons.prems(1)] run] lru_counters_step [OF Cons.prems(1)]
  show ?case by (simp add: rs)
qed simp

text \<open>
  C40: The hit rate of a cache is the rate of hits. After any run of operations the two counters are
  the numbers of lookups that gave a value and that gave none, modulo \<open>2 ^ 64\<close>; and for up to \<open>2 ^ 53\<close>
  lookups the hit rate is the exact quotient rounded to \<^verbatim>\<open>float64\<close>, between 0 and 1.
\<close>

theorem hit_rate_exact:
  assumes "run_ops lru_step ops (NewLRU cap) = (rs, l)"
  shows "let h = length (filter is_hit rs); m = length (filter is_miss rs) in
    lru_Hits l = of_nat h \<and> lru_Misses l = of_nat m \<and>
    (h + m \<le> 2 ^ 53 \<longrightarrow> is_round (real h / real (h + m)) (lru_HitRate l) \<and>
       0 \<le> f64_value (lru_HitRate l) \<and> f64_value (lru_HitRate l) \<le> 1)"
proof -
  define h m where hm: "h = length (filter is_hit rs)" "m = length (filter is_miss rs)"
  have cnt: "lru_hits l = of_nat h" "lru_misses l = of_nat m"
    using lru_counters_run [OF NewLRU_inv assms] by (simp_all add: hm NewLRU_def)
  have "is_round (real h / real (h + m)) (lru_HitRate l)" if le: "h + m \<le> 2 ^ 53"
  proof -
    have u: "uint (of_nat h :: uint64) = int h" "uint (of_nat h + of_nat m :: uint64) = int (h + m)"
      using le by (simp_all add: unsigned_of_nat take_bit_nat_eq_self flip: of_nat_add)
    have ex: "f64_value (f64_of_int (int h)) = real h" "f64_value (f64_of_int (int (h + m))) = real (h + m)"
      using is_round_exact [OF f64_of_int_round, of "int h"] is_round_exact [OF f64_of_int_round, of "int (h + m)"] le
      by simp_all
    show ?thesis
    proof (cases "h + m = 0")
      case True
      then show ?thesis by (simp add: lru_HitRate_def cnt is_round_def)
    next
      case False
      then have "(of_nat h + of_nat m :: uint64) \<noteq> 0" using u(2) by (metis of_nat_eq_0_iff unsigned_0)
      moreover have "0 < fst (f64_of_int (int (h + m)))"
        using False by (intro f64_value_pos) (simp only: ex(2) of_nat_0_less_iff neq0_conv)
      ultimately show ?thesis
        using f64_div_round [of "f64_of_int (int (h + m))" "f64_of_int (int h)"] ex
        by (simp add: lru_HitRate_def cnt u del: of_nat_add)
    qed
  qed
  moreover have "0 \<le> real h / real (h + m)" by simp
  moreover have "real h / real (h + m) \<le> 1"
  proof (cases "h + m = 0")
    case False
    then have "0 < real (h + m)" unfolding of_nat_0_less_iff by simp
    then show ?thesis by (simp add: divide_le_eq_1_pos del: of_nat_0_less_iff)
  qed simp
  ultimately show ?thesis
    using cnt is_round_unit unfolding Let_def hm [symmetric] lru_Hits_def lru_Misses_def by blast
qed

theorem hit_rate_exact_witness:
  "\<exists>rs l. run_ops lru_step [Op_Get 1, Op_Put 1 True, Op_Get 1, Op_Get (1::nat)] (NewLRU 2) = (rs, l) \<and>
     lru_Hits l = 2 \<and> lru_Misses l = 1 \<and> lru_HitRate l = (6004799503160661, - 53) \<and> is_round (2 / 3) (lru_HitRate l)"
proof -
  have "run_ops lru_step [Op_Get 1, Op_Put 1 True, Op_Get 1, Op_Get (1::nat)] (NewLRU 2) =
      ([Res_Value None, Res_None, Res_Value (Some True), Res_Value (Some True)],
       snd (run_ops lru_step [Op_Get 1, Op_Put 1 True, Op_Get 1, Op_Get (1::nat)] (NewLRU 2)))" (is "_ = (_, ?l)")
    by code_simp
  moreover have "lru_HitRate ?l = (6004799503160661, - 53)" by code_simp
  ultimately show ?thesis using hit_rate_exact [of "[Op_Get 1, Op_Put 1 True, Op_Get 1, Op_Get (1::nat)]" 2]
    by (auto simp: Let_def)
qed

end
