(* ===== verification/Bench_Client.thy ===== *)
theory Bench_Client
  imports Go_Float Metadata_Server "HOL-Library.Multiset"
begin

text \<open>
  \<^verbatim>\<open>cmd/bench/main.go\<close>: the benchmark client. It creates its table, commits one snapshot,
  warms the cache, measures a number of reads and prints statistics of their latencies. The gRPC
  client is the server's handler; the measured latencies are an argument, and a
  \<^verbatim>\<open>log.Fatalf\<close> ends the run with an error.
\<close>

subsection \<open>Statistics\<close>

text \<open>A fraction \<open>p\<close> of the way through the sorted latencies; an index out of range panics (\<open>None\<close>).\<close>

definition percentile :: "int64 list \<Rightarrow> float64 \<Rightarrow> int64 option" where
  "percentile lats p =
     (if lats = [] then Some 0
      else
        (let idx = f64_trunc (f64_mul (f64_of_int (int (length lats) - 1)) p) in
         if 0 \<le> idx \<and> idx < int (length lats) then Some (lats ! nat idx) else None))"

definition p50 :: float64 where "p50 = f64_ratio 50 100"
definition p95 :: float64 where "p95 = f64_ratio 95 100"
definition p99 :: float64 where "p99 = f64_ratio 99 100"

record bench_stats =
  bs_requests :: int
  bs_avg :: int64
  bs_p50 :: int64
  bs_p95 :: int64
  bs_p99 :: int64
  bs_min :: int64
  bs_max :: int64

text \<open>Go's integer division truncates.\<close>

definition go_quot :: "int64 \<Rightarrow> int64 \<Rightarrow> int64" where
  "go_quot a b = (if a < 0 then - (- a div b) else a div b)"

text \<open>Without a latency the average divides by zero, which panics.\<close>

definition printStats :: "int64 list \<Rightarrow> bench_stats option" where
  "printStats latencies =
     (let lats = sort latencies;
          total = foldl (\<lambda>total l. int64_of (total + l)) 0 lats in
      if lats = [] then None
      else
        (case (percentile lats p50, percentile lats p95, percentile lats p99) of
           (Some a, Some b, Some c) \<Rightarrow>
             Some \<lparr>bs_requests = int (length lats), bs_avg = go_quot total (int (length lats)),
               bs_p50 = a, bs_p95 = b, bs_p99 = c, bs_min = hd lats, bs_max = last lats\<rparr>
         | _ \<Rightarrow> None))"

subsection \<open>The client\<close>

definition bench_tableName :: string where
  "bench_tableName = ''bench_events''"

definition bench_schema :: string where
  \<open>bench_schema = ''{"fields":[{"name":"event_id","type":"long"},{"name":"ts","type":"timestamp"}]}''\<close>

text \<open>The verbs \<^verbatim>\<open>%02d\<close> and \<^verbatim>\<open>%03d\<close> on a non-negative number.\<close>

definition zero_padded :: "nat \<Rightarrow> nat \<Rightarrow> string" where
  "zero_padded width n = replicate (width - length (dec_nat n)) (CHR ''0'') @ dec_nat n"

definition bench_partition :: "nat \<Rightarrow> PartitionInfo" where
  "bench_partition i =
     \<lparr>pi_PartitionKey = ''month=2025-'' @ zero_padded 2 (i mod 12 + 1) @ ''-part='' @ zero_padded 3 i,
      pi_DataFilePath = ''s3://bucket/bench_events/part-'' @ zero_padded 3 i @ ''.parquet'',
      pi_RowCount = 100000, pi_SizeBytes = 15000000, pi_SnapshotId = 0, pi_FileFormat = ''parquet'',
      pi_ColumnStats = []\<rparr>"

datatype bench_error = Create_Failed status | Read_Failed status | No_Partitions

definition mustCreateTable :: "server_env \<Rightarrow> (status + OpResult) act" where
  "mustCreateTable S =
     srv_CreateTable S bench_tableName bench_schema ''month'' [(''owner'', ''bench'')]"

text \<open>The number of partitions is 200 in the code.\<close>

definition mustSeedSnapshot :: "server_env \<Rightarrow> nat \<Rightarrow> (status + CommitResult) act" where
  "mustSeedSnapshot S n =
     srv_CommitSnapshot S bench_tableName (map bench_partition [0..<n]) [] 0 ''append''"

fun bench_reads :: "server_env \<Rightarrow> int64 list \<Rightarrow> int64 list \<Rightarrow> (bench_error + int64 list) act" where
  "bench_reads S [] latencies = act_ret (Inr latencies)"
| "bench_reads S (elapsed # rest) latencies =
     act_then (srv_GetPartitions S bench_tableName 0 0 [])
       (\<lambda>resp. case resp of
          Inl err \<Rightarrow> act_ret (Inl (Read_Failed err))
        | Inr r \<Rightarrow>
            if pl_Partitions r = [] then act_ret (Inl No_Partitions)
            else bench_reads S rest (latencies @ [elapsed]))"

text \<open>
  \<open>elapsed\<close> holds the time each of the reads takes (1000 reads in the code). The results of the seeding
  and of the warm-up read are not looked at, nor is the success flag of the creation.
\<close>

definition bench_main ::
    "server_env \<Rightarrow> nat \<Rightarrow> int64 list \<Rightarrow> (bench_error + bench_stats option) act" where
  "bench_main S n elapsed =
     act_then (mustCreateTable S) (\<lambda>created. case created of
        Inl err \<Rightarrow> act_ret (Inl (Create_Failed err))
      | Inr _ \<Rightarrow>
          act_then (mustSeedSnapshot S n) (\<lambda>_.
          act_then (srv_GetPartitions S bench_tableName 0 0 []) (\<lambda>_.
          act_then (bench_reads S elapsed []) (\<lambda>r. case r of
             Inl err \<Rightarrow> act_ret (Inl err)
           | Inr latencies \<Rightarrow> act_ret (Inr (printStats latencies))))))"

subsection \<open>Percentiles\<close>

definition unit_fraction :: "float64 \<Rightarrow> bool" where
  "unit_fraction p \<longleftrightarrow> 0 \<le> f64_value p \<and> f64_value p \<le> 1"

lemma percentile_index:
  assumes "unit_fraction p" "0 < n" "n \<le> 2 ^ 53"
  shows "0 \<le> f64_trunc (f64_mul (f64_of_int (n - 1)) p)" "f64_trunc (f64_mul (f64_of_int (n - 1)) p) < n"
proof -
  have v: "f64_value (f64_of_int (n - 1)) = of_int (n - 1)"
    using assms is_round_exact [OF f64_of_int_round] by simp
  have r: "is_round (of_int (n - 1) * f64_value p) (f64_mul (f64_of_int (n - 1)) p)"
    using f64_mul_round [of "f64_of_int (n - 1)" p] by (simp only: v)
  have "is_round 0 (0, 0)" by (simp add: is_round_def)
  from is_round_mono [OF this r] have "0 \<le> f64_value (f64_mul (f64_of_int (n - 1)) p)"
    using assms by (simp add: unit_fraction_def)
  then show "0 \<le> f64_trunc (f64_mul (f64_of_int (n - 1)) p)" by (simp add: f64_trunc_floor)
  have "f64_value (f64_mul (f64_of_int (n - 1)) p) \<le> of_int (n - 1)"
    using is_round_mono [OF r f64_of_int_round [of "n - 1"]] v assms by (simp add: unit_fraction_def mult_left_le)
  then show "f64_trunc (f64_mul (f64_of_int (n - 1)) p) < n" unfolding f64_trunc_floor by linarith
qed

lemma percentile_index_mono:
  assumes "f64_value p \<le> f64_value q" "0 < n" "n \<le> 2 ^ 53"
  shows "f64_trunc (f64_mul (f64_of_int (n - 1)) p) \<le> f64_trunc (f64_mul (f64_of_int (n - 1)) q)"
proof -
  have v: "f64_value (f64_of_int (n - 1)) = of_int (n - 1)"
    using assms is_round_exact [OF f64_of_int_round] by simp
  have "f64_value (f64_of_int (n - 1)) * f64_value p \<le> f64_value (f64_of_int (n - 1)) * f64_value q"
    using assms by (intro mult_left_mono) (simp_all add: v)
  then have "f64_value (f64_mul (f64_of_int (n - 1)) p) \<le> f64_value (f64_mul (f64_of_int (n - 1)) q)"
    by (rule is_round_mono [OF f64_mul_round f64_mul_round])
  then show ?thesis unfolding f64_trunc_floor by (rule floor_mono)
qed

lemma fractions:
  "unit_fraction p50" "unit_fraction p95" "unit_fraction p99" "f64_value p50 \<le> f64_value p95" "f64_value p95 \<le> f64_value p99"
proof -
  have r: "is_round (50 / 100) p50" "is_round (95 / 100) p95" "is_round (99 / 100) p99"
    unfolding p50_def p95_def p99_def
    using f64_ratio_is_round [of 100 50] f64_ratio_is_round [of 100 95] f64_ratio_is_round [of 100 99] by simp_all
  then show "unit_fraction p50" "unit_fraction p95" "unit_fraction p99"
    unfolding unit_fraction_def using is_round_unit by auto
  show "f64_value p50 \<le> f64_value p95" "f64_value p95 \<le> f64_value p99"
    by (rule is_round_mono [OF r(1,2)], simp, rule is_round_mono [OF r(2,3)], simp)
qed

lemma percentile_spec:
  assumes "unit_fraction p" "xs \<noteq> []" "length xs \<le> 2 ^ 53"
  obtains i where "percentile xs p = Some (xs ! i)" "i < length xs"
    "int i = f64_trunc (f64_mul (f64_of_int (int (length xs) - 1)) p)"
  using percentile_index [OF assms(1), of "int (length xs)"] assms(2,3) that [of "nat (f64_trunc (f64_mul (f64_of_int (int (length xs) - 1)) p))"]
  by (simp add: percentile_def nat_less_iff)

lemma percentile_mono:
  assumes "sorted xs" "xs \<noteq> []" "length xs \<le> 2 ^ 53" "unit_fraction p" "unit_fraction q" "f64_value p \<le> f64_value q"
  obtains a b where "percentile xs p = Some a" "percentile xs q = Some b" "a \<le> b" "a \<in> set xs" "b \<in> set xs"
proof -
  obtain i where i: "percentile xs p = Some (xs ! i)" "i < length xs"
      "int i = f64_trunc (f64_mul (f64_of_int (int (length xs) - 1)) p)" by (rule percentile_spec [OF assms(4,2,3)])
  obtain j where j: "percentile xs q = Some (xs ! j)" "j < length xs"
      "int j = f64_trunc (f64_mul (f64_of_int (int (length xs) - 1)) q)" by (rule percentile_spec [OF assms(5,2,3)])
  have "int i \<le> int j" unfolding i(3) j(3) using assms(2,3) by (intro percentile_index_mono [OF assms(6)]) simp_all
  then have "xs ! i \<le> xs ! j" using j(2) by (intro sorted_nth_mono [OF assms(1)]) simp_all
  then show thesis by (rule that [OF i(1) j(1) _ nth_mem [OF i(2)] nth_mem [OF j(2)]])
qed

lemma sorted_ends:
  assumes "sorted (xs :: int list)" "x \<in> set xs"
  shows "hd xs \<le> x" "x \<le> last xs"
proof -
  show "hd xs \<le> x" using assms by (cases xs) auto
  show "x \<le> last xs" using assms by (cases xs rule: rev_cases) (auto simp: sorted_append)
qed

lemma total_exact:
  assumes "\<forall>l \<in> set xs. 0 \<le> l" "0 \<le> t" "t + sum_list xs < 2 ^ 63"
  shows "foldl (\<lambda>total l. int64_of (total + l)) t xs = t + sum_list xs"
  using assms
proof (induction xs arbitrary: t)
  case (Cons x xs)
  have "0 \<le> sum_list xs" using Cons.prems(1) by (intro sum_list_nonneg) simp
  then have "in_int64 (t + x)" using Cons.prems by (simp add: in_int64_def)
  with Cons show ?case by (simp add: add.assoc)
qed simp

lemma sum_between:
  assumes "\<forall>x \<in> set xs. a \<le> x \<and> x \<le> (b :: int)"
  shows "a * int (length xs) \<le> sum_list xs" "sum_list xs \<le> b * int (length xs)"
  using assms by (induction xs) (auto simp: algebra_simps)

text \<open>
  C39: The benchmark's report is consistent. For measured times that are not negative and whose sum
  fits into 63 bits no index is out of range, and the report satisfies min \<le> p50 \<le> p95 \<le> p99 \<le> max and
  min \<le> average \<le> max; minimum and maximum are those of the data, the percentiles are measured values,
  and the order of the measurements does not matter.
\<close>

theorem bench_report_consistent:
  assumes "lats \<noteq> []" "length lats \<le> 2 ^ 53" "\<forall>l \<in> set lats. 0 \<le> l" "sum_list lats < 2 ^ 63"
  shows "\<exists>st. printStats lats = Some st \<and> bs_requests st = int (length lats) \<and>
    bs_min st = Min (set lats) \<and> bs_max st = Max (set lats) \<and> {bs_p50 st, bs_p95 st, bs_p99 st} \<subseteq> set lats \<and>
    bs_min st \<le> bs_p50 st \<and> bs_p50 st \<le> bs_p95 st \<and> bs_p95 st \<le> bs_p99 st \<and> bs_p99 st \<le> bs_max st \<and>
    bs_min st \<le> bs_avg st \<and> bs_avg st \<le> bs_max st \<and>
    (\<forall>lats'. mset lats' = mset lats \<longrightarrow> printStats lats' = Some st)"
proof -
  define xs where "xs = sort lats"
  have xs: "sorted xs" "xs \<noteq> []" "length xs \<le> 2 ^ 53" "set xs = set lats" "length xs = length lats"
    using assms(1,2) by (simp_all add: xs_def flip: set_empty)
  obtain a b where ab: "percentile xs p50 = Some a" "percentile xs p95 = Some b" "a \<le> b" "a \<in> set xs" "b \<in> set xs"
    by (rule percentile_mono [OF xs(1-3) fractions(1,2,4)])
  obtain b' c where bc: "percentile xs p95 = Some b'" "percentile xs p99 = Some c" "b' \<le> c" "c \<in> set xs"
    by (rule percentile_mono [OF xs(1-3) fractions(2,3,5)])
  have sum: "sum_list xs = sum_list lats" by (metis mset_sort sum_mset_sum_list xs_def)
  then have total: "foldl (\<lambda>total l. int64_of (total + l)) 0 xs = sum_list xs"
    using total_exact [of xs 0] assms(3,4) by (simp add: xs(4))
  have ends: "hd xs \<le> x" "x \<le> last xs" if "x \<in> set xs" for x using sorted_ends [OF xs(1) that] .
  have "Min (set lats) = hd xs" "Max (set lats) = last xs"
    unfolding xs(4) [symmetric] using xs(2) ends by (simp_all add: Min_eqI Max_eqI)
  moreover have "hd xs \<le> go_quot (sum_list xs) (int (length xs))" "go_quot (sum_list xs) (int (length xs)) \<le> last xs"
  proof -
    have len: "0 < int (length xs)" using xs(2) by simp
    have "0 \<le> sum_list xs" using assms(3) xs(4) by (intro sum_list_nonneg) simp
    then have q: "go_quot (sum_list xs) (int (length xs)) = sum_list xs div int (length xs)" by (simp add: go_quot_def)
    have "hd xs * int (length xs) \<le> sum_list xs" "sum_list xs \<le> last xs * int (length xs)"
      using sum_between [of xs "hd xs" "last xs"] ends by blast+
    then have "hd xs * int (length xs) div int (length xs) \<le> sum_list xs div int (length xs)"
      "sum_list xs div int (length xs) \<le> last xs * int (length xs) div int (length xs)"
      using len by (simp_all only: zdiv_mono1)
    then show "hd xs \<le> go_quot (sum_list xs) (int (length xs))" "go_quot (sum_list xs) (int (length xs)) \<le> last xs"
      using len by (simp_all add: q)
  qed
  moreover have "printStats lats' = printStats lats" if "mset lats' = mset lats" for lats'
    using that by (simp add: printStats_def flip: sorted_list_of_multiset_mset)
  ultimately show ?thesis
    using ab bc ends xs by (auto simp: printStats_def Let_def total simp flip: xs_def)
qed

theorem bench_report_consistent_witness:
  "printStats [30, 10, 20] = Some \<lparr>bs_requests = 3, bs_avg = 20, bs_p50 = 20, bs_p95 = 20, bs_p99 = 20, bs_min = 10, bs_max = 30\<rparr> \<and>
   printStats [10, 20, 30] = printStats [30, 10, 20]"
proof -
  have "printStats [30, 10, 20] = Some \<lparr>bs_requests = 3, bs_avg = 20, bs_p50 = 20, bs_p95 = 20, bs_p99 = 20, bs_min = 10, bs_max = 30\<rparr>"
    by code_simp
  with bench_report_consistent [of "[30, 10, 20]"] show ?thesis by force
qed

end
