(* ===== verification/Bench_Run.thy ===== *)
theory Bench_Run
  imports Bench_Client Catalog_Changes Catalog_Theorems Sample_Versions
begin

text \<open>The benchmark client against the server: what its report is about.\<close>

text \<open>A read of the current snapshot, whatever its outcome.\<close>

lemma read_step:
  assumes "reachable S s" "\<not> acks_lost (se_pg S)" "srv_GetPartitions S name 0 0 [] s = Some (r, s')"
  shows "reachable S s'" "db_of s' = db_of s"
    "\<And>resp. r = Inr resp \<Longrightarrow> \<exists>rows. partitions_at (db_of s) name (current_of name (db_of s)) = Some rows \<and>
       length (pl_Partitions resp) = length rows"
proof -
  show "reachable S s'"
    by (rule reachable_request [OF assms(1), of "Req_GetPartitions name 0 0 []"]) (simp add: run_act_def assms(3))
  have "db_of s' = db_of s \<and> ((\<forall>e. r \<noteq> Inl (Internal, e)) \<longrightarrow>
      r = partitions_reply name 0 (partitions_at (db_of s) name (resolved name 0 (db_of s))))"
    using GetPartitions_replies [of 0 S name 0 "[]"] reachable_good [OF assms(1)] assms(2,3) unfolding replies_def by blast
  then show "db_of s' = db_of s" "\<And>resp. r = Inr resp \<Longrightarrow>
      \<exists>rows. partitions_at (db_of s) name (current_of name (db_of s)) = Some rows \<and> length (pl_Partitions resp) = length rows"
    by (auto simp: partitions_reply_def partition_list_def resolved_def split: option.splits)
qed

lemma bench_reads_run:
  assumes "reachable S s" "\<not> acks_lost (se_pg S)" "bench_reads S elapsed lats s = Some (Inr r, s')"
  shows "db_of s' = db_of s \<and> r = lats @ elapsed \<and>
    (elapsed \<noteq> [] \<longrightarrow> (\<exists>rows. partitions_at (db_of s) bench_tableName (current_of bench_tableName (db_of s)) = Some rows \<and> rows \<noteq> []))"
  using assms
proof (induction elapsed arbitrary: lats s)
  case (Cons e es)
  obtain x s1 where get: "srv_GetPartitions S bench_tableName 0 0 [] s = Some (x, s1)"
    and rest: "(case x of Inl err \<Rightarrow> act_ret (Inl (Read_Failed err))
        | Inr r \<Rightarrow> if pl_Partitions r = [] then act_ret (Inl No_Partitions) else bench_reads S es (lats @ [e])) s1 =
      Some (Inr r, s')"
    using Cons.prems(3) by (auto simp: act_then_def split: option.splits)
  note step = read_step [OF Cons.prems(1,2) get]
  obtain resp where resp: "x = Inr resp" "pl_Partitions resp \<noteq> []" "bench_reads S es (lats @ [e]) s1 = Some (Inr r, s')"
    using rest by (auto simp: act_ret_def split: sum.splits if_splits)
  from step(3) [OF resp(1)] resp(2) Cons.IH [OF step(1) Cons.prems(2) resp(3)] step(2) show ?case by fastforce
qed (simp add: act_ret_def)

lemma bench_main_run:
  assumes "bench_main S n elapsed s = Some (Inr out, s')"
  obtains r1 s1 c s2 g s3 lats where "mustCreateTable S s = Some (Inr r1, s1)" "mustSeedSnapshot S n s1 = Some (c, s2)"
    "srv_GetPartitions S bench_tableName 0 0 [] s2 = Some (g, s3)" "bench_reads S elapsed [] s3 = Some (Inr lats, s')"
    "out = printStats lats"
  using assms by (auto simp: bench_main_def act_then_def act_ret_def split: option.splits sum.splits)



end
