(* ===== verification/Server_Process.thy ===== *)
theory Server_Process
  imports Catalog_Runs
begin

text \<open>
  \<^verbatim>\<open>cmd/server/main.go\<close>: the life of the server process. Its goroutines (the gRPC server, the
  clean-up loop and \<^verbatim>\<open>main\<close> itself, which waits for a signal or for the end of the gRPC server) are
  steps of one transition relation; the handlers run one after the other, as in \<open>leads_to\<close>.
\<close>

datatype process_phase = Running | Draining | Exited

text \<open>The phases are ordered as they follow each other.\<close>

fun phase_rank :: "process_phase \<Rightarrow> nat" where
  "phase_rank Running = 0"
| "phase_rank Draining = 1"
| "phase_rank Exited = 2"

instantiation process_phase :: linorder
begin

definition less_eq_process_phase :: "process_phase \<Rightarrow> process_phase \<Rightarrow> bool" where
  "less_eq_process_phase p q \<longleftrightarrow> phase_rank p \<le> phase_rank q"

definition less_process_phase :: "process_phase \<Rightarrow> process_phase \<Rightarrow> bool" where
  "less_process_phase p q \<longleftrightarrow> phase_rank p < phase_rank q"

instance
proof
  fix p q :: process_phase
  show "p \<le> q \<Longrightarrow> q \<le> p \<Longrightarrow> p = q"
    by (cases p; cases q) (simp_all add: less_eq_process_phase_def)
qed (auto simp: less_eq_process_phase_def less_process_phase_def)

end

text \<open>\<open>proc_stopCleanup\<close>: the channel is closed; \<open>proc_ticking\<close>: the clean-up goroutine is alive.\<close>

record process =
  proc_sys :: sys
  proc_phase :: process_phase
  proc_stopCleanup :: bool
  proc_ticking :: bool

text \<open>
  The start. \<open>connected\<close> and \<open>listening\<close> say whether the connection pool and the listener could be
  opened; otherwise \<^verbatim>\<open>log.Fatalf\<close> ends the process (\<open>None\<close>).
\<close>

definition server_main :: "(string \<Rightarrow> string) \<Rightarrow> bool \<Rightarrow> bool \<Rightarrow> pg \<Rightarrow> process option" where
  "server_main getenv connected listening w =
     (let cfg = FromEnv getenv in
      if \<not> connected then None
      else if \<not> listening then None
      else Some \<lparr>proc_sys = NewServer cfg w, proc_phase = Running, proc_stopCleanup = False, proc_ticking = True\<rparr>)"

text \<open>
  The steps. The clean-up is no gRPC request; only ticks run it. A tick and the closed channel may both be ready: Go's \<^verbatim>\<open>select\<close> then takes either. While
  the server drains, handlers that have started still finish. When \<^verbatim>\<open>main\<close> returns, the process ends
  with all its goroutines.
\<close>

inductive process_step :: "server_env \<Rightarrow> process \<Rightarrow> process \<Rightarrow> bool" for S where
  handler: "proc_phase p \<noteq> Exited \<Longrightarrow> (\<forall>now. req \<noteq> Req_Cleanup now) \<Longrightarrow> serve S req (proc_sys p) = Some s' \<Longrightarrow> process_step S p (p\<lparr>proc_sys := s'\<rparr>)"
| tick: "proc_phase p \<noteq> Exited \<Longrightarrow> proc_ticking p \<Longrightarrow> srv_Cleanup now (proc_sys p) = Some (cleaned, s') \<Longrightarrow>
    process_step S p (p\<lparr>proc_sys := s'\<rparr>)"
| loop_ends: "proc_phase p \<noteq> Exited \<Longrightarrow> proc_ticking p \<Longrightarrow> proc_stopCleanup p \<Longrightarrow>
    process_step S p (p\<lparr>proc_ticking := False\<rparr>)"
| signalled: "proc_phase p = Running \<Longrightarrow> process_step S p (p\<lparr>proc_phase := Draining, proc_stopCleanup := True\<rparr>)"
| drained: "proc_phase p = Draining \<Longrightarrow> process_step S p (p\<lparr>proc_phase := Exited\<rparr>)"
| serve_failed: "proc_phase p = Running \<Longrightarrow> process_step S p (p\<lparr>proc_phase := Exited, proc_stopCleanup := True\<rparr>)"

inductive_cases process_stepE: "process_step S p p'"

subsection \<open>The process and the states of the server\<close>

text \<open>The processes on a database left behind by earlier ones.\<close>

inductive process_run :: "server_env \<Rightarrow> process \<Rightarrow> bool" for S where
  first: "server_main getenv c l empty_pg = Some p \<Longrightarrow> process_run S p"
| again: "process_run S q \<Longrightarrow> server_main getenv c l (c_pg (sys_core (proc_sys q))) = Some p \<Longrightarrow> process_run S p"
| moves: "process_run S p \<Longrightarrow> process_step S p p' \<Longrightarrow> process_run S p'"

lemma server_main_starts:
  "server_main getenv c l w = Some p \<Longrightarrow>
   p = \<lparr>proc_sys = NewServer (FromEnv getenv) w, proc_phase = Running, proc_stopCleanup = False, proc_ticking = True\<rparr>"
  by (auto simp: server_main_def Let_def split: if_splits)

lemma step_leads_to: "process_step S p p' \<Longrightarrow> leads_to S (proc_sys p) (proc_sys p')"
proof (induction rule: process_step.induct)
  case (handler p req s')
  then show ?case by (auto intro: leads_to.intros)
next
  case (tick p now cleaned s')
  then have "serve S (Req_Cleanup now) (proc_sys p) = Some s'" by (simp add: run_act_def)
  from leads_to.request [OF leads_to.here this] show ?case by simp
qed (simp_all add: leads_to.here)

text \<open>Every property of the reachable states holds in every state of every process.\<close>

theorem process_run_reachable: "process_run S p \<Longrightarrow> reachable S (proc_sys p)"
proof (induction rule: process_run.induct)
  case (first getenv c l p)
  then show ?case using server_main_starts [OF first] by (auto simp: reachable_def intro: leads_to.here)
next
  case (again q getenv c l p)
  then show ?case using server_main_starts [OF again(2)] reachable_leads_to [OF again(3) leads_to.restart [OF leads_to.here]] by simp
next
  case (moves p p')
  then show ?case using step_leads_to reachable_leads_to by blast
qed

text \<open>The clean-up loop runs until the process stops, and an exited process does nothing more.\<close>

theorem process_loop:
  assumes "process_run S p"
  shows "proc_phase p = Running \<longrightarrow> \<not> proc_stopCleanup p \<and> proc_ticking p"
  using assms
proof (induction rule: process_run.induct)
  case (moves p p')
  from moves(2) show ?case using moves(3) by cases auto
qed (auto dest: server_main_starts)

lemma phase_advances: "process_step S p p' \<Longrightarrow> proc_phase p \<le> proc_phase p'"
  by (erule process_stepE) (auto simp: less_eq_process_phase_def)

lemma exited_final: "proc_phase p = Exited \<Longrightarrow> \<not> process_step S p p'"
  by (auto elim: process_stepE)

text \<open>A tick leaves only transactions within the timeout, and it can always happen while the server runs.\<close>

lemma cleanup_run:
  assumes "srv_Cleanup now s = Some (cleaned, s')"
  shows "mvcc_CleanupExpiredTransactions now (c_mvcc (sys_core s)) = (cleaned, c_mvcc (sys_core s'))"
  using assms by (auto simp: srv_Cleanup_def mvcc_do_def unlocked_def split: prod.splits)

theorem tick_expires:
  assumes "process_run S p" "srv_Cleanup now (proc_sys p) = Some (cleaned, s')"
  shows "\<forall>x \<in> set (activeTransactions (c_mvcc (sys_core s'))). \<not> mvcc_expired now (snd x) (c_mvcc (sys_core s'))"
proof -
  have "mvcc_inv (c_mvcc (sys_core (proc_sys p)))"
    using reachable_parts [OF process_run_reachable [OF assms(1)]] by simp
  from Cleanup_spec(2,4) [OF this, of now] cleanup_run [OF assms(2)] show ?thesis by (auto simp: mvcc_expired_def)
qed

theorem tick_enabled:
  assumes "process_run S p" "proc_phase p = Running"
  obtains cleaned s' where "srv_Cleanup now (proc_sys p) = Some (cleaned, s')" "process_step S p (p\<lparr>proc_sys := s'\<rparr>)"
proof -
  obtain s' cleaned where "srv_Cleanup now (proc_sys p) = Some (cleaned, s')"
    using serve_total [OF _ reachable_good [OF process_run_reachable [OF assms(1)]], of "Req_Cleanup now"]
    by (auto simp: run_act_def)
  moreover from this have "process_step S p (p\<lparr>proc_sys := s'\<rparr>)"
    using process_loop [OF assms(1)] assms(2) by (intro process_step.tick) auto
  ultimately show thesis by (rule that)
qed

end
