(* ===== verification/Spec2Isabelle.thy ===== *)
theory Spec2Isabelle
  imports Ice_Prelude Go_Strconv LRU_Cache Lock_Manager MVCC_Manager Go_Json DB_Models
    PG_Store PG_Client Partition_Spec Catalog_State Catalog_Manager Partition_Registry Version_Stores
    Ice_Config Metadata_Server Catalog_Effects Db_Facts Db_Invariant Snapshot_Commit Snapshot_Reads
    Cache_Coherence Db_Evolution Catalog_System Catalog_Runs Sample_Run Catalog_Theorems Read_Answers
    Catalog_Reads Catalog_Answers
    Version_History Sample_Versions Version_Reads Catalog_Changes Client_Transactions Catalog_Permanence
    Go_Float Cache_Metrics Bench_Client Bench_Run Server_Process
begin

text \<open>
  A verification of IceCore, a metadata server for an analytic table format written in Go. The server
  keeps tables, their versioned schemas and partition specs, and a history of immutable snapshots with
  their partitions in PostgreSQL; it answers gRPC requests, caches partition lists in memory, locks
  tables by name and tracks client transactions. The whole server is modelled, from the parsing of its
  environment to the SQL statements, and so are the process around it and its benchmark client.

  \<^bold>\<open>Parts.\<close> Paths are relative to \<^verbatim>\<open>src/\<close>; definitions keep the names of the code, with a prefix
  where a method name occurs in several types.

  \<^item> \<open>Ice_Prelude\<close>, \<open>Go_Strconv\<close>, \<open>Go_Json\<close>, \<open>Go_Float\<close>: the part of Go's integers, maps, \<^verbatim>\<open>strconv\<close>,
    \<^verbatim>\<open>encoding/json\<close> and \<^verbatim>\<open>float64\<close> that the program uses. \<^verbatim>\<open>uint64\<close> is a 64-bit word; signed integers
    are mathematical with explicit wrap-around; strings are byte lists; a Go map is an association
    list, so that its order of iteration can be varied.
  \<^item> \<open>LRU_Cache\<close>, \<open>Cache_Metrics\<close>: \<^verbatim>\<open>internal/cache/lru.go\<close>, on the level of list elements and pointers.
  \<^item> \<open>Lock_Manager\<close>: \<^verbatim>\<open>internal/lock/lock_manager.go\<close>, a heap of read-write mutexes.
  \<^item> \<open>MVCC_Manager\<close>: \<^verbatim>\<open>internal/transaction/mvcc_manager.go\<close>, active transactions and pin counts.
  \<^item> \<open>DB_Models\<close>, \<open>PG_Store\<close>, \<open>PG_Client\<close>: \<^verbatim>\<open>internal/db/models.go\<close>, \<^verbatim>\<open>scripts/init_db.sql\<close> and
    \<^verbatim>\<open>internal/db/pg_client.go\<close>. A relation is a list of records, a statement a function of the time,
    the database and the sequences, a method of \<^verbatim>\<open>PGClient\<close> a state transformer over a connection
    (\<open>pg\<close>) with at most one open transaction.
  \<^item> \<open>Partition_Spec\<close>, \<open>Version_Stores\<close>: \<^verbatim>\<open>partition_spec.go\<close>, \<^verbatim>\<open>partition_spec_store.go\<close>,
    \<^verbatim>\<open>schema_store.go\<close> and \<^verbatim>\<open>manifest_store.go\<close> of \<^verbatim>\<open>internal/catalog\<close>.
  \<^item> \<open>Catalog_State\<close>, \<open>Catalog_Manager\<close>, \<open>Partition_Registry\<close>: \<^verbatim>\<open>catalog_manager.go\<close> and
    \<^verbatim>\<open>partition_registry.go\<close>. The state of the server is \<open>sys\<close>: the locks and the \<open>core\<close> they protect,
    that is the connection, the cache and the transaction table. A method \<open>cm_X\<close>, \<open>sp_X\<close>, \<open>ss_X\<close> or
    \<open>reg_X\<close> takes its locks and runs the body \<open>X_locked\<close>; it gives \<open>None\<close> when it blocks for ever.
  \<^item> \<open>Ice_Config\<close>, \<open>Metadata_Server\<close>: \<^verbatim>\<open>internal/config/config.go\<close> and
    \<^verbatim>\<open>internal/server/metadata_server.go\<close>, one \<open>srv_X\<close> for every gRPC handler.
  \<^item> \<open>Server_Process\<close>: \<^verbatim>\<open>cmd/server/main.go\<close>, the goroutines of the process as a step relation.
  \<^item> \<open>Bench_Client\<close>, \<open>Bench_Run\<close>: \<^verbatim>\<open>cmd/bench/main.go\<close> against the handlers.

  \<^bold>\<open>The environment.\<close> What is not in the repository is a parameter. \<open>pg_env\<close> is PostgreSQL beyond the
  statements: for every call whether it fails, and then whether before or after it took effect
  (\<open>pe_fault\<close>; a commit whose acknowledgement is lost is \<open>acks_lost\<close>), the clock, the cast to
  \<^verbatim>\<open>jsonb\<close> and the texts of errors and timestamps. \<open>server_env\<close> adds the cache switch and the texts of
  \<^verbatim>\<open>%q\<close> and of JSON errors. No property assumes that calls succeed. Two hypotheses occur by name:
  \<open>\<not> acks_lost\<close> for the freshness of the cache, because a commit that is reported as failed does not
  invalidate, and \<open>specs_kept\<close>, that \<^verbatim>\<open>jsonb\<close> keeps the meaning of the specs the server writes.
  \<open>healthy\<close> is an environment without faults, on which the witnesses run.

  \<^bold>\<open>Time.\<close> Requests are served one after the other; \<open>serve\<close> is the step of one request,
  \<open>leads_to\<close> any sequence of requests and restarts, \<open>reachable\<close> what comes of the first start on an empty
  database (\<open>Catalog_Runs\<close>). Every process of \<open>Server_Process\<close> stays within the reachable states, its
  clean-up ticks included. Inside the lock manager calls interleave freely.

  \<^bold>\<open>Interfaces.\<close> \<open>codec\<close> (encoder and decoder; page tokens, cache keys, JSON texts), \<open>read_cache\<close> (what the
  registry needs of the LRU cache: an entry was put there and not invalidated since), \<open>table_locks\<close>
  (locks of different tables are independent, a release undoes its acquisition) and \<open>pin_table\<close>
  (reference counts). Each is a locale whose consequences are proved once, interpreted on the
  definitions of the component that provides it.

  \<^bold>\<open>The layers of the proof.\<close>

  \<^item> Components on their own: the LRU cache refines a bounded list in order of use and never returns a
    stale value; locks exclude; pins are the active readers, time-outs and clean-up are exact; the
    validation of spec changes is characterised and composes over chains; specs survive JSON; the
    configuration is in bounds.
  \<^item> \<open>Db_Facts\<close>, \<open>Catalog_Effects\<close>, \<open>Snapshot_Commit\<close>: a Hoare logic of database methods, and for every
    write one \<open>X_effect\<close> on the committed database, which the code has entirely or not at all whatever
    calls fail (\<open>X_post\<close>).
  \<^item> \<open>Db_Invariant\<close>, \<open>Snapshot_Reads\<close>, \<open>Cache_Coherence\<close>, \<open>Version_History\<close>, \<open>Db_Evolution\<close>: what the effects
    keep. \<open>db_inv\<close> is the invariant of the database (ids, chains of snapshots, partitions, manifests),
    \<open>coherent\<close> that of the cache, \<open>records\<close> that of the version histories, and \<open>evolves\<close> relates two
    databases in time: nothing that was readable changes.
  \<^item> \<open>Catalog_System\<close>, \<open>Catalog_Runs\<close>: every handler keeps the invariant \<open>good\<close> and returns, so it holds of
    all reachable states.
  \<^item> \<open>Read_Answers\<close>: the read handlers as functions of the database (\<open>answers\<close>, \<open>replies\<close>).
  \<^item> \<open>Catalog_Theorems\<close>, \<open>Catalog_Reads\<close>, \<open>Catalog_Answers\<close>, \<open>Version_Reads\<close>, \<open>Catalog_Changes\<close>,
    \<open>Client_Transactions\<close>, \<open>Catalog_Permanence\<close>, \<open>Bench_Run\<close>: the properties of the server as a whole, among
    them atomic commits, no lost updates, immutable history, complete and isolated paging, fresh cached
    reads, agreeing totals, complete version histories, and what creation, renaming, dropping and
    client transactions do and leave behind. \<open>Sample_Run\<close> and \<open>Sample_Versions\<close> hold concrete states that
    are reachable, for the witnesses.

  \<^bold>\<open>Bounds and fuel.\<close> The JSON parser has fuel \<open>json_fuel s = 2 * length s + 2\<close>; \<open>json_parse_enough\<close> shows
  that more never changes the answer. A client that follows page tokens is given one call more than
  there are rows, which is part of the property. All other recursion is structural or has a measure.
  \<^verbatim>\<open>float64\<close> numbers have 53-bit significands and unbounded exponents; the properties of the hit rate and
  of the percentiles are for at most \<open>2 ^ 53\<close> lookups or measurements.

  \<^bold>\<open>What the proofs brought to light.\<close> Renaming a table to its own name waits for itself for ever;
  the first schema of a table is in no history; an abort overwrites a recorded commit; the name of a
  dropped table is never free again; a table with a transaction can never be purged; the transform
  parameter of an existing partition field may change; a large transaction timeout turns negative.

  \<^bold>\<open>Not modelled.\<close> Interleavings inside one handler and several servers on one database: the model
  runs a handler to its end before the next. Between the calls of \<^verbatim>\<open>BeginTransaction\<close> and of
  \<^verbatim>\<open>AlterTable\<close> with a new partition spec the code holds no lock, so this is a restriction there. The
  connection pool and its set-up, gRPC transport, deadlines and cancellation (a cancelled call is a
  failed database call), logging, indexes and the columns that no statement reads or writes. The
  generated protobuf code appears as the records of the message fields that the handlers read and
  write. Test code, and the database reset it uses, is not part of the server.
\<close>

end
